(* ===== verification/Prelude.thy ===== *)
theory Prelude
  imports Main
begin

section \<open>Shared loops, arrays and lemmas\<close>

text \<open>
  What the component theories share: the C \<open>for\<close> loop as a fold over an index range, the
  \<open>for\<close> loop that returns from its middle as a search over an index range, C arrays as lists
  with in-range updates, and the list lemmas the proofs use.  The collection \<open>c_loops\<close> holds
  the unfolding equations of the loop combinators.
\<close>

named_theorems c_loops \<open>unfolding equations of the loop combinators\<close>

text \<open>
  The ways in which a run has no result of its own: the C standard leaves it undefined (a null
  stream or pointer is used, an array index is out of range, an uninitialised variable is read,
  a signed integer overflows), a kernel store hits a write-protected page, or a loop does not end.
\<close>

datatype fault = Null_Pointer | Out_Of_Bounds | Uninitialised | Overflow | Write_Protected | Diverges

text \<open>A call that may end in a fault.\<close>

type_synonym 'a outcome = "fault + 'a"

text \<open>The error numbers the kernel code returns, negated.\<close>

definition ENOENT :: int where "ENOENT = 2"
definition ESRCH :: int where "ESRCH = 3"
definition EINTR :: int where "EINTR = 4"
definition E2BIG :: int where "E2BIG = 7"
definition EAGAIN :: int where "EAGAIN = 11"
definition ENOMEM :: int where "ENOMEM = 12"
definition EACCES :: int where "EACCES = 13"
definition EFAULT :: int where "EFAULT = 14"
definition EINVAL :: int where "EINVAL = 22"
definition ERESTARTNOINTR :: int where "ERESTARTNOINTR = 513"

lemmas errno_defs = ENOENT_def ESRCH_def EINTR_def E2BIG_def EAGAIN_def ENOMEM_def EACCES_def
  EFAULT_def EINVAL_def ERESTARTNOINTR_def

definition bind_outcome :: "'a outcome \<Rightarrow> ('a \<Rightarrow> 'b outcome) \<Rightarrow> 'b outcome" where
  "bind_outcome r f = (case r of Inl e \<Rightarrow> Inl e | Inr x \<Rightarrow> f x)"

text \<open>
  \<open>for (i = lo; i < hi; i++) s = body i s;\<close>
\<close>

definition for_loop :: "nat \<Rightarrow> nat \<Rightarrow> (nat \<Rightarrow> 's \<Rightarrow> 's) \<Rightarrow> 's \<Rightarrow> 's" where
  "for_loop lo hi body s = fold body [lo..<hi] s"

text \<open>
  \<open>for (i = lo; i < hi; i++) if (P i) return i;\<close> with \<^term>\<open>None\<close> for falling through.
\<close>

definition for_first :: "nat \<Rightarrow> nat \<Rightarrow> (nat \<Rightarrow> bool) \<Rightarrow> nat option" where
  "for_first lo hi P = find P [lo..<hi]"

text \<open>The C convention for such a search: the index, or \<open>-1\<close>.\<close>

definition index_or_minus1 :: "nat option \<Rightarrow> int" where
  "index_or_minus1 r = (case r of Some i \<Rightarrow> int i | None \<Rightarrow> - 1)"

lemma bind_outcome_simps [simp]:
  "bind_outcome (Inl e) f = Inl e" "bind_outcome (Inr x) f = f x"
  by (simp_all add: bind_outcome_def)

lemma bind_outcome_Inr:
  "bind_outcome r f = Inr y \<longleftrightarrow> (\<exists>x. r = Inr x \<and> f x = Inr y)"
  by (auto simp: bind_outcome_def split: sum.splits)

lemma for_loop_empty [simp, c_loops]: "hi \<le> lo \<Longrightarrow> for_loop lo hi body s = s"
  by (simp add: for_loop_def)

lemma for_loop_step [c_loops]:
  "lo < hi \<Longrightarrow> for_loop lo hi body s = for_loop (Suc lo) hi body (body lo s)"
  by (simp add: for_loop_def upt_rec)

lemma for_loop_last:
  "lo \<le> hi \<Longrightarrow> for_loop lo (Suc hi) body s = body hi (for_loop lo hi body s)"
  by (simp add: for_loop_def)

lemma for_loop_invariant:
  assumes "lo \<le> hi" and "P lo s"
    and "\<And>i s. lo \<le> i \<Longrightarrow> i < hi \<Longrightarrow> P i s \<Longrightarrow> P (Suc i) (body i s)"
  shows "P hi (for_loop lo hi body s)"
  using assms
proof (induction hi rule: dec_induct)
  case base
  then show ?case by simp
next
  case (step n)
  then have "P n (for_loop lo n body s)" by simp
  with step show ?case by (simp add: for_loop_last)
qed

lemma for_loop_cong:
  "(\<And>i s. lo \<le> i \<Longrightarrow> i < hi \<Longrightarrow> f i s = g i s) \<Longrightarrow> for_loop lo hi f s = for_loop lo hi g s"
  unfolding for_loop_def by (rule fold_cong) (auto intro!: ext)

lemma for_first_Some:
  "for_first lo hi P = Some i \<longleftrightarrow> lo \<le> i \<and> i < hi \<and> P i \<and> (\<forall>j. lo \<le> j \<and> j < i \<longrightarrow> \<not> P j)"
proof (induction "hi - lo" arbitrary: lo)
  case 0
  then show ?case by (auto simp: for_first_def)
next
  case (Suc d)
  then have lt: "lo < hi" by simp
  have IH: "for_first (Suc lo) hi P = Some i \<longleftrightarrow>
      Suc lo \<le> i \<and> i < hi \<and> P i \<and> (\<forall>j. Suc lo \<le> j \<and> j < i \<longrightarrow> \<not> P j)"
    using Suc.hyps by (intro Suc.hyps(1)) simp
  have unf: "for_first lo hi P = (if P lo then Some lo else for_first (Suc lo) hi P)"
    using lt by (simp add: for_first_def upt_rec)
  show ?case
  proof (cases "P lo")
    case True
    then show ?thesis using lt unf by (auto simp: not_less_eq_eq le_less)
  next
    case False
    then show ?thesis using unf IH by (auto simp: Suc_le_eq) (metis le_neq_implies_less)+
  qed
qed

lemma for_first_None: "for_first lo hi P = None \<longleftrightarrow> (\<forall>i. lo \<le> i \<and> i < hi \<longrightarrow> \<not> P i)"
  by (auto simp: for_first_def find_None_iff)

lemma index_or_minus1_simps [simp]:
  "index_or_minus1 (Some i) = int i"
  "index_or_minus1 None = - 1"
  "index_or_minus1 r = - 1 \<longleftrightarrow> r = None"
  by (auto simp: index_or_minus1_def split: option.splits)

lemma set_take_nth: "i < n \<Longrightarrow> i < length xs \<Longrightarrow> xs ! i \<in> set (take n xs)"
  by (metis in_set_conv_nth length_take min_less_iff_conj nth_take)

lemma in_set_take_iff: "x \<in> set (take n xs) \<longleftrightarrow> (\<exists>i < n. i < length xs \<and> xs ! i = x)"
  by (auto simp: in_set_conv_nth)

lemma take_update_Suc: "n < length xs \<Longrightarrow> take (Suc n) (xs[n := x]) = take n xs @ [x]"
  by (simp add: take_Suc_conv_app_nth)

lemma drop_nth_Cons: "k < length xs \<Longrightarrow> drop k xs = xs ! k # drop (Suc k) xs"
  by (simp add: Cons_nth_drop_Suc)

lemma mod_cycle_neq:
  assumes "(h::nat) < F" and "0 < d" and "d < F"
  shows "(h + d) mod F \<noteq> h"
proof (cases "h + d < F")
  case True
  then show ?thesis using assms by simp
next
  case False
  then have "(h + d) mod F = h + d - F" using assms by (simp add: le_mod_geq)
  then show ?thesis using assms False by linarith
qed

text \<open>Options with the same values are equal.\<close>

lemma option_eqI: "(\<And>c. x = Some c \<longleftrightarrow> y = Some c) \<Longrightarrow> x = y"
  by (cases x; cases y) auto

subsection \<open>Loops that may not end\<close>

text \<open>
  \<open>while (1) body\<close>: one pass of the body faults, leaves the loop (\<^term>\<open>Inl\<close>) or goes on
  (\<^term>\<open>Inr\<close>) with the next state.  \<^term>\<open>None\<close> is a loop that runs for ever.
\<close>

partial_function (option) c_while :: "('s \<Rightarrow> ('t + 's) outcome) \<Rightarrow> 's \<Rightarrow> 't outcome option" where
  "c_while body s =
     (case body s of
        Inl e \<Rightarrow> Some (Inl e)
      | Inr (Inl t) \<Rightarrow> Some (Inr t)
      | Inr (Inr s') \<Rightarrow> c_while body s')"

text \<open>The result of such a loop as a call: running for ever is the fault \<^const>\<open>Diverges\<close>.\<close>

definition run_loop :: "('s \<Rightarrow> ('t + 's) outcome) \<Rightarrow> 's \<Rightarrow> 't outcome" where
  "run_loop body s = (case c_while body s of None \<Rightarrow> Inl Diverges | Some r \<Rightarrow> r)"

lemma run_loop_unfold [code]:
  "run_loop body s =
     (case body s of Inl e \<Rightarrow> Inl e | Inr (Inl t) \<Rightarrow> Inr t | Inr (Inr s') \<Rightarrow> run_loop body s')"
  unfolding run_loop_def by (subst c_while.simps) (auto split: sum.splits)

text \<open>Total correctness with an invariant and a measure; faults satisfy \<open>F\<close>.\<close>

lemma run_loop_rule:
  assumes "I s"
    and fault: "\<And>s e. I s \<Longrightarrow> body s = Inl e \<Longrightarrow> F e"
    and leave: "\<And>s t. I s \<Longrightarrow> body s = Inr (Inl t) \<Longrightarrow> Q t"
    and step: "\<And>s s'. I s \<Longrightarrow> body s = Inr (Inr s') \<Longrightarrow> I s' \<and> (m s' :: nat) < m s"
  shows "case run_loop body s of Inl e \<Rightarrow> F e | Inr t \<Rightarrow> Q t"
  using assms(1)
proof (induction "m s" arbitrary: s rule: less_induct)
  case less
  show ?case
  proof (cases "body s")
    case (Inl e)
    then show ?thesis using fault [OF less.prems] by (simp add: run_loop_unfold [of body s])
  next
    case (Inr r)
    show ?thesis
    proof (cases r)
      case (Inl t)
      then show ?thesis using leave [OF less.prems] Inr by (simp add: run_loop_unfold [of body s])
    next
      case s': (Inr s')
      then show ?thesis
        using step [OF less.prems] less.hyps [of s'] Inr by (simp add: run_loop_unfold [of body s])
    qed
  qed
qed

text \<open>Without faults.\<close>

lemma run_loop_returns:
  assumes "I s"
    and "\<And>s. I s \<Longrightarrow> (\<exists>t. body s = Inr (Inl t) \<and> Q t) \<or>
                    (\<exists>s'. body s = Inr (Inr s') \<and> I s' \<and> (m s' :: nat) < m s)"
  obtains t where "run_loop body s = Inr t" and "Q t"
proof -
  have "case run_loop body s of Inl e \<Rightarrow> False | Inr t \<Rightarrow> Q t"
    by (rule run_loop_rule [where I = I and m = m]) (use assms in force)+
  then show ?thesis using that by (auto split: sum.splits)
qed

text \<open>A computable test for a result, for evaluation.\<close>

definition returns :: "'a outcome \<Rightarrow> bool" where
  "returns r = (case r of Inl _ \<Rightarrow> False | Inr _ \<Rightarrow> True)"

lemma ex_Inr_iff: "returns r \<longleftrightarrow> (\<exists>x. r = Inr x)"
  by (auto simp: returns_def split: sum.splits)

end
