(* ===== verification/Paging.thy ===== *)
theory Paging
  imports Prelude
begin

section \<open>The page replacement simulator (Assignment3-2)\<close>

text \<open>
  The four simulators of \<^verbatim>\<open>page_replacement_simulator.c\<close> with the search they share.  An
  \<open>int\<close> array of \<open>F\<close> cells is a list of length \<open>F\<close>; the local variables of each simulator
  are a record; the body of its \<open>for\<close> loop over the reference string is a step function and the
  loop is \<^const>\<open>for_loop\<close>.  The reading of the input file and the printing are in
  \<open>Paging_Main\<close>, the optimality of OPT is in \<open>Paging_Policies\<close> and the stack property of
  LRU is in \<open>Paging_LRU\<close>.
\<close>

subsection \<open>Data and the frame search\<close>

text \<open>The struct \<open>RefSeq\<close>: \<open>seq->n\<close> is the number of references stored in \<open>seq->refs\<close>.\<close>

record RefSeq =
  refs :: "int list"

abbreviation seq_n :: "RefSeq \<Rightarrow> nat" where
  "seq_n sq \<equiv> length (refs sq)"

definition find_in_frames :: "int list \<Rightarrow> nat \<Rightarrow> int \<Rightarrow> int" where
  "find_in_frames frames f page = index_or_minus1 (for_first 0 f (\<lambda>i. frames ! i = page))"

subsection \<open>Optimal replacement\<close>

record opt_state =
  opt_frames :: "int list"
  opt_faults :: nat
  opt_filled :: nat

text \<open>The inner search for the next occurrence of a page: \<open>j\<close> from \<open>k + 1\<close>.\<close>

definition opt_next :: "RefSeq \<Rightarrow> nat \<Rightarrow> int \<Rightarrow> int" where
  "opt_next sq k page = index_or_minus1 (for_first (k + 1) (seq_n sq) (\<lambda>j. refs sq ! j = page))"

text \<open>The victim search, with \<open>found\<close> and \<open>furthest\<close>; a page with no next use breaks out.\<close>

function opt_victim ::
  "nat \<Rightarrow> RefSeq \<Rightarrow> nat \<Rightarrow> int list \<Rightarrow> nat \<Rightarrow> nat \<Rightarrow> int \<Rightarrow> nat" where
  "opt_victim F sq k frames i found furthest =
     (if i < F then
        let next = opt_next sq k (frames ! i) in
        if next = - 1 then i
        else if next > furthest then opt_victim F sq k frames (i + 1) i next
        else opt_victim F sq k frames (i + 1) found furthest
      else found)"
  by pat_completeness auto
termination
  by (relation "measure (\<lambda>(F, sq, k, frames, i, found, furthest). F - i)") auto

definition opt_step :: "nat \<Rightarrow> RefSeq \<Rightarrow> nat \<Rightarrow> opt_state \<Rightarrow> opt_state" where
  "opt_step F sq k s =
     (let p = refs sq ! k; hit_idx = find_in_frames (opt_frames s) F p in
      if hit_idx \<noteq> - 1 then s
      else
        let s = s\<lparr>opt_faults := opt_faults s + 1\<rparr> in
        if opt_filled s < F then
          s\<lparr>opt_frames := (opt_frames s)[opt_filled s := p], opt_filled := opt_filled s + 1\<rparr>
        else
          let found = opt_victim F sq k (opt_frames s) 0 0 (- 1) in
          s\<lparr>opt_frames := (opt_frames s)[found := p]\<rparr>)"

definition opt_init :: "nat \<Rightarrow> opt_state" where
  "opt_init F = \<lparr>opt_frames = replicate F (- 1), opt_faults = 0, opt_filled = 0\<rparr>"

definition simulate_opt :: "nat \<Rightarrow> RefSeq \<Rightarrow> nat" where
  "simulate_opt F sq = opt_faults (for_loop 0 (seq_n sq) (opt_step F sq) (opt_init F))"

subsection \<open>FIFO replacement\<close>

record fifo_state =
  fifo_frames :: "int list"
  fifo_faults :: nat
  fifo_idx :: nat
  fifo_filled :: nat

definition fifo_step :: "nat \<Rightarrow> RefSeq \<Rightarrow> nat \<Rightarrow> fifo_state \<Rightarrow> fifo_state" where
  "fifo_step F sq t s =
     (let p = refs sq ! t in
      if find_in_frames (fifo_frames s) F p \<noteq> - 1 then s
      else
        let s = s\<lparr>fifo_faults := fifo_faults s + 1\<rparr> in
        if fifo_filled s < F then
          s\<lparr>fifo_frames := (fifo_frames s)[fifo_filled s := p], fifo_filled := fifo_filled s + 1\<rparr>
        else
          s\<lparr>fifo_frames := (fifo_frames s)[fifo_idx s := p],
            fifo_idx := (fifo_idx s + 1) mod F\<rparr>)"

definition fifo_init :: "nat \<Rightarrow> fifo_state" where
  "fifo_init F =
     \<lparr>fifo_frames = replicate F (- 1), fifo_faults = 0, fifo_idx = 0, fifo_filled = 0\<rparr>"

definition simulate_fifo :: "nat \<Rightarrow> RefSeq \<Rightarrow> nat" where
  "simulate_fifo F sq = fifo_faults (for_loop 0 (seq_n sq) (fifo_step F sq) (fifo_init F))"

subsection \<open>Least recently used\<close>

record lru_state =
  lru_frames :: "int list"
  lru_last :: "int list"
  lru_faults :: nat
  lru_filled :: nat

text \<open>\<open>victim = 0; for (i = 1; i < F; i++) if (last[i] < last[victim]) victim = i;\<close>\<close>

definition lru_victim :: "nat \<Rightarrow> int list \<Rightarrow> nat" where
  "lru_victim F last' =
     for_loop 1 F (\<lambda>i victim. if last' ! i < last' ! victim then i else victim) 0"

definition lru_step :: "nat \<Rightarrow> RefSeq \<Rightarrow> nat \<Rightarrow> lru_state \<Rightarrow> lru_state" where
  "lru_step F sq t s =
     (let p = refs sq ! t; idx = find_in_frames (lru_frames s) F p in
      if idx \<noteq> - 1 then s\<lparr>lru_last := (lru_last s)[nat idx := int t]\<rparr>
      else
        let s = s\<lparr>lru_faults := lru_faults s + 1\<rparr> in
        if lru_filled s < F then
          s\<lparr>lru_frames := (lru_frames s)[lru_filled s := p],
            lru_last := (lru_last s)[lru_filled s := int t],
            lru_filled := lru_filled s + 1\<rparr>
        else
          let victim = lru_victim F (lru_last s) in
          s\<lparr>lru_frames := (lru_frames s)[victim := p],
            lru_last := (lru_last s)[victim := int t]\<rparr>)"

definition lru_init :: "nat \<Rightarrow> lru_state" where
  "lru_init F = \<lparr>lru_frames = replicate F (- 1), lru_last = replicate F (- 1),
                 lru_faults = 0, lru_filled = 0\<rparr>"

definition simulate_lru :: "nat \<Rightarrow> RefSeq \<Rightarrow> nat" where
  "simulate_lru F sq = lru_faults (for_loop 0 (seq_n sq) (lru_step F sq) (lru_init F))"

subsection \<open>Clock\<close>

record clock_state =
  clock_frames :: "int list"
  clock_refb :: "nat list"
  clock_faults :: nat
  clock_hand :: nat
  clock_filled :: nat

text \<open>
  The inner \<open>while (1)\<close>: it leaves only through its \<open>break\<close>, so a run of the hand that never
  meets a clear bit is the value \<^term>\<open>None\<close>.
\<close>

partial_function (option) clock_replace ::
  "nat \<Rightarrow> int \<Rightarrow> clock_state \<Rightarrow> clock_state option" where
  "clock_replace F p s =
     (if clock_refb s ! clock_hand s = 0 then
        Some (s\<lparr>clock_frames := (clock_frames s)[clock_hand s := p],
                clock_refb := (clock_refb s)[clock_hand s := 1],
                clock_hand := (clock_hand s + 1) mod F\<rparr>)
      else
        clock_replace F p
          (s\<lparr>clock_refb := (clock_refb s)[clock_hand s := 0],
             clock_hand := (clock_hand s + 1) mod F\<rparr>))"

declare clock_replace.simps [code]

definition clock_step :: "nat \<Rightarrow> RefSeq \<Rightarrow> nat \<Rightarrow> clock_state \<Rightarrow> clock_state option" where
  "clock_step F sq t s =
     (let p = refs sq ! t; idx = find_in_frames (clock_frames s) F p in
      if idx \<noteq> - 1 then Some (s\<lparr>clock_refb := (clock_refb s)[nat idx := 1]\<rparr>)
      else
        let s = s\<lparr>clock_faults := clock_faults s + 1\<rparr> in
        if clock_filled s < F then
          Some (s\<lparr>clock_frames := (clock_frames s)[clock_filled s := p],
                  clock_refb := (clock_refb s)[clock_filled s := 1],
                  clock_filled := clock_filled s + 1\<rparr>)
        else clock_replace F p s)"

definition clock_init :: "nat \<Rightarrow> clock_state" where
  "clock_init F = \<lparr>clock_frames = replicate F (- 1), clock_refb = replicate F 0,
                   clock_faults = 0, clock_hand = 0, clock_filled = 0\<rparr>"

definition simulate_clock :: "nat \<Rightarrow> RefSeq \<Rightarrow> nat option" where
  "simulate_clock F sq =
     map_option clock_faults
       (for_loop 0 (seq_n sq) (\<lambda>t so. Option.bind so (clock_step F sq t)) (Some (clock_init F)))"

declare opt_victim.simps [simp del]

end
