(* ===== verification/Paging_Policies.thy ===== *)
theory Paging_Policies
  imports Paging
begin

section \<open>Demand paging: what the four simulators share, and the optimality of OPT\<close>

text \<open>
  The locale \<open>demand_paging\<close> is the contract of a replacement algorithm: the set of resident
  pages and the fault count after each reference, a hit changes neither, a miss counts one fault
  and brings the page in, evicting one resident page only when all frames are in use.  Its lemmas
  hold of every such algorithm.  The locale \<open>furthest_paging\<close> adds the law of OPT, that the
  evicted page is one whose next use is furthest away, and \<open>versus_opt\<close> compares such an
  algorithm with any other.  All four simulators are interpretations.
\<close>

definition paging_input :: "nat \<Rightarrow> RefSeq \<Rightarrow> bool" where
  "paging_input F sq \<longleftrightarrow> 0 < F \<and> - 1 \<notin> set (refs sq)"

text \<open>The pages referenced by the \<open>t\<close> references from position \<open>k\<close> on.\<close>

definition window :: "RefSeq \<Rightarrow> nat \<Rightarrow> nat \<Rightarrow> int set" where
  "window sq k t = set (take t (drop k (refs sq)))"

locale demand_paging =
  fixes resident :: "nat \<Rightarrow> RefSeq \<Rightarrow> nat \<Rightarrow> int set"
    and faults :: "nat \<Rightarrow> RefSeq \<Rightarrow> nat \<Rightarrow> nat"
  assumes start: "resident F sq 0 = {}" "faults F sq 0 = 0"
    and hit: "paging_input F sq \<Longrightarrow> k < seq_n sq \<Longrightarrow> refs sq ! k \<in> resident F sq k \<Longrightarrow>
      resident F sq (Suc k) = resident F sq k \<and> faults F sq (Suc k) = faults F sq k"
    and miss: "paging_input F sq \<Longrightarrow> k < seq_n sq \<Longrightarrow> refs sq ! k \<notin> resident F sq k \<Longrightarrow>
      faults F sq (Suc k) = Suc (faults F sq k) \<and>
      (card (resident F sq k) < F \<and>
         resident F sq (Suc k) = insert (refs sq ! k) (resident F sq k) \<or>
       card (resident F sq k) = F \<and>
         (\<exists>v \<in> resident F sq k.
            resident F sq (Suc k) = insert (refs sq ! k) (resident F sq k - {v})))"
begin

lemma resident_bounds:
  assumes "paging_input F sq" and "k \<le> seq_n sq"
  shows "finite (resident F sq k) \<and> card (resident F sq k) \<le> F"
  using assms(2)
proof (induction k)
  case 0
  show ?case by (simp add: start)
next
  case (Suc k)
  then have IH: "finite (resident F sq k)" "card (resident F sq k) \<le> F" and k: "k < seq_n sq"
    by auto
  show ?case
  proof (cases "refs sq ! k \<in> resident F sq k")
    case True
    then show ?thesis using hit [OF assms(1) k] IH by simp
  next
    case False
    moreover have "0 < F" using assms(1) by (simp add: paging_input_def)
    ultimately show ?thesis using miss [OF assms(1) k] IH by (auto simp: card_insert_if)
  qed
qed

lemma resident_referenced:
  assumes "paging_input F sq" and "k \<le> seq_n sq"
  shows "resident F sq k \<subseteq> set (take k (refs sq))"
  using assms(2)
proof (induction k)
  case 0
  show ?case by (simp add: start)
next
  case (Suc k)
  then have k: "k < seq_n sq" by simp
  have "resident F sq (Suc k) \<subseteq> insert (refs sq ! k) (resident F sq k)"
    using hit [OF assms(1) k] miss [OF assms(1) k] by blast
  then show ?case using Suc k by (auto simp: take_Suc_conv_app_nth)
qed

lemma loaded:
  assumes "paging_input F sq" and "k < seq_n sq"
  shows "refs sq ! k \<in> resident F sq (Suc k)"
  using hit [OF assms] miss [OF assms] by blast

lemma faults_step:
  assumes "paging_input F sq" and "k < seq_n sq"
  shows "faults F sq k \<le> faults F sq (Suc k) \<and> faults F sq (Suc k) \<le> Suc (faults F sq k)"
  using hit [OF assms] miss [OF assms] by (cases "refs sq ! k \<in> resident F sq k") auto

lemma faults_le:
  assumes "paging_input F sq" and "k \<le> seq_n sq"
  shows "faults F sq k \<le> k"
  using assms(2)
proof (induction k)
  case (Suc k)
  then show ?case using faults_step [OF assms(1), of k] by simp
qed (simp add: start)

lemma compulsory_faults:
  assumes "paging_input F sq" and "k \<le> seq_n sq"
  shows "card (set (take k (refs sq))) \<le> faults F sq k"
  using assms(2)
proof (induction k)
  case 0
  show ?case by (simp add: start)
next
  case (Suc k)
  then have k: "k < seq_n sq" by simp
  show ?case
  proof (cases "refs sq ! k \<in> set (take k (refs sq))")
    case True
    then have "set (take (Suc k) (refs sq)) = set (take k (refs sq))"
      using k by (auto simp: take_Suc_conv_app_nth)
    then show ?thesis using Suc faults_step [OF assms(1) k] by simp
  next
    case False
    then have "refs sq ! k \<notin> resident F sq k"
      using resident_referenced [OF assms(1), of k] k by auto
    with miss [OF assms(1) k] False Suc show ?thesis
      by (simp add: take_Suc_conv_app_nth [OF k])
  qed
qed

lemma enough_frames:
  assumes inp: "paging_input F sq" and few: "card (set (refs sq)) \<le> F" and "k \<le> seq_n sq"
  shows "resident F sq k = set (take k (refs sq)) \<and> faults F sq k = card (set (take k (refs sq)))"
  using assms(3)
proof (induction k)
  case 0
  show ?case by (simp add: start)
next
  case (Suc k)
  then have k: "k < seq_n sq" and IH: "resident F sq k = set (take k (refs sq))"
    "faults F sq k = card (set (take k (refs sq)))" by auto
  have Suc_set: "set (take (Suc k) (refs sq)) = insert (refs sq ! k) (set (take k (refs sq)))"
    using k by (simp add: take_Suc_conv_app_nth)
  show ?case
  proof (cases "refs sq ! k \<in> resident F sq k")
    case True
    then show ?thesis using hit [OF inp k] IH Suc_set by (simp add: insert_absorb)
  next
    case False
    have "set (take (Suc k) (refs sq)) \<subseteq> set (refs sq)" by (rule set_take_subset)
    then have "card (set (take (Suc k) (refs sq))) \<le> F"
      using few card_mono [OF finite_set] le_trans by blast
    then have "card (resident F sq k) < F"
      using False IH Suc_set by simp
    then show ?thesis using miss [OF inp k False] False IH Suc_set by auto
  qed
qed

end

locale furthest_paging = demand_paging +
  assumes furthest: "paging_input F sq \<Longrightarrow> k < seq_n sq \<Longrightarrow> refs sq ! k \<notin> resident F sq k \<Longrightarrow>
      card (resident F sq k) = F \<Longrightarrow>
      \<exists>v \<in> resident F sq k.
        resident F sq (Suc k) = insert (refs sq ! k) (resident F sq k - {v}) \<and>
        (\<forall>t. v \<in> window sq (Suc k) t \<longrightarrow> resident F sq k \<subseteq> window sq (Suc k) t)"

lemma window_Suc:
  "k < seq_n sq \<Longrightarrow> window sq k (Suc t) = insert (refs sq ! k) (window sq (Suc k) t)"
  by (simp add: window_def drop_nth_Cons)

lemma finite_window [simp]: "finite (window sq k t)"
  by (simp add: window_def)

text \<open>
  Both sets have just had \<open>p\<close> brought in; whether \<open>p\<close> is used again soon does not change the
  comparison of their other members.
\<close>

lemma card_window_drop_page:
  assumes "p \<in> S'" "p \<in> T'" "finite S'" "finite T'"
    and "card ((T' - {p}) \<inter> insert p U) \<le> card ((S' - {p}) \<inter> insert p U) + d"
  shows "card (T' \<inter> U) \<le> card (S' \<inter> U) + d"
proof -
  have split: "card (X \<inter> U) = card ((X - {p}) \<inter> insert p U) + (if p \<in> U then 1 else 0)"
    if "p \<in> X" "finite X" for X
  proof (cases "p \<in> U")
    case True
    then have "X \<inter> U = insert p ((X - {p}) \<inter> insert p U)" using that by auto
    then show ?thesis using True that by simp
  next
    case False
    then have "X \<inter> U = (X - {p}) \<inter> insert p U" by auto
    then show ?thesis using False by simp
  qed
  show ?thesis using assms split [of T'] split [of S'] by simp
qed

text \<open>
  Belady's argument.  \<open>o.faults + d\<close> bounds the faults of the other algorithm from below by
  construction of \<open>d\<close>; the invariant says that, looking any distance \<open>t\<close> ahead, the other
  algorithm holds at most \<open>d\<close> more of the pages needed there than OPT does.
\<close>

locale versus_opt =
  o: furthest_paging o_resident o_faults + a: demand_paging a_resident a_faults
  for o_resident :: "nat \<Rightarrow> RefSeq \<Rightarrow> nat \<Rightarrow> int set"
    and o_faults :: "nat \<Rightarrow> RefSeq \<Rightarrow> nat \<Rightarrow> nat"
    and a_resident :: "nat \<Rightarrow> RefSeq \<Rightarrow> nat \<Rightarrow> int set"
    and a_faults :: "nat \<Rightarrow> RefSeq \<Rightarrow> nat \<Rightarrow> nat"
begin

lemma opt_rest_dominates:
  assumes inp: "paging_input F sq" and k: "k < seq_n sq"
    and miss: "refs sq ! k \<notin> o_resident F sq k"
    and rest: "finite Y" "card Y < F" "card (Y \<inter> window sq k (Suc t)) \<le>
                 card (o_resident F sq k \<inter> window sq k (Suc t)) + d"
  shows "card (Y \<inter> window sq k (Suc t)) \<le>
    card ((o_resident F sq (Suc k) - {refs sq ! k}) \<inter> window sq k (Suc t)) + d"
proof (cases "card (o_resident F sq k) = F")
  case False
  then have "o_resident F sq (Suc k) - {refs sq ! k} = o_resident F sq k"
    using o.miss [OF inp k miss] miss by auto
  then show ?thesis using rest by simp
next
  case True
  then obtain v where v: "v \<in> o_resident F sq k"
    and res: "o_resident F sq (Suc k) = insert (refs sq ! k) (o_resident F sq k - {v})"
    and far: "\<And>t. v \<in> window sq (Suc k) t \<Longrightarrow> o_resident F sq k \<subseteq> window sq (Suc k) t"
    using o.furthest [OF inp k miss] by blast
  have fin: "finite (o_resident F sq k)" using o.resident_bounds [OF inp] k by simp
  have left: "o_resident F sq (Suc k) - {refs sq ! k} = o_resident F sq k - {v}"
    using res miss by auto
  show ?thesis
  proof (cases "v \<in> window sq k (Suc t)")
    case True
    with v miss have "v \<in> window sq (Suc k) t" using window_Suc [OF k, of t] by auto
    from far [OF this] have "o_resident F sq k - {v} \<subseteq> window sq k (Suc t)"
      using window_Suc [OF k, of t] by auto
    then have "card ((o_resident F sq k - {v}) \<inter> window sq k (Suc t)) = F - 1"
      using \<open>card (o_resident F sq k) = F\<close> fin v by (simp add: Int_absorb2)
    moreover have "card (Y \<inter> window sq k (Suc t)) \<le> card Y"
      using rest(1) by (simp add: card_mono)
    ultimately show ?thesis using rest(2) left by simp
  next
    case False
    then have "(o_resident F sq k - {v}) \<inter> window sq k (Suc t) =
               o_resident F sq k \<inter> window sq k (Suc t)" by auto
    then show ?thesis using rest left by simp
  qed
qed

lemma dominance:
  assumes inp: "paging_input F sq" and "k \<le> seq_n sq"
  shows "\<exists>d. a_faults F sq k = o_faults F sq k + d \<and>
    (\<forall>t. card (a_resident F sq k \<inter> window sq k t) \<le>
         card (o_resident F sq k \<inter> window sq k t) + d)"
  using assms(2)
proof (induction k)
  case 0
  show ?case by (simp add: o.start a.start)
next
  case (Suc k)
  then have k: "k < seq_n sq" by simp
  let ?p = "refs sq ! k" and ?S = "o_resident F sq k" and ?T = "a_resident F sq k"
  let ?S' = "o_resident F sq (Suc k)" and ?T' = "a_resident F sq (Suc k)"
  from Suc obtain d where d: "a_faults F sq k = o_faults F sq k + d"
    and ahead: "\<And>t. card (?T \<inter> window sq k t) \<le> card (?S \<inter> window sq k t) + d"
    by auto
  have fin: "finite ?S" "finite ?T" "finite ?S'" "finite ?T'" "card ?T' \<le> F"
    using o.resident_bounds [OF inp] a.resident_bounds [OF inp] k by simp_all
  have p: "?p \<in> ?S'" "?p \<in> ?T'" using o.loaded [OF inp k] a.loaded [OF inp k] by auto
  have rest_le: "card ((?T' - {?p}) \<inter> window sq k (Suc t)) \<le> card (?T \<inter> window sq k (Suc t))" for t
    using a.hit [OF inp k] a.miss [OF inp k] fin by (intro card_mono) auto
  have rest_lt: "card (?T' - {?p}) < F"
    using card_Suc_Diff1 [OF fin(4) p(2)] fin(5) by simp
  have hit_count: "card ((X - {?p}) \<inter> window sq k (Suc t)) = card (X \<inter> window sq k (Suc t)) - 1 \<and>
      0 < card (X \<inter> window sq k (Suc t))" if "?p \<in> X" "finite X" for X t
  proof -
    have "(X - {?p}) \<inter> window sq k (Suc t) = X \<inter> window sq k (Suc t) - {?p}" by auto
    moreover have "?p \<in> X \<inter> window sq k (Suc t)" using that window_Suc [OF k] by simp
    ultimately show ?thesis using that by (auto simp: card_gt_0_iff)
  qed
  have lift: "\<forall>t. card (?T' \<inter> window sq (Suc k) t) \<le> card (?S' \<inter> window sq (Suc k) t) + d'"
    if "\<And>t. card ((?T' - {?p}) \<inter> window sq k (Suc t)) \<le>
             card ((?S' - {?p}) \<inter> window sq k (Suc t)) + d'" for d'
    using that card_window_drop_page [OF p fin(3,4)] by (simp add: window_Suc [OF k])
  show ?case
  proof (cases "?p \<in> ?S")
    case True
    then have S': "?S' = ?S" "o_faults F sq (Suc k) = o_faults F sq k"
      using o.hit [OF inp k] by auto
    show ?thesis
    proof (cases "?p \<in> ?T")
      case True
      then have T': "?T' = ?T" "a_faults F sq (Suc k) = a_faults F sq k"
        using a.hit [OF inp k] by auto
      have "card ((?T' - {?p}) \<inter> window sq k (Suc t)) \<le>
            card ((?S' - {?p}) \<inter> window sq k (Suc t)) + d" for t
        using hit_count [OF True fin(2), of t] hit_count [OF \<open>?p \<in> ?S\<close> fin(1), of t]
          ahead [of "Suc t"] S' T' by simp
      from lift [OF this] show ?thesis using d S' T' by (intro exI [of _ d] conjI) simp_all
    next
      case False
      have "card ((?T' - {?p}) \<inter> window sq k (Suc t)) \<le>
            card ((?S' - {?p}) \<inter> window sq k (Suc t)) + Suc d" for t
        using rest_le [of t] hit_count [OF \<open>?p \<in> ?S\<close> fin(1), of t] ahead [of "Suc t"] S' by simp
      from lift [OF this] show ?thesis using d S' a.miss [OF inp k False]
        by (intro exI [of _ "Suc d"] conjI) simp_all
    qed
  next
    case missS: False
    then have fS: "o_faults F sq (Suc k) = Suc (o_faults F sq k)" using o.miss [OF inp k] by simp
    show ?thesis
    proof (cases "?p \<in> ?T")
      case True
      then have T': "?T' = ?T" "a_faults F sq (Suc k) = a_faults F sq k"
        using a.hit [OF inp k] by auto
      have one: "window sq k 1 = {?p}" using k by (simp add: window_def drop_nth_Cons)
      have "0 < d" using ahead [of 1] True missS fin unfolding one by simp
      then obtain d' where d': "d = Suc d'" by (cases d) auto
      have "card ((?T' - {?p}) \<inter> window sq k (Suc t)) \<le>
            card ((?S' - {?p}) \<inter> window sq k (Suc t)) + d'" for t
        using opt_rest_dominates [OF inp k missS, of "?T' - {?p}" t d'] rest_lt fin
          hit_count [OF True fin(2), of t] ahead [of "Suc t"] T' d' by simp
      from lift [OF this] show ?thesis using d d' fS T' by (intro exI [of _ d'] conjI) simp_all
    next
      case False
      have "card ((?T' - {?p}) \<inter> window sq k (Suc t)) \<le>
            card ((?S' - {?p}) \<inter> window sq k (Suc t)) + d" for t
        using opt_rest_dominates [OF inp k missS, of "?T' - {?p}" t d] rest_lt fin
          rest_le [of t] ahead [of "Suc t"] by simp
      from lift [OF this] show ?thesis using d fS a.miss [OF inp k False]
        by (intro exI [of _ d] conjI) simp_all
    qed
  qed
qed

lemma opt_minimal:
  assumes "paging_input F sq" and "k \<le> seq_n sq"
  shows "o_faults F sq k \<le> a_faults F sq k"
  using dominance [OF assms] by auto

end

end
