(* ===== verification/Paging_Frames.thy ===== *)
theory Paging_Frames
  imports Paging_Policies
begin

section \<open>The simulators' frame arrays implement demand paging\<close>

text \<open>
  The invariant \<open>frames_ok\<close> of the frame array, kept by the fill and replace branches that all
  four simulators have, and the interpretation of the locales of \<open>Paging_Policies\<close> on the
  simulators.
\<close>

definition frames_ok :: "nat \<Rightarrow> RefSeq \<Rightarrow> nat \<Rightarrow> int list \<Rightarrow> nat \<Rightarrow> bool" where
  "frames_ok F sq k frames filled \<longleftrightarrow>
     length frames = F \<and> filled \<le> F \<and> distinct (take filled frames) \<and>
     set (take filled frames) \<subseteq> set (take k (refs sq)) \<and>
     (\<forall>i. filled \<le> i \<and> i < F \<longrightarrow> frames ! i = - 1)"

definition held :: "int list \<Rightarrow> nat \<Rightarrow> int set" where
  "held frames filled = set (take filled frames)"

lemma frames_ok_init: "frames_ok F sq 0 (replicate F (- 1)) 0"
  by (simp add: frames_ok_def)

lemma frames_ok_later: "frames_ok F sq k frames filled \<Longrightarrow> frames_ok F sq (Suc k) frames filled"
  using set_take_subset_set_take [of k "Suc k" "refs sq"] by (auto simp: frames_ok_def)

lemma frames_ok_card: "frames_ok F sq k frames filled \<Longrightarrow> card (held frames filled) = filled"
  by (simp add: frames_ok_def held_def distinct_card)

lemma held_nth: "i < filled \<Longrightarrow> filled \<le> length frames \<Longrightarrow> frames ! i \<in> held frames filled"
  by (simp add: held_def set_take_nth)

lemma find_in_frames_miss:
  assumes "frames_ok F sq k frames filled" and "p \<noteq> - 1"
  shows "find_in_frames frames F p = - 1 \<longleftrightarrow> p \<notin> held frames filled"
proof
  assume "find_in_frames frames F p = - 1"
  then have "\<forall>i < F. frames ! i \<noteq> p" by (simp add: find_in_frames_def for_first_None)
  then show "p \<notin> held frames filled"
    using assms(1) by (auto simp: held_def frames_ok_def in_set_conv_nth)
next
  assume out: "p \<notin> held frames filled"
  have "frames ! i \<noteq> p" if "i < F" for i
  proof (cases "i < filled")
    case True
    then have "frames ! i \<in> held frames filled"
      using assms(1) by (auto simp: frames_ok_def intro: held_nth)
    then show ?thesis using out by auto
  next
    case False
    then show ?thesis using assms that by (auto simp: frames_ok_def)
  qed
  then show "find_in_frames frames F p = - 1" by (simp add: find_in_frames_def for_first_None)
qed

lemma find_in_frames_hit:
  assumes "frames_ok F sq k frames filled" and "p \<noteq> - 1" and "find_in_frames frames F p \<noteq> - 1"
  shows "nat (find_in_frames frames F p) < filled"
    and "frames ! nat (find_in_frames frames F p) = p"
proof -
  from assms(3) obtain i where i: "for_first 0 F (\<lambda>i. frames ! i = p) = Some i"
    by (auto simp: find_in_frames_def)
  then have "i < F" "frames ! i = p" by (auto simp: for_first_Some)
  moreover from this have "i < filled"
    using assms(1,2) by (auto simp: frames_ok_def) (meson not_le)
  ultimately show "nat (find_in_frames frames F p) < filled"
    "frames ! nat (find_in_frames frames F p) = p"
    using i by (simp_all add: find_in_frames_def)
qed

lemma frames_fill:
  assumes ok: "frames_ok F sq k frames filled" and k: "k < seq_n sq"
    and new: "refs sq ! k \<notin> held frames filled" and room: "filled < F"
  shows "frames_ok F sq (Suc k) (frames[filled := refs sq ! k]) (filled + 1)"
    and "held (frames[filled := refs sq ! k]) (filled + 1) = insert (refs sq ! k) (held frames filled)"
proof -
  have take': "take (filled + 1) (frames[filled := refs sq ! k]) = take filled frames @ [refs sq ! k]"
    using ok room by (simp add: frames_ok_def take_update_Suc)
  show "held (frames[filled := refs sq ! k]) (filled + 1) = insert (refs sq ! k) (held frames filled)"
    unfolding held_def take' by simp
  show "frames_ok F sq (Suc k) (frames[filled := refs sq ! k]) (filled + 1)"
    using ok new room k unfolding frames_ok_def held_def take'
    by (auto simp: take_Suc_conv_app_nth)
qed

lemma frames_replace:
  assumes ok: "frames_ok F sq k frames F" and k: "k < seq_n sq"
    and new: "refs sq ! k \<notin> held frames F" and v: "v < F"
  shows "frames_ok F sq (Suc k) (frames[v := refs sq ! k]) F"
    and "held (frames[v := refs sq ! k]) F = insert (refs sq ! k) (held frames F - {frames ! v})"
    and "frames ! v \<in> held frames F"
proof -
  have dist: "distinct frames" and len: "length frames = F"
    and sub: "set frames \<subseteq> set (take k (refs sq))"
    using ok by (auto simp: frames_ok_def)
  have upd: "set (frames[v := refs sq ! k]) = insert (refs sq ! k) (set frames - {frames ! v})"
    using dist len v by (simp add: set_update_distinct)
  show "held (frames[v := refs sq ! k]) F = insert (refs sq ! k) (held frames F - {frames ! v})"
    using len upd by (simp add: held_def)
  show "frames ! v \<in> held frames F" using len v by (simp add: held_def)
  show "frames_ok F sq (Suc k) (frames[v := refs sq ! k]) F"
    using dist len sub new k upd
    by (auto simp: frames_ok_def held_def take_Suc_conv_app_nth distinct_list_update)
qed

text \<open>
  The shape of one reference, for a frame array with its fill count: what \<open>demand_paging\<close> asks
  of a step, together with the invariant.
\<close>

definition demand_step ::
  "nat \<Rightarrow> RefSeq \<Rightarrow> nat \<Rightarrow> int list \<Rightarrow> nat \<Rightarrow> nat \<Rightarrow> int list \<Rightarrow> nat \<Rightarrow> nat \<Rightarrow> bool" where
  "demand_step F sq k frames filled faults frames' filled' faults' \<longleftrightarrow>
     (if refs sq ! k \<in> held frames filled
      then frames' = frames \<and> filled' = filled \<and> faults' = faults
      else faults' = Suc faults \<and>
        (if filled < F then frames' = frames[filled := refs sq ! k] \<and> filled' = filled + 1
         else filled' = filled \<and> (\<exists>v < F. frames' = frames[v := refs sq ! k])))"

lemma demand_step_ok:
  assumes "frames_ok F sq k frames filled" and "k < seq_n sq"
    and "demand_step F sq k frames filled faults frames' filled' faults'"
  shows "frames_ok F sq (Suc k) frames' filled'"
proof (cases "refs sq ! k \<in> held frames filled")
  case True
  then show ?thesis using assms frames_ok_later by (simp add: demand_step_def)
next
  case new: False
  show ?thesis
  proof (cases "filled < F")
    case True
    then show ?thesis using assms new frames_fill(1) by (simp add: demand_step_def)
  next
    case False
    then have "filled = F" using assms(1) by (simp add: frames_ok_def)
    then show ?thesis using assms new frames_replace(1) [of F sq k frames]
      by (auto simp: demand_step_def)
  qed
qed

lemma demand_step_laws:
  assumes "frames_ok F sq k frames filled" and "k < seq_n sq"
    and "demand_step F sq k frames filled faults frames' filled' faults'"
  shows "refs sq ! k \<in> held frames filled \<Longrightarrow>
      held frames' filled' = held frames filled \<and> faults' = faults"
    and "refs sq ! k \<notin> held frames filled \<Longrightarrow> faults' = Suc faults \<and>
      (card (held frames filled) < F \<and>
         held frames' filled' = insert (refs sq ! k) (held frames filled) \<or>
       card (held frames filled) = F \<and>
         (\<exists>v \<in> held frames filled. held frames' filled' =
            insert (refs sq ! k) (held frames filled - {v})))"
proof -
  show "held frames' filled' = held frames filled \<and> faults' = faults"
    if "refs sq ! k \<in> held frames filled"
    using that assms(3) by (simp add: demand_step_def)
  assume new: "refs sq ! k \<notin> held frames filled"
  have card: "card (held frames filled) = filled" using assms(1) by (rule frames_ok_card)
  show "faults' = Suc faults \<and>
      (card (held frames filled) < F \<and>
         held frames' filled' = insert (refs sq ! k) (held frames filled) \<or>
       card (held frames filled) = F \<and>
         (\<exists>v \<in> held frames filled. held frames' filled' =
            insert (refs sq ! k) (held frames filled - {v})))"
  proof (cases "filled < F")
    case True
    then show ?thesis
      using assms(3) new card frames_fill(2) [OF assms(1,2) new] by (simp add: demand_step_def)
  next
    case False
    then have full: "filled = F" using assms(1) by (simp add: frames_ok_def)
    with assms(3) new obtain v where "v < F" "frames' = frames[v := refs sq ! k]"
      "filled' = F" "faults' = Suc faults" by (auto simp: demand_step_def)
    then show ?thesis using full card frames_replace [of F sq k frames v] assms(1,2) new by auto
  qed
qed


subsection \<open>The four simulators as demand paging algorithms\<close>

text \<open>The state of each simulator before reference \<open>k\<close>.\<close>

definition opt_at :: "nat \<Rightarrow> RefSeq \<Rightarrow> nat \<Rightarrow> opt_state" where
  "opt_at F sq k = for_loop 0 k (opt_step F sq) (opt_init F)"

definition fifo_at :: "nat \<Rightarrow> RefSeq \<Rightarrow> nat \<Rightarrow> fifo_state" where
  "fifo_at F sq k = for_loop 0 k (fifo_step F sq) (fifo_init F)"

definition lru_at :: "nat \<Rightarrow> RefSeq \<Rightarrow> nat \<Rightarrow> lru_state" where
  "lru_at F sq k = for_loop 0 k (lru_step F sq) (lru_init F)"

definition clock_run :: "nat \<Rightarrow> RefSeq \<Rightarrow> nat \<Rightarrow> clock_state option" where
  "clock_run F sq k =
     for_loop 0 k (\<lambda>t so. Option.bind so (clock_step F sq t)) (Some (clock_init F))"

abbreviation clock_at :: "nat \<Rightarrow> RefSeq \<Rightarrow> nat \<Rightarrow> clock_state" where
  "clock_at F sq k \<equiv> the (clock_run F sq k)"

lemma opt_at_simps: "opt_at F sq 0 = opt_init F" "opt_at F sq (Suc k) = opt_step F sq k (opt_at F sq k)"
  by (simp_all add: opt_at_def for_loop_last)

lemma fifo_at_simps:
  "fifo_at F sq 0 = fifo_init F" "fifo_at F sq (Suc k) = fifo_step F sq k (fifo_at F sq k)"
  by (simp_all add: fifo_at_def for_loop_last)

lemma lru_at_simps: "lru_at F sq 0 = lru_init F" "lru_at F sq (Suc k) = lru_step F sq k (lru_at F sq k)"
  by (simp_all add: lru_at_def for_loop_last)

lemma clock_run_simps:
  "clock_run F sq 0 = Some (clock_init F)"
  "clock_run F sq (Suc k) = Option.bind (clock_run F sq k) (clock_step F sq k)"
  by (simp_all add: clock_run_def for_loop_last)

lemma paging_input_ref: "paging_input F sq \<Longrightarrow> k < seq_n sq \<Longrightarrow> refs sq ! k \<noteq> - 1"
  by (metis nth_mem paging_input_def)

subsubsection \<open>OPT\<close>

abbreviation opt_ok :: "nat \<Rightarrow> RefSeq \<Rightarrow> nat \<Rightarrow> bool" where
  "opt_ok F sq k \<equiv> frames_ok F sq k (opt_frames (opt_at F sq k)) (opt_filled (opt_at F sq k))"

lemma opt_victim_bound:
  "found < F \<Longrightarrow> opt_victim F sq k frames i found furthest < F"
  by (induction F sq k frames i found furthest rule: opt_victim.induct)
    (subst opt_victim.simps, auto simp: Let_def)

lemma opt_demand:
  assumes "paging_input F sq" and "k < seq_n sq" and "opt_ok F sq k"
  shows "demand_step F sq k (opt_frames (opt_at F sq k)) (opt_filled (opt_at F sq k))
    (opt_faults (opt_at F sq k)) (opt_frames (opt_at F sq (Suc k)))
    (opt_filled (opt_at F sq (Suc k))) (opt_faults (opt_at F sq (Suc k)))"
  using opt_victim_bound [of 0 F sq k "opt_frames (opt_at F sq k)" 0 "- 1"] assms(1)
  by (auto simp: demand_step_def opt_at_simps opt_step_def Let_def paging_input_def
      find_in_frames_miss [OF assms(3) paging_input_ref [OF assms(1,2)]])

lemma opt_ok_run: "paging_input F sq \<Longrightarrow> k \<le> seq_n sq \<Longrightarrow> opt_ok F sq k"
proof (induction k)
  case 0
  show ?case by (simp add: opt_at_simps opt_init_def frames_ok_init)
next
  case (Suc k)
  then show ?case using demand_step_ok [OF _ _ opt_demand] by simp
qed

subsubsection \<open>FIFO\<close>

definition fifo_ok :: "nat \<Rightarrow> RefSeq \<Rightarrow> nat \<Rightarrow> fifo_state \<Rightarrow> bool" where
  "fifo_ok F sq k s \<longleftrightarrow> frames_ok F sq k (fifo_frames s) (fifo_filled s) \<and> fifo_idx s < F"

lemma fifo_demand:
  assumes "paging_input F sq" and "k < seq_n sq" and "fifo_ok F sq k s"
  shows "demand_step F sq k (fifo_frames s) (fifo_filled s) (fifo_faults s)
    (fifo_frames (fifo_step F sq k s)) (fifo_filled (fifo_step F sq k s))
    (fifo_faults (fifo_step F sq k s))"
  using assms(3) unfolding fifo_ok_def
  by (auto simp: demand_step_def fifo_step_def Let_def
      find_in_frames_miss [OF _ paging_input_ref [OF assms(1,2)]])

lemma fifo_ok_run: "paging_input F sq \<Longrightarrow> k \<le> seq_n sq \<Longrightarrow> fifo_ok F sq k (fifo_at F sq k)"
proof (induction k)
  case 0
  then show ?case
    by (simp add: fifo_ok_def fifo_at_simps fifo_init_def frames_ok_init paging_input_def)
next
  case (Suc k)
  then have "fifo_idx (fifo_step F sq k (fifo_at F sq k)) < F"
    by (auto simp: fifo_step_def Let_def fifo_ok_def paging_input_def)
  then show ?case using Suc demand_step_ok [OF _ _ fifo_demand]
    by (simp add: fifo_ok_def fifo_at_simps)
qed

subsubsection \<open>LRU\<close>

definition lru_ok :: "nat \<Rightarrow> RefSeq \<Rightarrow> nat \<Rightarrow> lru_state \<Rightarrow> bool" where
  "lru_ok F sq k s \<longleftrightarrow> frames_ok F sq k (lru_frames s) (lru_filled s) \<and> length (lru_last s) = F"

lemma lru_victim_bound: "0 < F \<Longrightarrow> lru_victim F last' < F"
  unfolding lru_victim_def by (rule for_loop_invariant) auto

lemma lru_demand:
  assumes "paging_input F sq" and "k < seq_n sq" and "lru_ok F sq k s"
  shows "demand_step F sq k (lru_frames s) (lru_filled s) (lru_faults s)
    (lru_frames (lru_step F sq k s)) (lru_filled (lru_step F sq k s))
    (lru_faults (lru_step F sq k s))"
  using assms(1,3) lru_victim_bound [of F "lru_last s"] unfolding lru_ok_def
  by (auto simp: demand_step_def lru_step_def Let_def paging_input_def
      find_in_frames_miss [OF _ paging_input_ref [OF assms(1,2)]])

lemma lru_ok_run: "paging_input F sq \<Longrightarrow> k \<le> seq_n sq \<Longrightarrow> lru_ok F sq k (lru_at F sq k)"
proof (induction k)
  case 0
  then show ?case by (simp add: lru_ok_def lru_at_simps lru_init_def frames_ok_init)
next
  case (Suc k)
  then have "length (lru_last (lru_step F sq k (lru_at F sq k))) = F"
    by (auto simp: lru_step_def Let_def lru_ok_def)
  then show ?case using Suc demand_step_ok [OF _ _ lru_demand]
    by (simp add: lru_ok_def lru_at_simps)
qed

subsubsection \<open>Clock\<close>

text \<open>
  The bits the hand clears on its way, starting at \<open>h\<close>, when it passes over \<open>m\<close> frames.
\<close>

definition clear_bits :: "nat \<Rightarrow> nat \<Rightarrow> nat \<Rightarrow> nat list \<Rightarrow> nat list" where
  "clear_bits F h m refb = for_loop 0 m (\<lambda>j b. b[(h + j) mod F := 0]) refb"

definition set_bits :: "nat list \<Rightarrow> nat set" where
  "set_bits refb = {i. i < length refb \<and> refb ! i \<noteq> 0}"

lemma finite_set_bits [simp]: "finite (set_bits refb)"
  by (simp add: set_bits_def)

lemma set_bits_clear: "set_bits (refb[i := 0]) = set_bits refb - {i}"
  by (cases "i < length refb")
    (auto simp: set_bits_def nth_list_update list_update_beyond split: if_splits)

lemma length_clear_bits [simp]: "length (clear_bits F h m refb) = length refb"
  unfolding clear_bits_def by (rule for_loop_invariant) auto

lemma clear_bits_Suc:
  "h < F \<Longrightarrow> clear_bits F h (Suc m) refb = clear_bits F ((h + 1) mod F) m (refb[h := 0])"
proof (induction m)
  case 0
  then show ?case by (simp add: clear_bits_def for_loop_step)
next
  case (Suc m)
  then show ?case by (simp add: clear_bits_def for_loop_last mod_add_left_eq)
qed

lemma clock_replace_result:
  assumes "0 < F" and "length (clock_refb s) = F" and "clock_hand s < F"
  shows "\<exists>m \<le> card (set_bits (clock_refb s)).
    (\<forall>j < m. clock_refb s ! ((clock_hand s + j) mod F) \<noteq> 0) \<and>
    (m < F \<longrightarrow> clock_refb s ! ((clock_hand s + m) mod F) = 0) \<and>
    clock_replace F p s =
      Some (s\<lparr>clock_frames := (clock_frames s)[(clock_hand s + m) mod F := p],
              clock_refb := (clear_bits F (clock_hand s) m (clock_refb s))
                              [(clock_hand s + m) mod F := 1],
              clock_hand := (clock_hand s + m + 1) mod F\<rparr>)"
  using assms(2,3)
proof (induction "card (set_bits (clock_refb s))" arbitrary: s rule: less_induct)
  case less
  let ?h = "clock_hand s"
  show ?case
  proof (cases "clock_refb s ! ?h = 0")
    case True
    then show ?thesis using less.prems assms(1)
      by (intro exI [of _ 0]) (simp add: clock_replace.simps [of F p s] clear_bits_def)
  next
    case False
    let ?s = "s\<lparr>clock_refb := (clock_refb s)[?h := 0], clock_hand := (?h + 1) mod F\<rparr>"
    have in_bits: "?h \<in> set_bits (clock_refb s)" using False less.prems by (simp add: set_bits_def)
    have less_bits: "card (set_bits (clock_refb ?s)) = card (set_bits (clock_refb s)) - 1"
      "0 < card (set_bits (clock_refb s))"
      using in_bits by (auto simp: set_bits_clear card_gt_0_iff)
    then obtain m where m: "m \<le> card (set_bits (clock_refb ?s))"
      and passed: "\<forall>j < m. clock_refb ?s ! ((clock_hand ?s + j) mod F) \<noteq> 0"
      and stop: "m < F \<longrightarrow> clock_refb ?s ! ((clock_hand ?s + m) mod F) = 0"
      and res: "clock_replace F p ?s =
        Some (?s\<lparr>clock_frames := (clock_frames ?s)[(clock_hand ?s + m) mod F := p],
                clock_refb := (clear_bits F (clock_hand ?s) m (clock_refb ?s))
                                [(clock_hand ?s + m) mod F := 1],
                clock_hand := (clock_hand ?s + m + 1) mod F\<rparr>)"
      using less.hyps [of ?s] less.prems assms(1) by auto
    have shift: "(clock_hand ?s + j) mod F = (?h + Suc j) mod F" for j
      by (simp add: mod_add_left_eq)
    have passed': "clock_refb s ! ((?h + j) mod F) \<noteq> 0" if "j < Suc m" for j
    proof (cases j)
      case 0
      then show ?thesis using False less.prems by simp
    next
      case (Suc i)
      then have "clock_refb ?s ! ((?h + j) mod F) \<noteq> 0" using that passed shift by simp
      then show ?thesis using less.prems assms(1)
        by (cases "(?h + j) mod F = ?h") (simp_all add: nth_list_update)
    qed
    have stop': "clock_refb s ! ((?h + Suc m) mod F) = 0" if "Suc m < F"
    proof -
      have "(?h + Suc m) mod F \<noteq> ?h"
        using that less.prems by (intro mod_cycle_neq) auto
      then show ?thesis using stop that shift less.prems by (simp add: nth_list_update)
    qed
    have hand: "(clock_hand ?s + m + 1) mod F = (?h + Suc m + 1) mod F"
      using mod_add_left_eq [of "?h + 1" F "m + 1"] by simp
    have "clock_replace F p s =
      Some (s\<lparr>clock_frames := (clock_frames s)[(?h + Suc m) mod F := p],
              clock_refb := (clear_bits F ?h (Suc m) (clock_refb s))[(?h + Suc m) mod F := 1],
              clock_hand := (?h + Suc m + 1) mod F\<rparr>)"
      using False res less.prems unfolding shift hand
      by (simp add: clock_replace.simps [of F p s] clear_bits_Suc)
    then show ?thesis
      using passed' stop' m less_bits by (intro exI [of _ "Suc m"]) simp
  qed
qed

definition clock_ok :: "nat \<Rightarrow> RefSeq \<Rightarrow> nat \<Rightarrow> clock_state \<Rightarrow> bool" where
  "clock_ok F sq k s \<longleftrightarrow> frames_ok F sq k (clock_frames s) (clock_filled s) \<and>
     length (clock_refb s) = F \<and> clock_hand s < F"

lemma clock_demand:
  assumes "paging_input F sq" and "k < seq_n sq" and "clock_ok F sq k s"
  shows "\<exists>s'. clock_step F sq k s = Some s' \<and> length (clock_refb s') = F \<and> clock_hand s' < F \<and>
    demand_step F sq k (clock_frames s) (clock_filled s) (clock_faults s)
      (clock_frames s') (clock_filled s') (clock_faults s')"
proof -
  have F: "0 < F" using assms(1) by (simp add: paging_input_def)
  have ok: "frames_ok F sq k (clock_frames s) (clock_filled s)" "length (clock_refb s) = F"
    "clock_hand s < F" using assms(3) by (auto simp: clock_ok_def)
  note miss = find_in_frames_miss [OF ok(1) paging_input_ref [OF assms(1,2)]]
  show ?thesis
  proof (cases "find_in_frames (clock_frames s) F (refs sq ! k) = - 1 \<and> \<not> clock_filled s < F")
    case True
    let ?s = "s\<lparr>clock_faults := clock_faults s + 1\<rparr>"
    obtain m where "clock_replace F (refs sq ! k) ?s =
      Some (?s\<lparr>clock_frames := (clock_frames ?s)[(clock_hand ?s + m) mod F := refs sq ! k],
              clock_refb := (clear_bits F (clock_hand ?s) m (clock_refb ?s))
                              [(clock_hand ?s + m) mod F := 1],
              clock_hand := (clock_hand ?s + m + 1) mod F\<rparr>)"
      using clock_replace_result [OF F, of ?s "refs sq ! k"] ok by auto
    then show ?thesis using True ok miss F
      by (auto simp: clock_step_def Let_def demand_step_def
          intro!: exI [of _ "(clock_hand s + m) mod F"] mod_less_divisor)
  next
    case False
    then show ?thesis using F ok miss by (auto simp: clock_step_def Let_def demand_step_def)
  qed
qed

lemma clock_ok_run:
  "paging_input F sq \<Longrightarrow> k \<le> seq_n sq \<Longrightarrow>
   \<exists>s. clock_run F sq k = Some s \<and> clock_ok F sq k s"
proof (induction k)
  case 0
  then show ?case
    by (simp add: clock_ok_def clock_run_simps clock_init_def frames_ok_init paging_input_def)
next
  case (Suc k)
  then obtain s where s: "clock_run F sq k = Some s" "clock_ok F sq k s" by auto
  obtain s' where "clock_step F sq k s = Some s'" "length (clock_refb s') = F" "clock_hand s' < F"
    "demand_step F sq k (clock_frames s) (clock_filled s) (clock_faults s)
      (clock_frames s') (clock_filled s') (clock_faults s')"
    using clock_demand [of F sq k s] Suc.prems s by auto
  then show ?case using s Suc.prems demand_step_ok [of F sq k "clock_frames s" "clock_filled s"]
    by (auto simp: clock_ok_def clock_run_simps)
qed

end
