(* ===== verification/Paging_Interp.thy ===== *)
theory Paging_Interp
  imports Paging_Frames
begin

section \<open>The simulators as interpretations of the paging locales\<close>

text \<open>
  The victim search of OPT picks a page whose next use is furthest away, and the four simulators
  are interpretations of the locales of \<open>Paging_Policies\<close>; the properties of the simulators'
  fault counts follow from the interpretations.
\<close>

lemma in_window_iff:
  "page \<in> window sq (Suc k) t \<longleftrightarrow> opt_next sq k page \<noteq> - 1 \<and> opt_next sq k page < int (Suc k + t)"
proof
  assume "page \<in> window sq (Suc k) t"
  then obtain i where i: "i < t" "Suc k + i < seq_n sq" "refs sq ! (Suc k + i) = page"
    by (auto simp: window_def in_set_conv_nth)
  then obtain j where j: "for_first (Suc k) (seq_n sq) (\<lambda>j. refs sq ! j = page) = Some j"
    by (cases "for_first (Suc k) (seq_n sq) (\<lambda>j. refs sq ! j = page)")
      (auto simp: for_first_None)
  have "\<not> Suc k + i < j"
  proof
    assume "Suc k + i < j"
    with j have "refs sq ! (Suc k + i) \<noteq> page" unfolding for_first_Some by auto
    with i show False by simp
  qed
  with i j show "opt_next sq k page \<noteq> - 1 \<and> opt_next sq k page < int (Suc k + t)"
    by (simp add: opt_next_def)
next
  assume next': "opt_next sq k page \<noteq> - 1 \<and> opt_next sq k page < int (Suc k + t)"
  then obtain j where "for_first (Suc k) (seq_n sq) (\<lambda>j. refs sq ! j = page) = Some j"
    and "j < Suc k + t" by (auto simp: opt_next_def)
  then show "page \<in> window sq (Suc k) t"
    by (auto simp: window_def in_set_conv_nth for_first_Some intro!: exI [of _ "j - Suc k"])
qed

lemma opt_victim_furthest:
  assumes "\<forall>j < i. opt_next sq k (frames ! j) \<noteq> - 1 \<and> opt_next sq k (frames ! j) \<le> furthest"
    and "i = 0 \<and> furthest = - 1 \<or> furthest = opt_next sq k (frames ! found)"
    and "0 < F" and "i \<le> F"
  defines "v \<equiv> opt_victim F sq k frames i found furthest"
  shows "opt_next sq k (frames ! v) = - 1 \<or>
    (\<forall>j < F. opt_next sq k (frames ! j) \<noteq> - 1 \<and>
             opt_next sq k (frames ! j) \<le> opt_next sq k (frames ! v))"
  using assms(1-4) unfolding v_def
proof (induction F sq k frames i found furthest rule: opt_victim.induct)
  case (1 F sq k frames i found furthest)
  let ?next = "opt_next sq k (frames ! i)"
  have next_nonneg: "?next = - 1 \<or> 0 \<le> ?next"
    by (auto simp: opt_next_def index_or_minus1_def split: option.splits)
  consider "\<not> i < F" | "i < F" "?next = - 1" | "i < F" "?next \<noteq> - 1" "?next > furthest"
    | "i < F" "?next \<noteq> - 1" "\<not> ?next > furthest" by blast
  then show ?case
  proof cases
    case 1
    then have "opt_victim F sq k frames i found furthest = found"
      by (simp add: opt_victim.simps [of F sq k frames i])
    moreover have "i = F" using 1 "1.prems" by simp
    ultimately show ?thesis using "1.prems" by auto
  next
    case 2
    then show ?thesis by (simp add: opt_victim.simps [of F sq k frames i])
  next
    case 3
    then have "\<forall>j < i + 1. opt_next sq k (frames ! j) \<noteq> - 1 \<and> opt_next sq k (frames ! j) \<le> ?next"
      using "1.prems"(1) by (force simp: less_Suc_eq)
    then show ?thesis using 3 "1.IH"(1) [OF 3(1) refl 3(2,3)] "1.prems"(3)
      by (simp add: opt_victim.simps [of F sq k frames i])
  next
    case 4
    then have "furthest \<noteq> - 1" using next_nonneg by auto
    moreover have "\<forall>j < i + 1. opt_next sq k (frames ! j) \<noteq> - 1 \<and>
        opt_next sq k (frames ! j) \<le> furthest"
      using 4 "1.prems"(1) by (force simp: less_Suc_eq)
    ultimately show ?thesis using 4 "1.IH"(2) [OF 4(1) refl 4(2,3)] "1.prems"(2,3)
      by (simp add: opt_victim.simps [of F sq k frames i])
  qed
qed

subsection \<open>Resident sets and fault counts along a run\<close>

definition opt_resident :: "nat \<Rightarrow> RefSeq \<Rightarrow> nat \<Rightarrow> int set" where
  "opt_resident F sq k = held (opt_frames (opt_at F sq k)) (opt_filled (opt_at F sq k))"

definition fifo_resident :: "nat \<Rightarrow> RefSeq \<Rightarrow> nat \<Rightarrow> int set" where
  "fifo_resident F sq k = held (fifo_frames (fifo_at F sq k)) (fifo_filled (fifo_at F sq k))"

definition lru_resident :: "nat \<Rightarrow> RefSeq \<Rightarrow> nat \<Rightarrow> int set" where
  "lru_resident F sq k = held (lru_frames (lru_at F sq k)) (lru_filled (lru_at F sq k))"

definition clock_resident :: "nat \<Rightarrow> RefSeq \<Rightarrow> nat \<Rightarrow> int set" where
  "clock_resident F sq k = held (clock_frames (clock_at F sq k)) (clock_filled (clock_at F sq k))"

lemma opt_furthest:
  assumes inp: "paging_input F sq" and k: "k < seq_n sq"
    and new: "refs sq ! k \<notin> opt_resident F sq k" and full: "card (opt_resident F sq k) = F"
  shows "\<exists>v \<in> opt_resident F sq k.
    opt_resident F sq (Suc k) = insert (refs sq ! k) (opt_resident F sq k - {v}) \<and>
    (\<forall>t. v \<in> window sq (Suc k) t \<longrightarrow> opt_resident F sq k \<subseteq> window sq (Suc k) t)"
proof -
  let ?fr = "opt_frames (opt_at F sq k)"
  have F: "0 < F" using inp by (simp add: paging_input_def)
  have ok: "opt_ok F sq k" using opt_ok_run [OF inp] k by simp
  have filled: "opt_filled (opt_at F sq k) = F"
    using frames_ok_card [OF ok] full by (simp add: opt_resident_def)
  have ok': "frames_ok F sq k ?fr F" and new': "refs sq ! k \<notin> held ?fr F"
    using ok new filled by (simp_all add: opt_resident_def)
  define v where "v = opt_victim F sq k ?fr 0 0 (- 1)"
  have v: "v < F" using opt_victim_bound [OF F] by (simp add: v_def)
  have "find_in_frames ?fr F (refs sq ! k) = - 1"
    using find_in_frames_miss [OF ok' paging_input_ref [OF inp k]] new' by simp
  then have step: "opt_frames (opt_at F sq (Suc k)) = ?fr[v := refs sq ! k]"
    "opt_filled (opt_at F sq (Suc k)) = F"
    using filled by (auto simp: opt_at_simps opt_step_def Let_def v_def)
  have "held ?fr F \<subseteq> window sq (Suc k) t" if "?fr ! v \<in> window sq (Suc k) t" for t
  proof
    fix q assume "q \<in> held ?fr F"
    then obtain j where "j < F" "q = ?fr ! j"
      using ok' by (auto simp: held_def frames_ok_def in_set_conv_nth)
    moreover have "opt_next sq k (?fr ! v) \<noteq> - 1" "opt_next sq k (?fr ! v) < int (Suc k + t)"
      using that by (simp_all add: in_window_iff)
    moreover have "opt_next sq k (?fr ! v) = - 1 \<or> (\<forall>j < F. opt_next sq k (?fr ! j) \<noteq> - 1 \<and>
        opt_next sq k (?fr ! j) \<le> opt_next sq k (?fr ! v))"
      using opt_victim_furthest [of 0 sq k ?fr "- 1" 0 F] F by (simp add: v_def)
    ultimately show "q \<in> window sq (Suc k) t" by (force simp: in_window_iff)
  qed
  then show ?thesis using frames_replace [OF ok' k new' v] step filled
    by (auto simp: opt_resident_def)
qed

lemma resident_start:
  "opt_resident F sq 0 = {}" "opt_faults (opt_at F sq 0) = 0"
  "fifo_resident F sq 0 = {}" "fifo_faults (fifo_at F sq 0) = 0"
  "lru_resident F sq 0 = {}" "lru_faults (lru_at F sq 0) = 0"
  "clock_resident F sq 0 = {}" "clock_faults (clock_at F sq 0) = 0"
  by (simp_all add: opt_at_simps opt_init_def held_def opt_resident_def
      fifo_at_simps fifo_init_def fifo_resident_def lru_at_simps lru_init_def lru_resident_def
      clock_run_simps clock_init_def clock_resident_def)

lemma opt_laws:
  assumes "paging_input F sq" and "k < seq_n sq"
  shows "demand_step F sq k (opt_frames (opt_at F sq k)) (opt_filled (opt_at F sq k))
    (opt_faults (opt_at F sq k)) (opt_frames (opt_at F sq (Suc k)))
    (opt_filled (opt_at F sq (Suc k))) (opt_faults (opt_at F sq (Suc k)))" "opt_ok F sq k"
  using opt_ok_run [of F sq k] opt_demand assms by simp_all

lemma fifo_laws:
  assumes "paging_input F sq" and "k < seq_n sq"
  shows "demand_step F sq k (fifo_frames (fifo_at F sq k)) (fifo_filled (fifo_at F sq k))
    (fifo_faults (fifo_at F sq k)) (fifo_frames (fifo_at F sq (Suc k)))
    (fifo_filled (fifo_at F sq (Suc k))) (fifo_faults (fifo_at F sq (Suc k)))"
    "frames_ok F sq k (fifo_frames (fifo_at F sq k)) (fifo_filled (fifo_at F sq k))"
  using fifo_ok_run [of F sq k] fifo_demand [OF assms, of "fifo_at F sq k"] assms by (simp_all add: fifo_at_simps fifo_ok_def)

lemma lru_laws:
  assumes "paging_input F sq" and "k < seq_n sq"
  shows "demand_step F sq k (lru_frames (lru_at F sq k)) (lru_filled (lru_at F sq k))
    (lru_faults (lru_at F sq k)) (lru_frames (lru_at F sq (Suc k)))
    (lru_filled (lru_at F sq (Suc k))) (lru_faults (lru_at F sq (Suc k)))"
    "frames_ok F sq k (lru_frames (lru_at F sq k)) (lru_filled (lru_at F sq k))"
  using lru_ok_run [of F sq k] lru_demand [OF assms, of "lru_at F sq k"] assms by (simp_all add: lru_at_simps lru_ok_def)

lemma clock_laws:
  assumes "paging_input F sq" and "k < seq_n sq"
  shows "demand_step F sq k (clock_frames (clock_at F sq k)) (clock_filled (clock_at F sq k))
    (clock_faults (clock_at F sq k)) (clock_frames (clock_at F sq (Suc k)))
    (clock_filled (clock_at F sq (Suc k))) (clock_faults (clock_at F sq (Suc k)))"
    "frames_ok F sq k (clock_frames (clock_at F sq k)) (clock_filled (clock_at F sq k))"
proof -
  obtain s where s: "clock_run F sq k = Some s" "clock_ok F sq k s"
    using clock_ok_run [of F sq k] assms by auto
  then show "demand_step F sq k (clock_frames (clock_at F sq k)) (clock_filled (clock_at F sq k))
    (clock_faults (clock_at F sq k)) (clock_frames (clock_at F sq (Suc k)))
    (clock_filled (clock_at F sq (Suc k))) (clock_faults (clock_at F sq (Suc k)))"
    "frames_ok F sq k (clock_frames (clock_at F sq k)) (clock_filled (clock_at F sq k))"
    using clock_demand [OF assms s(2)] by (auto simp: clock_run_simps clock_ok_def)
qed

lemma opt_hit:
  assumes "paging_input F sq" "k < seq_n sq" "refs sq ! k \<in> opt_resident F sq k"
  shows "opt_resident F sq (Suc k) = opt_resident F sq k \<and>
    opt_faults (opt_at F sq (Suc k)) = opt_faults (opt_at F sq k)"
  using demand_step_laws(1) [OF opt_laws(2) [OF assms(1,2)] assms(2) opt_laws(1) [OF assms(1,2)]]
    assms(3) unfolding opt_resident_def .

lemma opt_miss:
  assumes "paging_input F sq" "k < seq_n sq" "refs sq ! k \<notin> opt_resident F sq k"
  shows "opt_faults (opt_at F sq (Suc k)) = Suc (opt_faults (opt_at F sq k)) \<and>
    (card (opt_resident F sq k) < F \<and>
       opt_resident F sq (Suc k) = insert (refs sq ! k) (opt_resident F sq k) \<or>
     card (opt_resident F sq k) = F \<and>
       (\<exists>v \<in> opt_resident F sq k.
          opt_resident F sq (Suc k) = insert (refs sq ! k) (opt_resident F sq k - {v})))"
  using demand_step_laws(2) [OF opt_laws(2) [OF assms(1,2)] assms(2) opt_laws(1) [OF assms(1,2)]]
    assms(3) unfolding opt_resident_def .

lemma fifo_hit:
  assumes "paging_input F sq" "k < seq_n sq" "refs sq ! k \<in> fifo_resident F sq k"
  shows "fifo_resident F sq (Suc k) = fifo_resident F sq k \<and>
    fifo_faults (fifo_at F sq (Suc k)) = fifo_faults (fifo_at F sq k)"
  using demand_step_laws(1) [OF fifo_laws(2) [OF assms(1,2)] assms(2) fifo_laws(1) [OF assms(1,2)]]
    assms(3) unfolding fifo_resident_def .

lemma fifo_miss:
  assumes "paging_input F sq" "k < seq_n sq" "refs sq ! k \<notin> fifo_resident F sq k"
  shows "fifo_faults (fifo_at F sq (Suc k)) = Suc (fifo_faults (fifo_at F sq k)) \<and>
    (card (fifo_resident F sq k) < F \<and>
       fifo_resident F sq (Suc k) = insert (refs sq ! k) (fifo_resident F sq k) \<or>
     card (fifo_resident F sq k) = F \<and>
       (\<exists>v \<in> fifo_resident F sq k.
          fifo_resident F sq (Suc k) = insert (refs sq ! k) (fifo_resident F sq k - {v})))"
  using demand_step_laws(2) [OF fifo_laws(2) [OF assms(1,2)] assms(2) fifo_laws(1) [OF assms(1,2)]]
    assms(3) unfolding fifo_resident_def .

lemma lru_hit:
  assumes "paging_input F sq" "k < seq_n sq" "refs sq ! k \<in> lru_resident F sq k"
  shows "lru_resident F sq (Suc k) = lru_resident F sq k \<and>
    lru_faults (lru_at F sq (Suc k)) = lru_faults (lru_at F sq k)"
  using demand_step_laws(1) [OF lru_laws(2) [OF assms(1,2)] assms(2) lru_laws(1) [OF assms(1,2)]]
    assms(3) unfolding lru_resident_def .

lemma lru_miss:
  assumes "paging_input F sq" "k < seq_n sq" "refs sq ! k \<notin> lru_resident F sq k"
  shows "lru_faults (lru_at F sq (Suc k)) = Suc (lru_faults (lru_at F sq k)) \<and>
    (card (lru_resident F sq k) < F \<and>
       lru_resident F sq (Suc k) = insert (refs sq ! k) (lru_resident F sq k) \<or>
     card (lru_resident F sq k) = F \<and>
       (\<exists>v \<in> lru_resident F sq k.
          lru_resident F sq (Suc k) = insert (refs sq ! k) (lru_resident F sq k - {v})))"
  using demand_step_laws(2) [OF lru_laws(2) [OF assms(1,2)] assms(2) lru_laws(1) [OF assms(1,2)]]
    assms(3) unfolding lru_resident_def .

lemma clock_hit:
  assumes "paging_input F sq" "k < seq_n sq" "refs sq ! k \<in> clock_resident F sq k"
  shows "clock_resident F sq (Suc k) = clock_resident F sq k \<and>
    clock_faults (clock_at F sq (Suc k)) = clock_faults (clock_at F sq k)"
  using demand_step_laws(1) [OF clock_laws(2) [OF assms(1,2)] assms(2) clock_laws(1) [OF assms(1,2)]]
    assms(3) unfolding clock_resident_def .

lemma clock_miss:
  assumes "paging_input F sq" "k < seq_n sq" "refs sq ! k \<notin> clock_resident F sq k"
  shows "clock_faults (clock_at F sq (Suc k)) = Suc (clock_faults (clock_at F sq k)) \<and>
    (card (clock_resident F sq k) < F \<and>
       clock_resident F sq (Suc k) = insert (refs sq ! k) (clock_resident F sq k) \<or>
     card (clock_resident F sq k) = F \<and>
       (\<exists>v \<in> clock_resident F sq k.
          clock_resident F sq (Suc k) = insert (refs sq ! k) (clock_resident F sq k - {v})))"
  using demand_step_laws(2) [OF clock_laws(2) [OF assms(1,2)] assms(2) clock_laws(1) [OF assms(1,2)]]
    assms(3) unfolding clock_resident_def .

interpretation opt: furthest_paging opt_resident "\<lambda>F sq k. opt_faults (opt_at F sq k)"
  by unfold_locales
    (rule resident_start | erule (2) opt_hit | erule (2) opt_miss | erule (3) opt_furthest)+

interpretation fifo: demand_paging fifo_resident "\<lambda>F sq k. fifo_faults (fifo_at F sq k)"
  by unfold_locales (rule resident_start | erule (2) fifo_hit | erule (2) fifo_miss)+

interpretation lru: demand_paging lru_resident "\<lambda>F sq k. lru_faults (lru_at F sq k)"
  by unfold_locales (rule resident_start | erule (2) lru_hit | erule (2) lru_miss)+

interpretation clock: demand_paging clock_resident "\<lambda>F sq k. clock_faults (clock_at F sq k)"
  by unfold_locales (rule resident_start | erule (2) clock_hit | erule (2) clock_miss)+

interpretation fifo_vs: versus_opt opt_resident "\<lambda>F sq k. opt_faults (opt_at F sq k)"
  fifo_resident "\<lambda>F sq k. fifo_faults (fifo_at F sq k)" ..

interpretation lru_vs: versus_opt opt_resident "\<lambda>F sq k. opt_faults (opt_at F sq k)"
  lru_resident "\<lambda>F sq k. lru_faults (lru_at F sq k)" ..

interpretation clock_vs: versus_opt opt_resident "\<lambda>F sq k. opt_faults (opt_at F sq k)"
  clock_resident "\<lambda>F sq k. clock_faults (clock_at F sq k)" ..

end
