(* ===== verification/Paging_LRU.thy ===== *)
theory Paging_LRU
  imports Paging_Interp
begin

section \<open>LRU against the recency stack\<close>

text \<open>
  The timestamp array of \<open>simulate_lru\<close> implements the recency stack: the resident pages are
  the \<open>F\<close> most recently used ones.  From that follows the inclusion property, that a run with
  more frames holds at least the pages of a run with fewer, and so never faults more.
\<close>

text \<open>The recency stack: the page just used is moved to the front.\<close>

definition mru_step :: "int \<Rightarrow> int list \<Rightarrow> int list" where
  "mru_step p l = p # removeAll p l"

definition mru_at :: "RefSeq \<Rightarrow> nat \<Rightarrow> int list" where
  "mru_at sq k = for_loop 0 k (\<lambda>j l. mru_step (refs sq ! j) l) []"

text \<open>The time of the last use of each page before reference \<open>k\<close>.\<close>

definition last_use :: "RefSeq \<Rightarrow> nat \<Rightarrow> int \<Rightarrow> int" where
  "last_use sq k = for_loop 0 k (\<lambda>j L. L(refs sq ! j := int j)) (\<lambda>_. - 1)"

lemma mru_at_simps: "mru_at sq 0 = []" "mru_at sq (Suc k) = mru_step (refs sq ! k) (mru_at sq k)"
  by (simp_all add: mru_at_def for_loop_last)

lemma last_use_simps:
  "last_use sq 0 = (\<lambda>_. - 1)" "last_use sq (Suc k) = (last_use sq k)(refs sq ! k := int k)"
  by (simp_all add: last_use_def for_loop_last)

lemma last_use_less: "last_use sq k p < int k"
  by (induction k) (auto simp: last_use_simps)

lemma mru_distinct: "distinct (mru_at sq k)"
  by (induction k) (auto simp: mru_at_simps mru_step_def distinct_removeAll)

lemma mru_sorted: "sorted_wrt (\<lambda>p q. last_use sq k q < last_use sq k p) (mru_at sq k)"
proof (induction k)
  case (Suc k)
  let ?p = "refs sq ! k"
  have "sorted_wrt (\<lambda>p q. last_use sq k q < last_use sq k p) (removeAll ?p (mru_at sq k))"
    using Suc by (simp add: removeAll_filter_not_eq sorted_wrt_filter)
  then have "sorted_wrt (\<lambda>p q. last_use sq (Suc k) q < last_use sq (Suc k) p)
               (removeAll ?p (mru_at sq k))"
    by (rule sorted_wrt_mono_rel [rotated]) (simp add: last_use_simps)
  then show ?case
    using last_use_less by (auto simp: mru_at_simps mru_step_def last_use_simps)
qed (simp add: mru_at_simps)

text \<open>Moving a page to the front of the stack, seen through its first \<open>F\<close> entries.\<close>

lemma take_removeAll: "p \<notin> set (take n l) \<Longrightarrow> take n (removeAll p l) = take n l"
proof (induction l arbitrary: n)
  case (Cons x l)
  then show ?case by (cases n) auto
qed simp

lemma take_mru_hit:
  assumes "distinct l" and "p \<in> set (take F l)"
  shows "set (take F (mru_step p l)) = set (take F l)"
proof -
  obtain xs zs where tk: "take F l = xs @ p # zs" using assms(2) by (meson split_list)
  then have xs: "length xs < F" using length_take [of F l] by (simp del: length_take)
  define ys where "ys = zs @ drop F l"
  have l: "l = xs @ p # ys" using tk append_take_drop_id [of F l] by (simp add: ys_def)
  have "removeAll p l = xs @ ys" using assms(1) l by simp
  then show ?thesis using l xs by (cases F) (auto simp: mru_step_def Suc_diff_le)
qed

lemma take_mru_miss:
  assumes "p \<notin> set (take F l)" and "0 < F"
  shows "set (take F (mru_step p l)) = insert p (set (take (F - 1) l))"
proof -
  have "p \<notin> set (take (F - 1) l)"
    using assms set_take_subset_set_take [of "F - 1" F l] by auto
  then have "take (F - 1) (removeAll p l) = take (F - 1) l" by (rule take_removeAll)
  then show ?thesis using assms(2) by (cases F) (simp_all add: mru_step_def)
qed

text \<open>The victim search returns a frame with the smallest timestamp.\<close>

lemma lru_victim_least:
  assumes "0 < F" and "j < F"
  shows "last' ! lru_victim F last' \<le> last' ! j"
proof -
  have "\<forall>j < F. last' ! lru_victim F last' \<le> last' ! j"
    unfolding lru_victim_def
    by (rule for_loop_invariant [where P = "\<lambda>i v. \<forall>j < i. last' ! v \<le> last' ! j"])
      (use assms(1) in \<open>auto simp: less_Suc_eq intro: order_trans less_imp_le\<close>)
  then show ?thesis using assms(2) by blast
qed

text \<open>The timestamps of the loaded frames are the times of the last uses of their pages.\<close>

definition lru_stamps :: "RefSeq \<Rightarrow> nat \<Rightarrow> lru_state \<Rightarrow> bool" where
  "lru_stamps sq k s \<longleftrightarrow> (\<forall>i < lru_filled s. lru_last s ! i = last_use sq k (lru_frames s ! i))"

lemma lru_stamps_run:
  "paging_input F sq \<Longrightarrow> k \<le> seq_n sq \<Longrightarrow> lru_stamps sq k (lru_at F sq k)"
proof (induction k)
  case 0
  show ?case by (simp add: lru_at_simps lru_stamps_def lru_init_def)
next
  case (Suc k)
  let ?s = "lru_at F sq k"
  have k: "k < seq_n sq" and IH: "lru_stamps sq k ?s" using Suc by auto
  have ok: "frames_ok F sq k (lru_frames ?s) (lru_filled ?s)" and len: "length (lru_last ?s) = F"
    using lru_ok_run [OF Suc.prems(1), of k] k by (auto simp: lru_ok_def)
  have p: "refs sq ! k \<noteq> - 1" using paging_input_ref [OF Suc.prems(1) k] .
  have dist: "lru_frames ?s ! i \<noteq> lru_frames ?s ! j"
    if "i < lru_filled ?s" "j < lru_filled ?s" "i \<noteq> j" for i j
    using ok that nth_eq_iff_index_eq [of "take (lru_filled ?s) (lru_frames ?s)" i j]
    by (auto simp: frames_ok_def)
  show ?case
  proof (cases "find_in_frames (lru_frames ?s) F (refs sq ! k) = - 1")
    case False
    let ?i = "nat (find_in_frames (lru_frames ?s) F (refs sq ! k))"
    have "\<forall>i < lru_filled ?s. i \<noteq> ?i \<longrightarrow> lru_frames ?s ! i \<noteq> refs sq ! k"
      using dist [of _ ?i] find_in_frames_hit [OF ok p False] by auto
    then show ?thesis
      using False find_in_frames_hit [OF ok p False] IH ok len
      by (auto simp: lru_at_simps lru_step_def Let_def lru_stamps_def last_use_simps
          frames_ok_def nth_list_update)
  next
    case True
    then have new: "\<forall>i < lru_filled ?s. lru_frames ?s ! i \<noteq> refs sq ! k"
      using find_in_frames_miss [OF ok p] held_nth ok by (metis frames_ok_def)
    show ?thesis
    proof (cases "lru_filled ?s < F")
      case True
      then show ?thesis using \<open>find_in_frames _ _ _ = _\<close> new IH ok len
        by (auto simp: lru_at_simps lru_step_def Let_def lru_stamps_def last_use_simps
            frames_ok_def nth_list_update less_Suc_eq)
    next
      case False
      moreover have "lru_victim F (lru_last ?s) < F"
        using lru_victim_bound Suc.prems(1) by (simp add: paging_input_def)
      ultimately show ?thesis using \<open>find_in_frames _ _ _ = _\<close> new IH ok len
        by (auto simp: lru_at_simps lru_step_def Let_def lru_stamps_def last_use_simps
            frames_ok_def nth_list_update)
    qed
  qed
qed

text \<open>The resident pages of LRU are the top \<open>F\<close> entries of the recency stack.\<close>

lemma lru_victim_is_oldest:
  assumes inp: "paging_input F sq" and k: "k < seq_n sq"
    and top: "lru_resident F sq k = set (take F (mru_at sq k))"
    and full: "card (lru_resident F sq k) = F"
  shows "lru_frames (lru_at F sq k) ! lru_victim F (lru_last (lru_at F sq k)) =
    mru_at sq k ! (F - 1)"
proof -
  let ?s = "lru_at F sq k" and ?l = "mru_at sq k"
  let ?v = "lru_victim F (lru_last ?s)"
  have F: "0 < F" using inp by (simp add: paging_input_def)
  have ok: "frames_ok F sq k (lru_frames ?s) (lru_filled ?s)"
    using lru_laws(2) [OF inp k] .
  have filled: "lru_filled ?s = F" using frames_ok_card [OF ok] full by (simp add: lru_resident_def)
  have frames: "set (lru_frames ?s) = set (take F ?l)" "length (lru_frames ?s) = F"
    using ok top filled by (auto simp: lru_resident_def held_def frames_ok_def)
  have len: "F \<le> length ?l"
    using full top distinct_card [OF distinct_take [OF mru_distinct, of F sq k]] F by simp
  have stamp: "lru_last ?s ! i = last_use sq k (lru_frames ?s ! i)" if "i < F" for i
    using lru_stamps_run [OF inp, of k] k filled that by (simp add: lru_stamps_def)
  have v: "?v < F" using lru_victim_bound [OF F] .
  have "lru_frames ?s ! ?v \<in> set (take F ?l)"
    unfolding frames(1) [symmetric] by (rule nth_mem) (simp add: v frames(2))
  then obtain m where m: "m < F" "lru_frames ?s ! ?v = ?l ! m"
    by (auto simp: in_set_take_iff)
  have "?l ! (F - 1) \<in> set (lru_frames ?s)"
    unfolding frames(1) using len F by (intro set_take_nth) auto
  then obtain j where j: "j < F" "lru_frames ?s ! j = ?l ! (F - 1)"
    using frames(2) by (auto simp: in_set_conv_nth)
  have "last_use sq k (?l ! m) \<le> last_use sq k (?l ! (F - 1))"
    using lru_victim_least [OF F j(1), of "lru_last ?s"] stamp v j m by simp
  moreover have "last_use sq k (?l ! (F - 1)) < last_use sq k (?l ! m)" if "m < F - 1"
    using sorted_wrt_nth_less [OF mru_sorted that, of sq k] len F by simp
  ultimately have "m = F - 1" using m(1) by fastforce
  then show ?thesis using m by simp
qed

lemma lru_resident_mru:
  "paging_input F sq \<Longrightarrow> k \<le> seq_n sq \<Longrightarrow> lru_resident F sq k = set (take F (mru_at sq k))"
proof (induction k)
  case 0
  show ?case by (simp add: resident_start mru_at_simps)
next
  case (Suc k)
  let ?l = "mru_at sq k" and ?p = "refs sq ! k"
  have inp: "paging_input F sq" and k: "k < seq_n sq"
    and IH: "lru_resident F sq k = set (take F ?l)" using Suc by auto
  have F: "0 < F" using inp by (simp add: paging_input_def)
  show ?case
  proof (cases "?p \<in> set (take F ?l)")
    case True
    then show ?thesis using lru_hit [OF inp k] IH take_mru_hit [OF mru_distinct]
      by (simp add: mru_at_simps)
  next
    case new: False
    then have after: "set (take F (mru_at sq (Suc k))) = insert ?p (set (take (F - 1) ?l))"
      using take_mru_miss [OF new F] by (simp add: mru_at_simps)
    show ?thesis
    proof (cases "card (lru_resident F sq k) = F")
      case False
      then have less: "card (lru_resident F sq k) < F"
        and add: "lru_resident F sq (Suc k) = insert ?p (lru_resident F sq k)"
        using lru_miss [OF inp k] new IH by auto
      have "length ?l \<le> F - 1"
        using less IH distinct_card [OF distinct_take [OF mru_distinct, of F sq k]] F by simp
      then show ?thesis using after add IH F by simp
    next
      case full: True
      let ?s = "lru_at F sq k" and ?v = "lru_victim F (lru_last (lru_at F sq k))"
      have ok: "frames_ok F sq k (lru_frames ?s) (lru_filled ?s)" using lru_laws(2) [OF inp k] .
      have filled: "lru_filled ?s = F"
        using frames_ok_card [OF ok] full by (simp add: lru_resident_def)
      have "find_in_frames (lru_frames ?s) F ?p = - 1"
        using find_in_frames_miss [OF ok paging_input_ref [OF inp k]] new IH
        by (simp add: lru_resident_def)
      then have "lru_resident F sq (Suc k) = held ((lru_frames ?s)[?v := ?p]) F"
        using filled by (simp add: lru_resident_def lru_at_simps lru_step_def Let_def)
      also have "\<dots> = insert ?p (lru_resident F sq k - {?l ! (F - 1)})"
        using frames_replace(2) [of F sq k "lru_frames ?s" ?v] ok filled k new IH
          lru_victim_bound [OF F] lru_victim_is_oldest [OF inp k IH full]
        by (simp add: lru_resident_def)
      also have "lru_resident F sq k - {?l ! (F - 1)} = set (take (F - 1) ?l)"
      proof -
        have len: "F - 1 < length ?l"
          using full IH distinct_card [OF distinct_take [OF mru_distinct, of F sq k]] F by simp
        then have "take F ?l = take (F - 1) ?l @ [?l ! (F - 1)]"
          using F take_Suc_conv_app_nth [OF len] by simp
        then show ?thesis using IH distinct_take [OF mru_distinct, of F sq k] by auto
      qed
      finally show ?thesis using after by simp
    qed
  qed
qed

lemma lru_inclusion:
  assumes "paging_input F sq" and "F \<le> F'" and "k \<le> seq_n sq"
  shows "lru_resident F sq k \<subseteq> lru_resident F' sq k"
proof -
  have "paging_input F' sq" using assms by (simp add: paging_input_def)
  then show ?thesis using assms lru_resident_mru set_take_subset_set_take by metis
qed

lemma lru_faults_antimono:
  assumes "paging_input F sq" and "F \<le> F'" and "k \<le> seq_n sq"
  shows "lru_faults (lru_at F' sq k) \<le> lru_faults (lru_at F sq k)"
  using assms(3)
proof (induction k)
  case 0
  show ?case by (simp add: resident_start)
next
  case (Suc k)
  have inp': "paging_input F' sq" using assms by (simp add: paging_input_def)
  have k: "k < seq_n sq" using Suc by simp
  show ?case
  proof (cases "refs sq ! k \<in> lru_resident F sq k")
    case True
    then have "refs sq ! k \<in> lru_resident F' sq k" using lru_inclusion [OF assms(1,2), of k] k by auto
    then show ?thesis using Suc True lru_hit [OF assms(1) k] lru_hit [OF inp' k] by simp
  next
    case False
    then show ?thesis using Suc lru_miss [OF assms(1) k] lru.faults_step [OF inp' k] by simp
  qed
qed

end
