(* ===== verification/Paging_FIFO.thy ===== *)
theory Paging_FIFO
  imports Paging_LRU
begin

section \<open>FIFO against the queue of loaded pages\<close>

text \<open>
  The circular index of \<open>simulate_fifo\<close> implements a queue of pages in the order they were
  loaded: a functional refinement of the array by a list, step by step.
\<close>

definition queue_step :: "nat \<Rightarrow> int \<Rightarrow> int list \<Rightarrow> int list" where
  "queue_step F p q =
     (if p \<in> set q then q else if length q < F then q @ [p] else tl q @ [p])"

text \<open>The abstraction: before the array is full its loaded part, then the array from \<open>idx\<close> on.\<close>

definition fifo_abs :: "nat \<Rightarrow> fifo_state \<Rightarrow> int list" where
  "fifo_abs F s =
     (if fifo_filled s < F then take (fifo_filled s) (fifo_frames s)
      else drop (fifo_idx s) (fifo_frames s) @ take (fifo_idx s) (fifo_frames s))"

text \<open>The circular index moves only once the array is full.\<close>

definition fifo_inv :: "nat \<Rightarrow> RefSeq \<Rightarrow> nat \<Rightarrow> fifo_state \<Rightarrow> bool" where
  "fifo_inv F sq k s \<longleftrightarrow> fifo_ok F sq k s \<and> (fifo_filled s < F \<longrightarrow> fifo_idx s = 0)"

lemma rotate_replace:
  assumes "length xs = F" and "i < F"
  shows "drop ((i + 1) mod F) (xs[i := p]) @ take ((i + 1) mod F) (xs[i := p]) =
    tl (drop i xs @ take i xs) @ [p]"
proof (cases "i + 1 = F")
  case True
  then have "drop i xs = [xs ! i]" using assms drop_nth_Cons [of i xs] by simp
  moreover have "xs[i := p] = take i xs @ [p]"
    using True assms take_update_Suc [of i xs p] by simp
  ultimately show ?thesis using True by simp
next
  case False
  then have "(i + 1) mod F = i + 1" using assms by simp
  moreover have "drop i xs = xs ! i # drop (i + 1) xs" using assms drop_nth_Cons [of i xs] by simp
  ultimately show ?thesis using assms take_update_Suc [of i xs p] by simp
qed

lemma fifo_abs_set:
  assumes "fifo_inv F sq k s"
  shows "set (fifo_abs F s) = held (fifo_frames s) (fifo_filled s)"
    and "length (fifo_abs F s) = fifo_filled s"
proof -
  have "set (drop i xs @ take i xs) = set xs" for i and xs :: "int list"
    by (metis append_take_drop_id set_append sup_commute)
  then show "set (fifo_abs F s) = held (fifo_frames s) (fifo_filled s)"
    using assms by (auto simp: fifo_abs_def fifo_inv_def fifo_ok_def frames_ok_def held_def)
  show "length (fifo_abs F s) = fifo_filled s"
    using assms by (auto simp: fifo_abs_def fifo_inv_def fifo_ok_def frames_ok_def)
qed

lemma fifo_inv_run: "paging_input F sq \<Longrightarrow> k \<le> seq_n sq \<Longrightarrow> fifo_inv F sq k (fifo_at F sq k)"
proof (induction k)
  case 0
  then show ?case using fifo_ok_run [of F sq 0]
    by (simp add: fifo_inv_def fifo_at_simps fifo_init_def)
next
  case (Suc k)
  then show ?case using fifo_ok_run [of F sq "Suc k"]
    by (auto simp: fifo_inv_def fifo_at_simps fifo_step_def Let_def)
qed

lemma fifo_step_queue:
  assumes inp: "paging_input F sq" and k: "k < seq_n sq" and inv: "fifo_inv F sq k s"
  shows "fifo_abs F (fifo_step F sq k s) = queue_step F (refs sq ! k) (fifo_abs F s)"
proof -
  let ?p = "refs sq ! k"
  have ok: "frames_ok F sq k (fifo_frames s) (fifo_filled s)" and idx: "fifo_idx s < F"
    using inv by (auto simp: fifo_inv_def fifo_ok_def)
  have miss: "find_in_frames (fifo_frames s) F ?p = - 1 \<longleftrightarrow> ?p \<notin> set (fifo_abs F s)"
    using find_in_frames_miss [OF ok paging_input_ref [OF inp k]] fifo_abs_set(1) [OF inv] by simp
  show ?thesis
  proof (cases "?p \<in> set (fifo_abs F s)")
    case True
    then show ?thesis using miss by (simp add: fifo_step_def Let_def queue_step_def)
  next
    case new: False
    show ?thesis
    proof (cases "fifo_filled s < F")
      case True
      have "fifo_abs F (fifo_step F sq k s) = take (fifo_filled s) (fifo_frames s) @ [?p]"
        using True new miss ok inv idx take_update_Suc [of "fifo_filled s" "fifo_frames s" ?p]
        by (auto simp: fifo_step_def Let_def fifo_abs_def fifo_inv_def frames_ok_def)
      then show ?thesis using True new fifo_abs_set(2) [OF inv]
        by (simp add: queue_step_def fifo_abs_def)
    next
      case False
      then have "fifo_abs F (fifo_step F sq k s) =
          tl (drop (fifo_idx s) (fifo_frames s) @ take (fifo_idx s) (fifo_frames s)) @ [?p]"
        using new miss ok rotate_replace [of "fifo_frames s" F "fifo_idx s" ?p] idx
        by (simp add: fifo_step_def Let_def fifo_abs_def frames_ok_def)
      then show ?thesis using False new fifo_abs_set(2) [OF inv]
        by (simp add: queue_step_def fifo_abs_def)
    qed
  qed
qed

text \<open>The whole run of the abstract queue.\<close>

definition queue_at :: "nat \<Rightarrow> RefSeq \<Rightarrow> nat \<Rightarrow> int list" where
  "queue_at F sq k = for_loop 0 k (\<lambda>j. queue_step F (refs sq ! j)) []"

lemma queue_at_simps:
  "queue_at F sq 0 = []" "queue_at F sq (Suc k) = queue_step F (refs sq ! k) (queue_at F sq k)"
  by (simp_all add: queue_at_def for_loop_last)

lemma fifo_run_queue:
  "paging_input F sq \<Longrightarrow> k \<le> seq_n sq \<Longrightarrow> fifo_abs F (fifo_at F sq k) = queue_at F sq k"
proof (induction k)
  case 0
  then show ?case
    by (simp add: fifo_at_simps fifo_init_def fifo_abs_def queue_at_simps paging_input_def)
next
  case (Suc k)
  then show ?case using fifo_step_queue [OF _ _ fifo_inv_run] by (simp add: fifo_at_simps queue_at_simps)
qed

end
