(* ===== verification/Binary64.thy ===== *)
theory Binary64
  imports Complex_Main Prelude
begin

section \<open>The C type \<open>double\<close>\<close>

text \<open>
  Finite IEEE 754 binary64 values are rationals; an operation is the exact one followed by
  rounding to the nearest value with a 53-bit significand, ties to the even significand.  The
  exponent is not bounded: the programs' values are times in milliseconds, sums and differences
  of 32-bit integers and of multiples of \<open>0.1\<close>, so they are either zero or between
  \<open>2 powi -60\<close> and \<open>2 powi 63\<close> in magnitude, where the bounded format has no subnormal
  and no infinite result.  The locale \<open>rounding\<close> is what the clients rely on: rounding is
  monotone and leaves representable values alone.
\<close>

type_synonym double = rat

function int_log2 :: "int \<Rightarrow> nat" where
  "int_log2 n = (if n \<le> 1 then 0 else Suc (int_log2 (n div 2)))"
  by pat_completeness auto
termination
  by (relation "measure nat") auto

text \<open>The binary exponent of a positive rational.\<close>

definition rat_log2 :: "rat \<Rightarrow> int" where
  "rat_log2 x =
     (let (p, q) = quotient_of x; e = int (int_log2 p) - int (int_log2 q) in
      if x < 2 powi e then e - 1 else e)"

definition round_half_even :: "rat \<Rightarrow> int" where
  "round_half_even x =
     (let f = \<lfloor>x\<rfloor>; d = x - of_int f in
      if d < 1 / 2 then f else if 1 / 2 < d then f + 1 else if even f then f else f + 1)"

definition dround :: "rat \<Rightarrow> double" where
  "dround x =
     (if x = 0 then 0
      else let u = 2 powi (rat_log2 \<bar>x\<bar> - 52) in of_int (round_half_even (x / u)) * u)"

text \<open>The arithmetic the programs use, one rounding per operation.\<close>

definition dadd :: "double \<Rightarrow> double \<Rightarrow> double" where
  "dadd x y = dround (x + y)"

definition dsub :: "double \<Rightarrow> double \<Rightarrow> double" where
  "dsub x y = dround (x - y)"

definition dmul :: "double \<Rightarrow> double \<Rightarrow> double" where
  "dmul x y = dround (x * y)"

definition ddiv :: "double \<Rightarrow> double \<Rightarrow> double" where
  "ddiv x y = dround (x / y)"

text \<open>The values of the format: an integer of at most 53 bits times a power of two.\<close>

definition is_double :: "rat \<Rightarrow> bool" where
  "is_double x \<longleftrightarrow> (\<exists>m e. \<bar>m\<bar> < (2::int) ^ 53 \<and> x = of_int m * 2 powi e)"

declare int_log2.simps [simp del]

locale rounding =
  fixes rnd :: "rat \<Rightarrow> rat" and repr :: "rat \<Rightarrow> bool"
  assumes rnd_mono: "x \<le> y \<Longrightarrow> rnd x \<le> rnd y"
    and rnd_repr: "repr x \<Longrightarrow> rnd x = x"
    and repr_rnd: "repr (rnd x)"
    and repr_0: "repr 0"
begin

lemma rnd_ge: "repr a \<Longrightarrow> a \<le> x \<Longrightarrow> a \<le> rnd x"
  using rnd_mono [of a x] rnd_repr [of a] by simp

lemma rnd_le: "repr a \<Longrightarrow> x \<le> a \<Longrightarrow> rnd x \<le> a"
  using rnd_mono [of x a] rnd_repr [of a] by simp

lemma rnd_add_ge: "repr a \<Longrightarrow> 0 \<le> b \<Longrightarrow> a \<le> rnd (a + b)"
  by (rule rnd_ge) auto

lemma rnd_nonneg: "0 \<le> x \<Longrightarrow> 0 \<le> rnd x"
  using rnd_ge repr_0 by blast

lemma rnd_nonpos: "x \<le> 0 \<Longrightarrow> rnd x \<le> 0"
  using rnd_le repr_0 by blast

end

subsection \<open>The exponent\<close>

lemma int_log2_bounds: "0 < n \<Longrightarrow> 2 ^ int_log2 n \<le> n \<and> n < 2 ^ (int_log2 n + 1)"
proof (induction n rule: int_log2.induct)
  case (1 n)
  show ?case
  proof (cases "n \<le> 1")
    case True
    then show ?thesis using 1 by (simp add: int_log2.simps [of n])
  next
    case False
    then have "2 ^ int_log2 (n div 2) \<le> n div 2 \<and> n div 2 < 2 ^ (int_log2 (n div 2) + 1)"
      using 1 by simp
    then show ?thesis using False by (simp add: int_log2.simps [of n]) linarith
  qed
qed

lemma int_log2_bounds_rat:
  assumes "0 < n"
  shows "(2::rat) ^ int_log2 n \<le> of_int n" "of_int n < (2::rat) ^ (int_log2 n + 1)"
proof -
  have "(of_int (2 ^ int_log2 n) :: rat) \<le> of_int n" "of_int n < (of_int (2 ^ (int_log2 n + 1)) :: rat)"
    using int_log2_bounds [OF assms] unfolding of_int_le_iff of_int_less_iff by blast+
  then show "(2::rat) ^ int_log2 n \<le> of_int n" "of_int n < (2::rat) ^ (int_log2 n + 1)" by simp_all
qed

lemma powi2_pos [simp]: "0 < (2::rat) powi e"
  by simp

lemma powi2_Suc: "(2::rat) powi (e + 1) = 2 * 2 powi e"
  by (simp add: power_int_add)

lemma powi2_mono: "e \<le> e' \<Longrightarrow> (2::rat) powi e \<le> 2 powi e'"
  by (rule power_int_increasing) auto

lemma powi2_less: "(2::rat) powi e < 2 powi e' \<Longrightarrow> e < e'"
  using powi2_mono [of e' e] by linarith

lemma powi2_nat: "(2::rat) powi (int n) = 2 ^ n"
  by (simp add: power_int_def)

lemma rat_log2_bounds:
  assumes "0 < x"
  shows "2 powi (rat_log2 x) \<le> x" and "x < 2 powi (rat_log2 x + 1)"
proof -
  obtain p q where pq: "quotient_of x = (p, q)" by force
  have q: "0 < q" using quotient_of_denom_pos [OF pq] .
  have x: "x = of_int p / of_int q" using quotient_of_div [OF pq] .
  have p: "0 < p" using assms x q by (simp add: zero_less_divide_iff)
  define a where "a = int_log2 p"
  define b where "b = int_log2 q"
  note P = int_log2_bounds_rat [OF p, folded a_def]
  note Q = int_log2_bounds_rat [OF q, folded b_def]
  define e where "e = int a - int b"
  have e_div: "(2::rat) powi e = 2 ^ a / 2 ^ b"
    by (simp add: e_def power_int_diff powi2_nat)
  have lo: "2 powi (e - 1) < x"
  proof -
    have "(2::rat) powi (e - 1) = 2 ^ a / 2 ^ (b + 1)"
      using e_div by (simp add: power_int_diff)
    also have "\<dots> \<le> of_int p / 2 ^ (b + 1)" using P(1) by (simp add: divide_right_mono)
    also have "\<dots> < of_int p / of_int q" using Q p q by (intro divide_strict_left_mono) auto
    finally show ?thesis using x by simp
  qed
  have hi: "x < 2 powi (e + 1)"
  proof -
    have "x < 2 ^ (a + 1) / of_int q" using x P(2) q by (simp add: divide_strict_right_mono)
    also have "\<dots> \<le> 2 ^ (a + 1) / 2 ^ b" using Q(1) q by (intro divide_left_mono) auto
    also have "\<dots> = 2 powi (e + 1)" using e_div by (simp add: powi2_Suc)
    finally show ?thesis .
  qed
  have "rat_log2 x = (if x < 2 powi e then e - 1 else e)"
    by (simp add: rat_log2_def pq e_def a_def b_def)
  then show "2 powi (rat_log2 x) \<le> x" "x < 2 powi (rat_log2 x + 1)"
    using lo hi by (auto split: if_splits)
qed

lemma rat_log2_unique: "2 powi e \<le> x \<Longrightarrow> x < 2 powi (e + 1) \<Longrightarrow> rat_log2 x = e"
  using rat_log2_bounds [of x] powi2_less [of e "rat_log2 x + 1"] powi2_less [of "rat_log2 x" "e + 1"]
    less_le_trans [OF powi2_pos [of e], of x] by linarith

lemma rat_log2_mono: "0 < x \<Longrightarrow> x \<le> y \<Longrightarrow> rat_log2 x \<le> rat_log2 y"
  using rat_log2_bounds [of x] rat_log2_bounds [of y] powi2_less [of "rat_log2 x" "rat_log2 y + 1"]
  by linarith

subsection \<open>Rounding to an integer\<close>

lemma round_half_even_int [simp]: "round_half_even (of_int n) = n"
  by (simp add: round_half_even_def)

lemma round_half_even_bounds:
  "\<lfloor>x\<rfloor> \<le> round_half_even x" "round_half_even x \<le> \<lfloor>x\<rfloor> + 1"
  "\<bar>of_int (round_half_even x) - x\<bar> \<le> 1 / 2"
  unfolding round_half_even_def Let_def by (auto simp: abs_if) linarith+

lemma round_half_even_mono:
  assumes "x \<le> y"
  shows "round_half_even x \<le> round_half_even y"
proof (cases "\<lfloor>x\<rfloor> = \<lfloor>y\<rfloor>")
  case True
  then show ?thesis using assms by (auto simp: round_half_even_def Let_def)
next
  case False
  then have "\<lfloor>x\<rfloor> + 1 \<le> \<lfloor>y\<rfloor>" using floor_mono [OF assms] by linarith
  then show ?thesis using round_half_even_bounds(2) [of x] round_half_even_bounds(1) [of y] by linarith
qed

lemma round_half_even_le: "x \<le> of_int n \<Longrightarrow> round_half_even x \<le> n"
  using round_half_even_mono [of x "of_int n"] by simp

lemma round_half_even_ge: "of_int n \<le> x \<Longrightarrow> n \<le> round_half_even x"
  using round_half_even_mono [of "of_int n" x] by simp

lemma round_half_even_minus: "round_half_even (- x) = - round_half_even x"
proof (cases "x = of_int \<lfloor>x\<rfloor>")
  case True
  then show ?thesis by (metis of_int_minus round_half_even_int)
next
  case False
  then have frac: "of_int \<lfloor>x\<rfloor> < x" "x < of_int \<lfloor>x\<rfloor> + 1"
    using of_int_floor_le [of x] by linarith+
  then have "\<lfloor>- x\<rfloor> = - \<lfloor>x\<rfloor> - 1" by (intro floor_unique) auto
  then show ?thesis using frac by (auto simp: round_half_even_def Let_def)
qed

subsection \<open>Rounding to a double\<close>

lemma dround_0 [simp]: "dround 0 = 0"
  by (simp add: dround_def)

lemma dround_minus: "dround (- x) = - dround x"
  by (simp add: dround_def Let_def round_half_even_minus)

text \<open>The significand of a positive value has exactly 53 bits.\<close>

lemma significand_bounds:
  assumes "0 < x"
  defines "u \<equiv> 2 powi (rat_log2 x - 52)"
  shows "2 ^ 52 \<le> x / u" and "x / u < 2 ^ 53"
proof -
  have u: "0 < u" by (simp add: u_def)
  have "2 powi (rat_log2 x) = 2 ^ 52 * u" "2 powi (rat_log2 x + 1) = 2 ^ 53 * u"
    by (simp_all add: u_def power_int_diff powi2_Suc)
  then show "2 ^ 52 \<le> x / u" "x / u < 2 ^ 53"
    using rat_log2_bounds [OF assms(1)] u by (simp_all add: field_simps)
qed

lemma dround_pos:
  assumes "0 < x"
  shows "2 powi (rat_log2 x) \<le> dround x" and "dround x \<le> 2 powi (rat_log2 x + 1)"
proof -
  define u where "u = (2::rat) powi (rat_log2 x - 52)"
  have u: "0 < u" by (simp add: u_def)
  have d: "dround x = of_int (round_half_even (x / u)) * u"
    using assms by (simp add: dround_def u_def Let_def)
  have sig: "2 ^ 52 \<le> round_half_even (x / u)" "round_half_even (x / u) \<le> 2 ^ 53"
    using significand_bounds [OF assms] unfolding u_def [symmetric]
    by (intro round_half_even_ge round_half_even_le; simp)+
  have "(2::rat) ^ 52 \<le> of_int (round_half_even (x / u))"
    "of_int (round_half_even (x / u)) \<le> (2::rat) ^ 53"
    using sig of_int_le_iff [of "2 ^ 52" "round_half_even (x / u)", where ?'a = rat]
      of_int_le_iff [of "round_half_even (x / u)" "2 ^ 53", where ?'a = rat] by simp_all
  then have "2 ^ 52 * u \<le> dround x" "dround x \<le> 2 ^ 53 * u" using u d by simp_all
  then show "2 powi (rat_log2 x) \<le> dround x" "dround x \<le> 2 powi (rat_log2 x + 1)"
    by (simp_all add: u_def power_int_diff powi2_Suc)
qed

lemma dround_mono_pos:
  assumes "0 < x" and "x \<le> y"
  shows "dround x \<le> dround y"
proof (cases "rat_log2 x = rat_log2 y")
  case True
  define u where "u = (2::rat) powi (rat_log2 x - 52)"
  have u: "0 < u" by (simp add: u_def)
  have "round_half_even (x / u) \<le> round_half_even (y / u)"
    using assms u by (intro round_half_even_mono divide_right_mono) auto
  then show ?thesis using assms True u by (simp add: dround_def Let_def u_def)
next
  case False
  then have "rat_log2 x + 1 \<le> rat_log2 y" using rat_log2_mono [OF assms] by simp
  then have "(2::rat) powi (rat_log2 x + 1) \<le> 2 powi (rat_log2 y)" by (rule powi2_mono)
  then show ?thesis using dround_pos(2) [OF assms(1)] dround_pos(1) [of y] assms by linarith
qed

lemma dround_mono: "x \<le> y \<Longrightarrow> dround x \<le> dround y"
proof -
  assume le: "x \<le> y"
  have nonneg: "0 \<le> dround z" if "0 \<le> z" for z
    using that dround_pos(1) [of z] powi2_pos [of "rat_log2 z"] by (cases "z = 0") (simp, linarith)
  consider "0 < x" | "x \<le> 0" "0 \<le> y" | "y < 0" by linarith
  then show ?thesis
  proof cases
    case 1
    then show ?thesis using le by (rule dround_mono_pos)
  next
    case 2
    then show ?thesis using nonneg [of "- x"] nonneg [of y] by (simp add: dround_minus)
  next
    case 3
    then show ?thesis using le dround_mono_pos [of "- y" "- x"] by (simp add: dround_minus)
  qed
qed

lemma is_double_dround: "is_double (dround x)"
proof (cases "x = 0")
  case True
  then show ?thesis unfolding is_double_def by (intro exI [of _ 0]) simp
next
  case False
  define e where "e = rat_log2 \<bar>x\<bar> - 52"
  define m where "m = round_half_even (x / 2 powi e)"
  have d: "dround x = of_int m * 2 powi e" using False by (simp add: dround_def e_def m_def Let_def)
  have "\<bar>x\<bar> / 2 powi e < 2 ^ 53" using significand_bounds(2) [of "\<bar>x\<bar>"] False by (simp add: e_def)
  then have "- (2 ^ 53) \<le> x / 2 powi e" "x / 2 powi e \<le> 2 ^ 53"
    by (simp_all add: abs_if field_simps split: if_splits)
  then have "\<bar>m\<bar> \<le> 2 ^ 53"
    using round_half_even_le [of "x / 2 powi e" "2 ^ 53"]
      round_half_even_ge [of "- (2 ^ 53)" "x / 2 powi e"] by (simp add: m_def abs_le_iff)
  then consider "\<bar>m\<bar> < 2 ^ 53" | "m = 2 ^ 53" | "m = - (2 ^ 53)" by linarith
  then show ?thesis
  proof cases
    case 1
    then show ?thesis using d unfolding is_double_def by blast
  next
    case 2
    then show ?thesis using d unfolding is_double_def
      by (intro exI [of _ 1] exI [of _ "e + 53"]) (simp add: power_int_add)
  next
    case 3
    then show ?thesis using d unfolding is_double_def
      by (intro exI [of _ "- 1"] exI [of _ "e + 53"]) (simp add: power_int_add)
  qed
qed

lemma dround_is_double_pos:
  assumes "0 < x" and "is_double x"
  shows "dround x = x"
proof -
  obtain m e where m: "\<bar>m\<bar> < (2::int) ^ 53" and x: "x = of_int m * 2 powi e"
    using assms(2) by (auto simp: is_double_def)
  define d where "d = e - (rat_log2 x - 52)"
  have "of_int m < (2::rat) ^ 53"
    using m of_int_less_iff [of m "2 ^ 53", where ?'a = rat] by simp
  then have "x < 2 ^ 53 * 2 powi e" using x by simp
  also have "\<dots> = 2 powi (e + 53)" by (simp add: power_int_add)
  finally have "rat_log2 x < e + 53"
    using rat_log2_bounds(1) [OF assms(1)] powi2_less [of "rat_log2 x" "e + 53"] by linarith
  then have d: "0 \<le> d" by (simp add: d_def)
  have "x / 2 powi (rat_log2 x - 52) = of_int m * 2 powi d"
    unfolding d_def by (subst power_int_diff) (simp_all add: x)
  also have "\<dots> = of_int (m * 2 ^ nat d)" using d by (simp add: power_int_def)
  finally have sig: "x / 2 powi (rat_log2 x - 52) = of_int (m * 2 ^ nat d)" .
  then have "round_half_even (x / 2 powi (rat_log2 x - 52)) = m * 2 ^ nat d"
    by (simp only: round_half_even_int)
  then have "dround x = x / 2 powi (rat_log2 x - 52) * 2 powi (rat_log2 x - 52)"
    using assms(1) sig by (simp add: dround_def Let_def)
  then show ?thesis by simp
qed

lemma is_double_minus: "is_double x \<Longrightarrow> is_double (- x)"
  unfolding is_double_def by (metis abs_minus_cancel mult_minus_left of_int_minus)

lemma dround_is_double: "is_double x \<Longrightarrow> dround x = x"
  using dround_is_double_pos [of x] dround_is_double_pos [of "- x"] is_double_minus [of x]
  by (cases "x = 0"; cases "0 < x") (auto simp: dround_minus)

lemma is_double_of_int: "\<bar>n\<bar> < 2 ^ 53 \<Longrightarrow> is_double (of_int n)"
  unfolding is_double_def by (intro exI [of _ n] exI [of _ 0]) simp

lemma dround_error:
  assumes "\<bar>x\<bar> < 2 powi e"
  shows "\<bar>dround x - x\<bar> \<le> 2 powi (e - 54)"
proof (cases "x = 0")
  case False
  define u where "u = (2::rat) powi (rat_log2 \<bar>x\<bar> - 52)"
  have u: "0 < u" by (simp add: u_def)
  have "rat_log2 \<bar>x\<bar> < e"
    using rat_log2_bounds(1) [of "\<bar>x\<bar>"] False assms powi2_less [of "rat_log2 \<bar>x\<bar>" e] by simp
  then have "u \<le> 2 powi (e - 53)" unfolding u_def by (intro powi2_mono) simp
  moreover have "dround x - x = (of_int (round_half_even (x / u)) - x / u) * u"
    using False u by (simp add: dround_def Let_def u_def [symmetric] left_diff_distrib)
  then have "\<bar>dround x - x\<bar> \<le> 1 / 2 * u"
    using round_half_even_bounds(3) [of "x / u"] u by (simp add: abs_mult)
  moreover have "2 powi (e - 53) = 2 * (2::rat) powi (e - 54)"
    using powi2_Suc [of "e - 54"] by simp
  ultimately show ?thesis by simp
qed simp

interpretation dbl: rounding dround is_double
  by unfold_locales
    (erule dround_mono dround_is_double | rule is_double_dround is_double_of_int [of 0, simplified])+

end
