(* ===== verification/C_Stdio.thy ===== *)
theory C_Stdio
  imports Binary64
begin

section \<open>Formatted input and output\<close>

text \<open>
  The conversions of \<open>scanf\<close> and \<open>printf\<close> the programs use, on text as a character list:
  \<open>%d\<close> in both directions, \<open>%.2f\<close> for output, and \<open>atoi\<close>.  Reading follows glibc: white
  space is skipped, an optional sign and at least one digit are required, the value is converted
  as a \<open>long\<close> (saturating) and stored as an \<open>int\<close> (its low 32 bits).  The last lemmas are
  the round trip from \<open>%d\<close> output back to \<open>%d\<close> input.
\<close>

definition int_min :: int where "int_min = - (2 ^ 31)"
definition int_max :: int where "int_max = 2 ^ 31 - 1"
definition long_min :: int where "long_min = - (2 ^ 63)"
definition long_max :: int where "long_max = 2 ^ 63 - 1"

definition is_int32 :: "int \<Rightarrow> bool" where
  "is_int32 v \<longleftrightarrow> int_min \<le> v \<and> v \<le> int_max"

definition clamp_long :: "int \<Rightarrow> int" where
  "clamp_long v = max long_min (min long_max v)"

definition wrap32 :: "int \<Rightarrow> int" where
  "wrap32 v = (v + 2 ^ 31) mod 2 ^ 32 - 2 ^ 31"

definition is_space :: "char \<Rightarrow> bool" where
  "is_space c \<longleftrightarrow> (let n = (of_char c :: int) in n = 32 \<or> 9 \<le> n \<and> n \<le> 13)"

definition is_digit :: "char \<Rightarrow> bool" where
  "is_digit c \<longleftrightarrow> (let n = (of_char c :: int) in 48 \<le> n \<and> n \<le> 57)"

definition digit_val :: "char \<Rightarrow> int" where
  "digit_val c = of_char c - 48"

definition digit_char :: "int \<Rightarrow> char" where
  "digit_char d = char_of (48 + d)"

text \<open>What a program run leaves: its exit status and what it wrote.\<close>

record run_result =
  exit_status :: int
  stdout :: string
  stderr :: string

definition newline :: char where
  "newline = CHR 0x0A"

fun scan_digits :: "int \<Rightarrow> string \<Rightarrow> int \<times> string" where
  "scan_digits v [] = (v, [])"
| "scan_digits v (c # s) =
     (if is_digit c then scan_digits (10 * v + digit_val c) s else (v, c # s))"

text \<open>The optional sign: whether it is a minus, and the rest.\<close>

definition scan_sign :: "string \<Rightarrow> bool \<times> string" where
  "scan_sign s =
     (case s of [] \<Rightarrow> (False, [])
      | c # r \<Rightarrow> if c = CHR ''-'' then (True, r) else if c = CHR ''+'' then (False, r) else (False, s))"

text \<open>\<open>fscanf (f, "%d", &x)\<close>: the value stored and the rest of the input, or \<^term>\<open>None\<close>.\<close>

definition scan_d :: "string \<Rightarrow> (int \<times> string) option" where
  "scan_d s =
     (let (neg, r) = scan_sign (dropWhile is_space s) in
      case r of [] \<Rightarrow> None
      | c # _ \<Rightarrow>
          if is_digit c then
            let (v, rest) = scan_digits 0 r in
            Some (wrap32 (clamp_long (if neg then - v else v)), rest)
          else None)"

definition atoi :: "string \<Rightarrow> int" where
  "atoi s = (case scan_d s of Some (v, _) \<Rightarrow> v | None \<Rightarrow> 0)"

text \<open>The decimal digits of a number that is not negative.\<close>

function show_nat :: "int \<Rightarrow> string" where
  "show_nat n = (if n < 10 then [digit_char n] else show_nat (n div 10) @ [digit_char (n mod 10)])"
  by pat_completeness auto
termination
  by (relation "measure nat") auto

text \<open>\<open>printf ("%d", v)\<close>\<close>

definition show_d :: "int \<Rightarrow> string" where
  "show_d v = (if v < 0 then CHR ''-'' # show_nat (- v) else show_nat v)"

text \<open>\<open>printf ("%.2f", x)\<close>: the exact value rounded to hundredths, ties to even.\<close>

definition show_f2 :: "double \<Rightarrow> string" where
  "show_f2 x =
     (let h = round_half_even (\<bar>x\<bar> * 100) in
      (if x < 0 then ''-'' else '''') @ show_nat (h div 100) @ ''.'' @
      [digit_char (h div 10 mod 10), digit_char (h mod 10)])"

declare show_nat.simps [simp del]

subsection \<open>The round trip\<close>

lemma wrap32_id: "is_int32 v \<Longrightarrow> wrap32 v = v"
  by (simp add: wrap32_def is_int32_def int_min_def int_max_def)

lemma is_int32_wrap32: "is_int32 (wrap32 v)"
  using pos_mod_bound [of "2 ^ 32" "v + 2 ^ 31"] pos_mod_sign [of "2 ^ 32" "v + 2 ^ 31"]
  unfolding wrap32_def is_int32_def int_min_def int_max_def by simp

lemma clamp_long_id: "is_int32 v \<Longrightarrow> clamp_long v = v"
  by (simp add: clamp_long_def is_int32_def int_min_def int_max_def long_min_def long_max_def)

lemma of_char_digit_char: "0 \<le> d \<Longrightarrow> d < 10 \<Longrightarrow> (of_char (digit_char d) :: int) = 48 + d"
  by (simp add: digit_char_def)

lemma digit_char_props [simp]:
  assumes "0 \<le> d" and "d < 10"
  shows "is_digit (digit_char d)" "digit_val (digit_char d) = d" "\<not> is_space (digit_char d)"
    "digit_char d \<noteq> CHR ''-''" "digit_char d \<noteq> CHR ''+''"
proof -
  note code = of_char_digit_char [OF assms]
  show "is_digit (digit_char d)" "digit_val (digit_char d) = d" "\<not> is_space (digit_char d)"
    using assms code by (auto simp: is_digit_def digit_val_def is_space_def Let_def)
  have "(of_char (CHR ''-'') :: int) = 45" "(of_char (CHR ''+'') :: int) = 43" by simp_all
  then show "digit_char d \<noteq> CHR ''-''" "digit_char d \<noteq> CHR ''+''" using code assms by auto
qed

lemma show_nat_digits: "0 \<le> n \<Longrightarrow> \<exists>d s. 0 \<le> d \<and> d < 10 \<and> show_nat n = digit_char d # s"
proof (induction n rule: show_nat.induct)
  case (1 n)
  have "0 \<le> n div 10" using "1.prems" by simp
  then show ?case using 1 by (cases "n < 10") (force simp: show_nat.simps [of n])+
qed

lemma scan_digits_show_nat:
  "0 \<le> n \<Longrightarrow> scan_digits v (show_nat n @ r) = scan_digits (v * 10 ^ length (show_nat n) + n) r"
proof (induction n arbitrary: r rule: show_nat.induct)
  case (1 n)
  show ?case
  proof (cases "n < 10")
    case True
    then show ?thesis using "1.prems" by (simp add: show_nat.simps [of n] algebra_simps)
  next
    case False
    then have "scan_digits v (show_nat n @ r) =
        scan_digits (v * 10 ^ length (show_nat (n div 10)) + n div 10) (digit_char (n mod 10) # r)"
      using "1" by (simp add: show_nat.simps [of n])
    then show ?thesis using False by (simp add: show_nat.simps [of n] algebra_simps)
  qed
qed

lemma scan_digits_stop: "r = [] \<or> \<not> is_digit (hd r) \<Longrightarrow> scan_digits v r = (v, r)"
  by (cases r) auto

lemma scan_d_number:
  assumes "scan_sign (dropWhile is_space s) = (neg, c # t)" and "is_digit c"
    and "scan_digits 0 (c # t) = (w, rest)"
  shows "scan_d s = Some (wrap32 (clamp_long (if neg then - w else w)), rest)"
  using assms by (simp add: scan_d_def del: scan_digits.simps)

lemma scan_sign_show_d:
  assumes "show_nat \<bar>v\<bar> = digit_char d # s" and "0 \<le> d" "d < 10"
  shows "scan_sign (dropWhile is_space (show_d v @ r)) = (v < 0, digit_char d # s @ r)"
proof (cases "v < 0")
  case True
  then have "show_d v = CHR ''-'' # digit_char d # s" using assms(1) by (simp add: show_d_def)
  then show ?thesis using True by (simp add: scan_sign_def is_space_def)
next
  case False
  then have "show_d v = digit_char d # s" using assms(1) by (simp add: show_d_def)
  then show ?thesis using False assms(2,3) by (simp add: scan_sign_def)
qed

lemma scan_d_show_d:
  assumes "is_int32 v" and "r = [] \<or> \<not> is_digit (hd r)"
  shows "scan_d (show_d v @ r) = Some (v, r)"
proof -
  obtain d s where d: "0 \<le> d" "d < 10" "show_nat \<bar>v\<bar> = digit_char d # s" 
    using show_nat_digits [of "\<bar>v\<bar>"] by auto
  have "scan_digits 0 (digit_char d # s @ r) = (\<bar>v\<bar>, r)"
    using scan_digits_show_nat [of "\<bar>v\<bar>" 0 r] scan_digits_stop [OF assms(2)]
    unfolding d(3) by (simp del: scan_digits.simps)
  then have "scan_d (show_d v @ r) =
      Some (wrap32 (clamp_long (if v < 0 then - \<bar>v\<bar> else \<bar>v\<bar>)), r)"
    by (rule scan_d_number [OF scan_sign_show_d [OF d(3,1,2)] digit_char_props(1) [OF d(1,2)]])
  moreover have "(if v < 0 then - \<bar>v\<bar> else \<bar>v\<bar>) = v" by simp
  ultimately show ?thesis using assms(1) by (simp only: wrap32_id clamp_long_id)
qed

lemma scan_d_skip_space: "is_space c \<Longrightarrow> scan_d (c # s) = scan_d s"
  by (simp add: scan_d_def)

lemma newline_props [simp]: "is_space newline" "\<not> is_digit newline"
  by (simp_all add: is_space_def is_digit_def newline_def)

lemma scan_d_int32: "scan_d s = Some (v, r) \<Longrightarrow> is_int32 v"
  by (auto simp: scan_d_def Let_def is_int32_wrap32 split: prod.splits list.splits if_splits)

lemma scan_digits_length: "scan_digits v s = (w, r) \<Longrightarrow> length r \<le> length s"
  by (induction v s rule: scan_digits.induct) (auto split: if_splits)

lemma scan_sign_length: "length (snd (scan_sign s)) \<le> length s"
  by (cases s) (simp_all add: scan_sign_def)

lemma scan_d_length: "scan_d s = Some (v, r) \<Longrightarrow> length r < length s"
proof -
  assume scan: "scan_d s = Some (v, r)"
  obtain neg t where t: "scan_sign (dropWhile is_space s) = (neg, t)" by force
  with scan obtain c t' where c: "t = c # t'" "is_digit c"
    by (auto simp: scan_d_def split: list.splits if_splits)
  obtain w r' where w: "scan_digits (digit_val c) t' = (w, r')" by force
  with scan t c have "r = r'" by (simp add: scan_d_def)
  then have "length r < length t" using scan_digits_length [OF w] c by simp
  also have "length t \<le> length (dropWhile is_space s)"
    using scan_sign_length [of "dropWhile is_space s"] t by simp
  also have "\<dots> \<le> length s" by (rule length_dropWhile_le)
  finally show ?thesis .
qed

end
