(* ===== verification/Paging_Main.thy ===== *)
theory Paging_Main
  imports Paging_FIFO C_Stdio
begin

section \<open>The page replacement program: input, output and \<open>main\<close>\<close>

text \<open>
  \<open>read_input\<close>, \<open>print_result\<close> and \<open>main\<close> of \<^verbatim>\<open>page_replacement_simulator.c\<close>.  A
  file is its text, or \<^term>\<open>None\<close> when it cannot be opened; memory allocation is assumed to
  succeed.  A run of \<open>main\<close> is its exit status with what it wrote to standard output and
  standard error.
\<close>

definition MAX_FRAMES :: int where
  "MAX_FRAMES = 1000"

text \<open>
  The reading loop, with the capacity of the array; the store to \<open>refs[n]\<close> is checked against
  the capacity in force at that point.
\<close>

function read_refs :: "nat \<Rightarrow> int list \<Rightarrow> string \<Rightarrow> (int list) outcome" where
  "read_refs cap xs s =
     (case scan_d s of
        None \<Rightarrow> Inr xs
      | Some (x, rest) \<Rightarrow>
          let cap = (if length xs = cap then cap * 2 else cap) in
          if length xs < cap then read_refs cap (xs @ [x]) rest else Inl Out_Of_Bounds)"
  by pat_completeness auto
termination
  by (relation "measure (\<lambda>(cap, xs, s). length s)") (auto dest: scan_d_length)

record input_result =
  ri_ret :: int
  ri_frames :: "int option"
  ri_seq :: RefSeq
  ri_err :: string

definition read_input :: "string option \<Rightarrow> input_result outcome" where
  "read_input file =
     (case file of
        None \<Rightarrow> Inl Null_Pointer
      | Some text \<Rightarrow>
          (case scan_d text of
             None \<Rightarrow> Inr \<lparr>ri_ret = - 1, ri_frames = None, ri_seq = \<lparr>refs = []\<rparr>,
                         ri_err = ''Wrong input 1'' @ [newline]\<rparr>
           | Some (frames, rest) \<Rightarrow>
               if frames \<le> 0 \<or> MAX_FRAMES < frames then
                 Inr \<lparr>ri_ret = - 1, ri_frames = Some frames, ri_seq = \<lparr>refs = []\<rparr>,
                      ri_err = ''Wrong input 2'' @ [newline]\<rparr>
               else
                 bind_outcome (read_refs 128 [] rest) (\<lambda>xs.
                   Inr \<lparr>ri_ret = 0, ri_frames = Some frames, ri_seq = \<lparr>refs = xs\<rparr>,
                        ri_err = []\<rparr>)))"

definition fault_rate :: "int \<Rightarrow> int \<Rightarrow> double" where
  "fault_rate faults total_refs =
     (if total_refs \<noteq> 0 then ddiv (dmul (of_int faults) 100) (of_int total_refs) else 0)"

definition print_result :: "string \<Rightarrow> int \<Rightarrow> int \<Rightarrow> string" where
  "print_result title faults total_refs =
     (let rate = fault_rate faults total_refs in
      title @ [newline] @
      ''Number of Page Faults: '' @ show_d faults @ [newline] @
      ''Page Fault Rate: '' @ show_f2 rate @ ''%'' @ [newline, newline])"

definition paging_main :: "string list \<Rightarrow> (string \<Rightarrow> string option) \<Rightarrow> run_result outcome" where
  "paging_main argv files =
     (if length argv \<noteq> 2 then
        Inr \<lparr>exit_status = 1, stdout = [], stderr = ''Wrong input'' @ [newline]\<rparr>
      else
        bind_outcome (read_input (files (argv ! 1))) (\<lambda>ri.
          case ri_frames ri of
            None \<Rightarrow> Inl Uninitialised
          | Some frames \<Rightarrow>
              let sq = ri_seq ri; F = nat frames; n = int (seq_n sq);
                  opt_count = simulate_opt F sq;
                  fifo_count = simulate_fifo F sq;
                  lru_count = simulate_lru F sq in
              (case simulate_clock F sq of
                 None \<Rightarrow> Inl Diverges
               | Some clock_count \<Rightarrow>
                   Inr \<lparr>exit_status = 0,
                        stdout =
                          print_result ''Optimal Algorithm:'' (int opt_count) n @
                          print_result ''FIFO Algorithm:'' (int fifo_count) n @
                          print_result ''LRU Algorithm:'' (int lru_count) n @
                          print_result ''Clock Algorithm:'' (int clock_count) n,
                        stderr = ri_err ri\<rparr>)))"

declare read_refs.simps [simp del]

subsection \<open>Reading\<close>

lemma read_refs_in_bounds:
  "length xs \<le> cap \<Longrightarrow> 0 < cap \<Longrightarrow> \<exists>ys. read_refs cap xs s = Inr (xs @ ys)"
proof (induction cap xs s rule: read_refs.induct)
  case (1 cap xs s)
  show ?case
  proof (cases "scan_d s")
    case None
    then show ?thesis by (simp add: read_refs.simps [of cap xs s])
  next
    case (Some xr)
    then obtain x rest where xr: "scan_d s = Some (x, rest)" by (cases xr) auto
    define cap' where "cap' = (if length xs = cap then cap * 2 else cap)"
    have room: "length xs < cap'" "0 < cap'" using "1.prems" by (auto simp: cap'_def)
    then have "\<exists>ys. read_refs cap' (xs @ [x]) rest = Inr ((xs @ [x]) @ ys)"
      using "1.IH" [OF xr refl cap'_def room(1)] by simp
    then show ?thesis using xr room
      by (auto simp: read_refs.simps [of cap xs s] cap'_def [symmetric] Let_def)
  qed
qed

text \<open>Printing a list of page numbers and reading them back.\<close>

lemma read_refs_printed:
  assumes "length xs \<le> cap" "0 < cap" "\<forall>y \<in> set ys. is_int32 y"
  shows "read_refs cap xs (concat (map (\<lambda>y. show_d y @ [newline]) ys)) = Inr (xs @ ys)"
  using assms
proof (induction ys arbitrary: cap xs)
  case Nil
  then show ?case by (simp add: read_refs.simps scan_d_def scan_sign_def)
next
  case (Cons y ys)
  let ?rest = "newline # concat (map (\<lambda>y. show_d y @ [newline]) ys)"
  have scan: "scan_d (show_d y @ ?rest) = Some (y, ?rest)"
    using Cons.prems by (intro scan_d_show_d) auto
  define cap' where "cap' = (if length xs = cap then cap * 2 else cap)"
  have room: "length xs < cap'" "0 < cap'" using Cons.prems by (auto simp: cap'_def)
  have skip: "read_refs c zs (newline # t) = read_refs c zs t" for c zs t
    by (subst (1 2) read_refs.simps) (simp add: scan_d_skip_space)
  have "read_refs cap xs (show_d y @ ?rest) = read_refs cap' (xs @ [y]) ?rest"
    using scan room by (simp add: read_refs.simps [of cap] cap'_def [symmetric] Let_def)
  also have "\<dots> = Inr (xs @ y # ys)"
    using Cons.IH [of "xs @ [y]" cap'] Cons.prems room by (simp add: skip)
  finally show ?case by simp
qed

subsection \<open>Fault counts of any input\<close>

text \<open>A page numbered \<open>-1\<close> included: every simulator ends and counts at most one fault per reference.\<close>

lemma opt_faults_le: "opt_faults (opt_at F sq k) \<le> k"
  by (induction k) (auto simp: opt_at_simps opt_init_def opt_step_def Let_def)

lemma fifo_faults_le: "fifo_faults (fifo_at F sq k) \<le> k"
  by (induction k) (auto simp: fifo_at_simps fifo_init_def fifo_step_def Let_def)

lemma lru_faults_le: "lru_faults (lru_at F sq k) \<le> k"
  by (induction k) (auto simp: lru_at_simps lru_init_def lru_step_def Let_def)

lemma clock_run_total:
  assumes "0 < F"
  shows "\<exists>s. clock_run F sq k = Some s \<and> length (clock_refb s) = F \<and> clock_hand s < F \<and>
    clock_faults s \<le> k"
proof (induction k)
  case 0
  show ?case using assms by (simp add: clock_run_simps clock_init_def)
next
  case (Suc k)
  then obtain s where s: "clock_run F sq k = Some s" "length (clock_refb s) = F"
    "clock_hand s < F" "clock_faults s \<le> k" by auto
  let ?s = "s\<lparr>clock_faults := clock_faults s + 1\<rparr>"
  obtain m where "clock_replace F (refs sq ! k) ?s =
      Some (?s\<lparr>clock_frames := (clock_frames ?s)[(clock_hand ?s + m) mod F := refs sq ! k],
              clock_refb := (clear_bits F (clock_hand ?s) m (clock_refb ?s))
                              [(clock_hand ?s + m) mod F := 1],
              clock_hand := (clock_hand ?s + m + 1) mod F\<rparr>)"
    using clock_replace_result [OF assms, of ?s "refs sq ! k"] s by auto
  then show ?case using s assms by (auto simp: clock_run_simps clock_step_def Let_def)
qed

lemma simulate_clock_total: "0 < F \<Longrightarrow> \<exists>c. simulate_clock F sq = Some c \<and> c \<le> seq_n sq"
  using clock_run_total [of F sq "seq_n sq"] by (auto simp: simulate_clock_def clock_run_def)

lemma simulate_clock_empty: "refs sq = [] \<Longrightarrow> simulate_clock F sq = Some 0"
  by (simp add: simulate_clock_def clock_init_def)

lemma fault_rate_bounds:
  assumes "0 \<le> f" and "f \<le> n" and "n < 2 ^ 31"
  shows "0 \<le> fault_rate f n" and "fault_rate f n \<le> 100"
proof -
  have "\<bar>f * 100\<bar> < 2 ^ 53" using assms by simp
  then have exact: "dmul (of_int f) 100 = of_int f * 100"
    using dbl.rnd_repr [OF is_double_of_int [of "f * 100"]] by (simp add: dmul_def)
  have hundred: "is_double 100" using is_double_of_int [of 100] by simp
  have "of_int f * 100 / of_int n \<le> (100 :: rat)" if "n \<noteq> 0"
    using assms that by (simp add: divide_le_eq)
  then show "0 \<le> fault_rate f n" "fault_rate f n \<le> 100"
    using assms exact dbl.rnd_nonneg dbl.rnd_le [OF hundred]
    by (auto simp: fault_rate_def ddiv_def)
qed

end
