(* ===== verification/Paging_Properties.thy ===== *)
theory Paging_Properties
  imports Paging_Main
begin

section \<open>Properties of the page replacement simulator\<close>

text \<open>
  The statements about the four simulators and about \<open>main\<close>; the proofs instantiate the
  interpretations of \<open>Paging_Interp\<close>.
\<close>

lemma simulate_at:
  "simulate_opt F sq = opt_faults (opt_at F sq (seq_n sq))"
  "simulate_fifo F sq = fifo_faults (fifo_at F sq (seq_n sq))"
  "simulate_lru F sq = lru_faults (lru_at F sq (seq_n sq))"
  by (simp_all add: simulate_opt_def opt_at_def simulate_fifo_def fifo_at_def simulate_lru_def
      lru_at_def)

lemma simulate_clock_at:
  "paging_input F sq \<Longrightarrow> simulate_clock F sq = Some (clock_faults (clock_at F sq (seq_n sq)))"
  using clock_ok_run [of F sq "seq_n sq"] by (auto simp: simulate_clock_def clock_run_def)

abbreviation belady_refs :: RefSeq where
  "belady_refs \<equiv> \<lparr>refs = [1, 2, 3, 4, 1, 2, 5, 1, 2, 3, 4, 5]\<rparr>"

text \<open>
  C1. Belady's theorem for this code: on every reference string, the simulated OPT counts no more
  faults than the simulated FIFO, LRU or Clock, and the Clock simulation ends.  The hypothesis
  \<open>paging_input\<close> says that there is a frame and that no page has the number \<open>-1\<close>, which the
  code uses for an empty frame.
\<close>

theorem opt_optimal:
  assumes "paging_input F sq"
  shows "simulate_opt F sq \<le> simulate_fifo F sq \<and> simulate_opt F sq \<le> simulate_lru F sq \<and>
    (\<exists>c. simulate_clock F sq = Some c \<and> simulate_opt F sq \<le> c)"
  using fifo_vs.opt_minimal [OF assms order_refl] lru_vs.opt_minimal [OF assms order_refl]
    clock_vs.opt_minimal [OF assms order_refl] simulate_clock_at [OF assms]
  by (simp add: simulate_at)

theorem opt_optimal_witness:
  "paging_input 3 belady_refs \<and> simulate_opt 3 belady_refs = 7 \<and>
   simulate_opt 3 belady_refs \<le> simulate_fifo 3 belady_refs"
proof -
  have inp: "paging_input 3 belady_refs" by (simp add: paging_input_def)
  moreover have "simulate_opt 3 belady_refs = 7" by code_simp
  ultimately show ?thesis using opt_optimal [OF inp] by simp
qed

text \<open>
  C23. Every simulated algorithm faults at least once for each different page and at most once per
  reference; with at least as many frames as different pages the count is exactly the number of
  different pages.
\<close>

theorem fault_bounds:
  assumes "paging_input F sq"
  shows "\<exists>c. simulate_clock F sq = Some c \<and>
    (\<forall>x \<in> {simulate_opt F sq, simulate_fifo F sq, simulate_lru F sq, c}.
       card (set (refs sq)) \<le> x \<and> x \<le> seq_n sq \<and>
       (card (set (refs sq)) \<le> F \<longrightarrow> x = card (set (refs sq))))"
proof -
  note inst = assms order_refl
  note low = opt.compulsory_faults [OF inst] fifo.compulsory_faults [OF inst]
    lru.compulsory_faults [OF inst] clock.compulsory_faults [OF inst]
  note high = opt.faults_le [OF inst] fifo.faults_le [OF inst]
    lru.faults_le [OF inst] clock.faults_le [OF inst]
  note exact = opt.enough_frames [OF assms _ order_refl] fifo.enough_frames [OF assms _ order_refl]
    lru.enough_frames [OF assms _ order_refl] clock.enough_frames [OF assms _ order_refl]
  show ?thesis using low high exact simulate_clock_at [OF assms]
    by (simp add: simulate_at)
qed

theorem fault_bounds_witness:
  "paging_input 5 belady_refs \<and> simulate_clock 5 belady_refs = Some 5"
proof -
  have inp: "paging_input 5 belady_refs" by (simp add: paging_input_def)
  have "card (set (refs belady_refs)) = 5" by code_simp
  then show ?thesis using inp fault_bounds [OF inp] by auto
qed

text \<open>
  C24. The timestamp array of \<open>simulate_lru\<close> keeps exactly the \<open>F\<close> most recently used pages
  resident, before every reference.
\<close>

theorem lru_keeps_most_recent:
  assumes "paging_input F sq" and "k \<le> seq_n sq"
  shows "lru_resident F sq k = set (take F (mru_at sq k))"
  using assms by (rule lru_resident_mru)

theorem lru_keeps_most_recent_witness:
  "paging_input 3 belady_refs \<and> lru_resident 3 belady_refs 7 = {5, 2, 1}"
proof -
  have inp: "paging_input 3 belady_refs" by (simp add: paging_input_def)
  have "mru_at belady_refs 7 = [5, 2, 1, 4, 3]" by code_simp
  then show ?thesis using inp lru_keeps_most_recent [OF inp, of 7] by (simp add: numeral_3_eq_3)
qed

text \<open>
  C25. LRU has no Belady anomaly: more frames never give more faults.
\<close>

theorem lru_no_anomaly:
  assumes "paging_input F sq" and "F \<le> F'"
  shows "simulate_lru F' sq \<le> simulate_lru F sq"
  using lru_faults_antimono [OF assms order_refl] by (simp add: simulate_at)

theorem lru_no_anomaly_witness:
  "simulate_lru 3 belady_refs = 10 \<and> simulate_lru 4 belady_refs \<le> 10"
proof -
  have "simulate_lru 3 belady_refs = 10" by code_simp
  then show ?thesis using lru_no_anomaly [of 3 belady_refs 4] by (simp add: paging_input_def)
qed

text \<open>
  C26. The circular index of \<open>simulate_fifo\<close> refines a queue: the array read from the index is
  the list of resident pages in the order they were loaded, and a fault with all frames in use
  drops its head.
\<close>

theorem fifo_refines_queue:
  assumes "paging_input F sq" and "k < seq_n sq"
  shows "fifo_abs F (fifo_at F sq k) = queue_at F sq k \<and>
    fifo_abs F (fifo_step F sq k (fifo_at F sq k)) =
      queue_step F (refs sq ! k) (queue_at F sq k)"
  using fifo_run_queue [OF assms(1), of k] fifo_step_queue [OF assms fifo_inv_run [OF assms(1), of k]]
    assms(2) by simp

theorem fifo_refines_queue_witness:
  "queue_at 3 belady_refs 4 = [2, 3, 4] \<and> fifo_abs 3 (fifo_at 3 belady_refs 4) = [2, 3, 4]"
proof -
  have "queue_at 3 belady_refs 4 = [2, 3, 4]" by code_simp
  then show ?thesis using fifo_refines_queue [of 3 belady_refs 4] by (simp add: paging_input_def)
qed

text \<open>
  C27. Second chance: with at least one frame the hand of \<open>simulate_clock\<close> always stops.  It
  passes over \<open>m\<close> frames, all of which had their reference bit set and now have it clear, and
  replaces the frame it stops at, which had its bit clear unless the hand went all the way round.
\<close>

theorem clock_second_chance:
  assumes "0 < F" and "length (clock_refb s) = F" and "clock_hand s < F"
  shows "\<exists>m \<le> F. \<exists>v. v = (clock_hand s + m) mod F \<and>
    (\<forall>j < m. clock_refb s ! ((clock_hand s + j) mod F) \<noteq> 0) \<and>
    (m < F \<longrightarrow> clock_refb s ! v = 0) \<and>
    clock_replace F p s =
      Some (s\<lparr>clock_frames := (clock_frames s)[v := p],
              clock_refb := (clear_bits F (clock_hand s) m (clock_refb s))[v := 1],
              clock_hand := (clock_hand s + m + 1) mod F\<rparr>)"
proof -
  have "set_bits (clock_refb s) \<subseteq> {..<F}" using assms(2) by (auto simp: set_bits_def)
  then have "card (set_bits (clock_refb s)) \<le> F" using card_mono [of "{..<F}"] by fastforce
  then show ?thesis using clock_replace_result [OF assms, of p] by (meson order_trans)
qed

theorem clock_second_chance_witness:
  "\<exists>s'. clock_replace 3 9 \<lparr>clock_frames = [4, 5, 6], clock_refb = [0, 1, 1], clock_faults = 4,
                         clock_hand = 1, clock_filled = 3\<rparr> = Some s' \<and> clock_frames s' ! 0 = 9"
proof -
  let ?s = "\<lparr>clock_frames = [4, 5, 6], clock_refb = [0, 1, 1], clock_faults = 4,
             clock_hand = 1, clock_filled = 3\<rparr>"
  obtain s' where "clock_replace 3 9 ?s = Some s'"
    using clock_second_chance [of 3 ?s 9] by auto
  moreover have "map_option (\<lambda>s. clock_frames s ! 0) (clock_replace 3 9 ?s) = Some 9" by code_simp
  ultimately show ?thesis by simp
qed

text \<open>
  C28. The whole program on a well-formed input file, one number per line with a frame count
  between 1 and \<open>MAX_FRAMES\<close>: it reads back exactly the pages written in the file, ends, exits
  with status 0, prints the four counts in the order OPT, FIFO, LRU, Clock and prints no error.
\<close>

theorem paging_main_output:
  assumes "0 < F" and "int F \<le> MAX_FRAMES" and "\<forall>y \<in> set ys. is_int32 y"
    and "files path = Some (concat (map (\<lambda>y. show_d y @ [newline]) (int F # ys)))"
  shows "\<exists>c. simulate_clock F \<lparr>refs = ys\<rparr> = Some c \<and>
    paging_main [prog, path] files =
      Inr \<lparr>exit_status = 0,
           stdout =
             print_result ''Optimal Algorithm:'' (int (simulate_opt F \<lparr>refs = ys\<rparr>)) (int (length ys)) @
             print_result ''FIFO Algorithm:'' (int (simulate_fifo F \<lparr>refs = ys\<rparr>)) (int (length ys)) @
             print_result ''LRU Algorithm:'' (int (simulate_lru F \<lparr>refs = ys\<rparr>)) (int (length ys)) @
             print_result ''Clock Algorithm:'' (int c) (int (length ys)),
           stderr = []\<rparr>"
proof -
  let ?rest = "newline # concat (map (\<lambda>y. show_d y @ [newline]) ys)"
  have "is_int32 (int F)" using assms(2) by (simp add: is_int32_def int_min_def int_max_def MAX_FRAMES_def)
  then have scan: "scan_d (show_d (int F) @ ?rest) = Some (int F, ?rest)"
    by (intro scan_d_show_d) auto
  have "read_refs 128 [] ?rest = read_refs 128 [] (concat (map (\<lambda>y. show_d y @ [newline]) ys))"
    by (subst (1 2) read_refs.simps) (simp add: scan_d_skip_space)
  also have "\<dots> = Inr ys" using read_refs_printed [of "[]" 128 ys] assms(3) by simp
  finally have "read_input (files path) =
      Inr \<lparr>ri_ret = 0, ri_frames = Some (int F), ri_seq = \<lparr>refs = ys\<rparr>, ri_err = []\<rparr>"
    using assms scan by (simp add: read_input_def)
  then show ?thesis using simulate_clock_total [OF assms(1), of "\<lparr>refs = ys\<rparr>"]
    by (auto simp: paging_main_def Let_def)
qed

theorem paging_main_output_witness:
  "\<exists>r. paging_main [''sim'', ''in''] [''in'' \<mapsto> concat (map (\<lambda>y. show_d y @ [newline]) [3, 7, 8, 7])]
      = Inr r \<and> exit_status r = 0 \<and> stderr r = []"
  using paging_main_output [of 3 "[7, 8, 7]"
      "[''in'' \<mapsto> concat (map (\<lambda>y. show_d y @ [newline]) [3, 7, 8, 7])]" "''in''" "''sim''"]
  by (auto simp: MAX_FRAMES_def is_int32_def int_min_def int_max_def)

text \<open>
  A frame count outside 1 to \<open>MAX_FRAMES\<close> is reported on standard error, but \<open>main\<close> ignores
  the result of \<open>read_input\<close>: it goes on with an empty reference string, prints four reports of
  zero faults and exits with status 0.
\<close>

lemma paging_main_bad_frames:
  assumes "files path = Some text" and "scan_d text = Some (frames, rest)"
    and "frames \<le> 0 \<or> MAX_FRAMES < frames"
  shows "paging_main [prog, path] files =
      Inr \<lparr>exit_status = 0,
           stdout = print_result ''Optimal Algorithm:'' 0 0 @ print_result ''FIFO Algorithm:'' 0 0 @
                    print_result ''LRU Algorithm:'' 0 0 @ print_result ''Clock Algorithm:'' 0 0,
           stderr = ''Wrong input 2'' @ [newline]\<rparr>"
  using assms
  by (simp add: paging_main_def read_input_def simulate_clock_empty simulate_opt_def
      simulate_fifo_def simulate_lru_def opt_init_def fifo_init_def lru_init_def Let_def)

subsection \<open>Two observations on the simulators\<close>

text \<open>A reference to page \<open>-1\<close> is taken for a hit on an empty frame by all four simulators.\<close>

lemma minus_one_never_faults:
  "simulate_opt 2 \<lparr>refs = [- 1]\<rparr> = 0" "simulate_fifo 2 \<lparr>refs = [- 1]\<rparr> = 0"
  "simulate_lru 2 \<lparr>refs = [- 1]\<rparr> = 0" "simulate_clock 2 \<lparr>refs = [- 1]\<rparr> = Some 0"
  by code_simp+

text \<open>FIFO, unlike LRU, can fault more often with more frames.\<close>

lemma fifo_anomaly:
  "simulate_fifo 3 belady_refs = 9" "simulate_fifo 4 belady_refs = 10"
  by code_simp+

end
