(* ===== verification/Fat.thy ===== *)
theory Fat
  imports C_Stdio
begin

section \<open>The FAT file system (Assignment4-2)\<close>

text \<open>
  The operations of \<^verbatim>\<open>fat.c\<close>.  The global \<open>myfat\<close> is a record passed from call to
  call.  Its fixed-size arrays are functions of the index; an access outside the array, which the
  C program may do on a corrupt image, is the fault \<^const>\<open>Out_Of_Bounds\<close>.  A name is the text
  before its terminating zero byte.  Every operation returns its \<open>int\<close> result, what it prints
  and the new state.
\<close>

definition MAX_FILE_NUM :: nat where "MAX_FILE_NUM = 100"
definition NUM_BLOCKS :: nat where "NUM_BLOCKS = 1024"
definition BLOCK_SIZE :: nat where "BLOCK_SIZE = 32"
definition MAX_FILE_NAME :: nat where "MAX_FILE_NAME = 100"

text \<open>\<open>0xFFFF\<close> marks the last block of a file, \<open>0\<close> a free block.\<close>

definition FAT_EOF :: int where "FAT_EOF = 65535"

definition NUL :: char where "NUL = CHR 0x00"

record FileEntry =
  filename :: string
  start_block :: int
  fsize :: int

record FileSystem =
  fat_table :: "nat \<Rightarrow> int"
  directory :: "nat \<Rightarrow> FileEntry"
  data_area :: "nat \<Rightarrow> char"

text \<open>C's remainder, which takes the sign of the dividend.\<close>

definition c_rem :: "int \<Rightarrow> int \<Rightarrow> int" where
  "c_rem a b = (if a < 0 then - (\<bar>a\<bar> mod \<bar>b\<bar>) else a mod \<bar>b\<bar>)"

definition block_ok :: "int \<Rightarrow> bool" where
  "block_ok b \<longleftrightarrow> 0 \<le> b \<and> b < int NUM_BLOCKS"

text \<open>\<open>myfat.fat_table[block]\<close>\<close>

definition fat_get :: "FileSystem \<Rightarrow> int \<Rightarrow> int outcome" where
  "fat_get fs b = (if block_ok b then Inr (fat_table fs (nat b)) else Inl Out_Of_Bounds)"

definition fat_set :: "FileSystem \<Rightarrow> nat \<Rightarrow> int \<Rightarrow> FileSystem" where
  "fat_set fs b v = fs\<lparr>fat_table := (fat_table fs)(b := v)\<rparr>"

definition dir_set :: "FileSystem \<Rightarrow> nat \<Rightarrow> FileEntry \<Rightarrow> FileSystem" where
  "dir_set fs i e = fs\<lparr>directory := (directory fs)(i := e)\<rparr>"

text \<open>\<open>memcpy (&myfat.data_area[at], bytes, length bytes)\<close>\<close>

definition data_put :: "FileSystem \<Rightarrow> int \<Rightarrow> string \<Rightarrow> FileSystem outcome" where
  "data_put fs at' bytes =
     (if 0 \<le> at' \<and> at' + int (length bytes) \<le> int (NUM_BLOCKS * BLOCK_SIZE) then
        Inr (fs\<lparr>data_area := (\<lambda>i. if nat at' \<le> i \<and> i < nat at' + length bytes
                                 then bytes ! (i - nat at') else data_area fs i)\<rparr>)
      else Inl Out_Of_Bounds)"

subsection \<open>Searching, saving and loading\<close>

definition find_free_block :: "FileSystem \<Rightarrow> int" where
  "find_free_block fs = index_or_minus1 (for_first 0 NUM_BLOCKS (\<lambda>i. fat_table fs i = 0))"

text \<open>The first directory slot whose name equals \<open>name\<close>, by \<open>strcmp\<close>.\<close>

definition find_entry :: "FileSystem \<Rightarrow> string \<Rightarrow> nat option" where
  "find_entry fs name = for_first 0 MAX_FILE_NUM (\<lambda>i. filename (directory fs i) = name)"

text \<open>\<open>memset (&myfat, 0, sizeof (FileSystem))\<close>\<close>

definition fresh_fs :: FileSystem where
  "fresh_fs = \<lparr>fat_table = (\<lambda>_. 0),
               directory = (\<lambda>_. \<lparr>filename = [], start_block = 0, fsize = 0\<rparr>),
               data_area = (\<lambda>_. NUL)\<rparr>"

text \<open>The state file: its image if it exists.  \<open>writable\<close> says whether it can be opened for writing.\<close>

type_synonym disk = "FileSystem option"

definition save_file_system :: "bool \<Rightarrow> FileSystem \<Rightarrow> disk \<Rightarrow> string \<times> disk" where
  "save_file_system writable fs disk =
     (if \<not> writable then (''Error : can't save file system state.'' @ [newline], disk)
      else ([], Some fs))"

definition load_file_system :: "disk \<Rightarrow> string \<times> FileSystem" where
  "load_file_system disk =
     (case disk of
        None \<Rightarrow> (''Warning : No saved state found. Starting fresh.'' @ [newline], fresh_fs)
      | Some fs \<Rightarrow> ([], fs))"

subsection \<open>Creating a file\<close>

text \<open>
  The second loop looks for an empty slot and, inside it, for a free block; a slot without a free
  block is passed over.  \<open>strcpy\<close> into the 100-byte name is in range for a shorter name only.
\<close>

definition create_file :: "string \<Rightarrow> FileSystem \<Rightarrow> (int \<times> string \<times> FileSystem) outcome" where
  "create_file name fs =
     (case find_entry fs name of
        Some _ \<Rightarrow> Inr (- 1, ''File '' @ [CHR 0x27] @ name @ [CHR 0x27] @ '' already exists.'' @ [newline], fs)
      | None \<Rightarrow>
          (case for_first 0 MAX_FILE_NUM (\<lambda>i. filename (directory fs i) = [] \<and>
                  for_first 0 NUM_BLOCKS (\<lambda>j. fat_table fs j = 0) \<noteq> None) of
             None \<Rightarrow> Inr (- 1, ''Error: Directory or Disk full.'' @ [newline], fs)
           | Some i \<Rightarrow>
               (case for_first 0 NUM_BLOCKS (\<lambda>j. fat_table fs j = 0) of
                  None \<Rightarrow> Inr (- 1, ''Error: Directory or Disk full.'' @ [newline], fs)
                | Some j \<Rightarrow>
                    if length name < MAX_FILE_NAME then
                      Inr (0, ''File '' @ [CHR 0x27] @ name @ [CHR 0x27] @ '' created.'' @ [newline],
                           dir_set (fat_set fs j FAT_EOF) i
                             \<lparr>filename = name, start_block = int j, fsize = 0\<rparr>)
                    else Inl Out_Of_Bounds)))"

subsection \<open>Appending to a file\<close>

text \<open>The walk towards the last block: \<open>while (remain >= BLOCK_SIZE && fat_table[block] != 0xFFFF)\<close>.\<close>

function write_walk :: "FileSystem \<Rightarrow> int \<Rightarrow> int \<Rightarrow> int outcome" where
  "write_walk fs block remain =
     (if int BLOCK_SIZE \<le> remain then
        (case fat_get fs block of
           Inl e \<Rightarrow> Inl e
         | Inr next \<Rightarrow>
             if next \<noteq> FAT_EOF then write_walk fs next (remain - int BLOCK_SIZE) else Inr block)
      else Inr block)"
  by pat_completeness auto
termination
  by (relation "measure (\<lambda>(fs, block, remain). nat remain)") (auto simp: BLOCK_SIZE_def)

text \<open>
  The writing loop.  \<open>bytes_written\<close> and \<open>data_offset\<close> of the source are always equal and are
  one variable here, \<open>w\<close>.  It ends with the state, the number of bytes written and what was
  printed, or with \<^term>\<open>None\<close> when it met a corrupt chain.
\<close>

definition write_block :: "FileSystem \<Rightarrow> int \<Rightarrow> int \<Rightarrow> (FileSystem \<times> int \<times> int) option" where
  "write_block fs block off =
     (if int BLOCK_SIZE - off \<le> 0 then
        let new_block = find_free_block fs in
        if new_block < 0 then None
        else Some (fat_set (fat_set fs (nat block) new_block) (nat new_block) FAT_EOF, new_block, 0)
      else Some (fs, block, off))"

definition write_amount :: "nat \<Rightarrow> nat \<Rightarrow> int \<Rightarrow> nat" where
  "write_amount len w off =
     nat (let space = int BLOCK_SIZE - off; remaining = int len - int w in
          if remaining < space then remaining else space)"

lemma write_block_room: "write_block fs b off = Some (fs', b', off') \<Longrightarrow> off' < int BLOCK_SIZE"
  by (auto simp: write_block_def Let_def BLOCK_SIZE_def split: if_splits)

lemma write_amount_pos: "w < len \<Longrightarrow> off < int BLOCK_SIZE \<Longrightarrow> 0 < write_amount len w off"
  by (simp add: write_amount_def Let_def)

lemma write_amount_progress:
  "w < len \<Longrightarrow> off < int BLOCK_SIZE \<Longrightarrow> len - (w + write_amount len w off) < len - w"
  using write_amount_pos [of w len off] by simp

function write_loop ::
  "string \<Rightarrow> string \<Rightarrow> FileSystem \<Rightarrow> int \<Rightarrow> int \<Rightarrow> nat \<Rightarrow>
   ((nat \<times> string) option \<times> FileSystem) outcome" where
  "write_loop name bytes fs block off w =
     (if w < length bytes then
        if \<not> block_ok block then Inr (None, fs)
        else
          (case write_block fs block off of
             None \<Rightarrow>
               Inr (Some (w, ''No more space in FAT table. Partial data append to '' @ name @
                                 ''.'' @ [newline]), fs)
           | Some (fs1, block1, off1) \<Rightarrow>
               let n = write_amount (length bytes) w off1 in
               (case data_put fs1 (block1 * int BLOCK_SIZE + off1) (take n (drop w bytes)) of
                  Inl e \<Rightarrow> Inl e
                | Inr fs2 \<Rightarrow> write_loop name bytes fs2 block1 (off1 + int n) (w + n)))
      else Inr (Some (w, []), fs))"
  by pat_completeness auto
termination
  by (relation "measure (\<lambda>(name, bytes, fs, block, off, w). length bytes - w)")
    (auto dest!: write_block_room intro: write_amount_progress)

definition write_file :: "string \<Rightarrow> string \<Rightarrow> FileSystem \<Rightarrow> (int \<times> string \<times> FileSystem) outcome" where
  "write_file name bytes fs =
     (case find_entry fs name of
        None \<Rightarrow> Inr (- 1, ''FILE '' @ name @ '' not found.'' @ [newline], fs)
      | Some i \<Rightarrow>
          let e = directory fs i; start = start_block e; file_size = fsize e in
          if \<not> block_ok start then
            Inr (- 1, ''File '' @ name @ '' has invalid start block.'' @ [newline], fs)
          else
            bind_outcome (write_walk fs start file_size) (\<lambda>block.
            bind_outcome (write_loop name bytes fs block (c_rem file_size (int BLOCK_SIZE)) 0)
              (\<lambda>(done, fs1).
                 case done of
                   None \<Rightarrow> Inr (- 1, ''FAT chain corrupt file '' @ name @ ''.'' @ [newline], fs1)
                 | Some (w, msg) \<Rightarrow>
                     Inr (0, msg @ ''Data written to '' @ [CHR 0x27] @ name @ [CHR 0x27] @ ''.'' @ [newline],
                          dir_set fs1 i ((directory fs1 i)\<lparr>fsize := file_size + int w\<rparr>)))))"

subsection \<open>Reading, deleting, listing\<close>

text \<open>\<open>printf ("%.*s", n, &myfat.data_area[at])\<close>: at most \<open>n\<close> bytes, up to a zero byte.\<close>

definition print_bytes :: "FileSystem \<Rightarrow> nat \<Rightarrow> nat \<Rightarrow> string" where
  "print_bytes fs at' n = takeWhile (\<lambda>c. c \<noteq> NUL) (map (data_area fs) [at'..<at' + n])"

text \<open>The reading loop: what it printed, and whether it ended without meeting a bad block number.\<close>

function read_loop :: "FileSystem \<Rightarrow> int \<Rightarrow> int \<Rightarrow> int \<Rightarrow> bool \<times> string" where
  "read_loop fs block bytes_read total_size =
     (if block \<noteq> FAT_EOF \<and> bytes_read < total_size then
        if \<not> block_ok block then (False, [])
        else
          let remaining = total_size - bytes_read;
              read_size = (if remaining < int BLOCK_SIZE then remaining else int BLOCK_SIZE);
              (ok, out) = read_loop fs (fat_table fs (nat block)) (bytes_read + read_size) total_size in
          (ok, print_bytes fs (nat block * BLOCK_SIZE) (nat read_size) @ out)
      else (True, []))"
  by pat_completeness auto
termination
  by (relation "measure (\<lambda>(fs, block, bytes_read, total_size). nat (total_size - bytes_read))")
    (auto simp: BLOCK_SIZE_def)

definition read_file :: "string \<Rightarrow> FileSystem \<Rightarrow> int \<times> string" where
  "read_file name fs =
     (case find_entry fs name of
        None \<Rightarrow> (- 1, ''File '' @ name @ '' not found.'' @ [newline])
      | Some i \<Rightarrow>
          let start = start_block (directory fs i); total_size = fsize (directory fs i) in
          if total_size = 0 then (0, ''file '' @ name @ '' is empty'' @ [newline])
          else if start = - 1 then
            (- 1, ''File '' @ name @ '' not initalized. Use create command first.'' @ [newline])
          else
            let (ok, out) = read_loop fs start 0 total_size;
                head = ''Content of '' @ [CHR 0x27] @ name @ [CHR 0x27] @ '' : '' in
            if ok then (0, head @ out @ [newline])
            else (- 1, head @ out @ ''FAT chain corrupt while read '' @ name @ ''.'' @ [newline]))"

text \<open>Releasing a chain: \<open>while (block != 0xFFFF)\<close>, which need not end.\<close>

partial_function (option) free_chain :: "FileSystem \<Rightarrow> int \<Rightarrow> FileSystem outcome option" where
  "free_chain fs block =
     (if block \<noteq> FAT_EOF then
        (case fat_get fs block of
           Inl e \<Rightarrow> Some (Inl e)
         | Inr next_block \<Rightarrow> free_chain (fat_set fs (nat block) 0) next_block)
      else Some (Inr fs))"

definition delete_file :: "string \<Rightarrow> FileSystem \<Rightarrow> (int \<times> string \<times> FileSystem) outcome" where
  "delete_file name fs =
     (case find_entry fs name of
        None \<Rightarrow> Inr (- 1, ''File '' @ name @ '' not found.'' @ [newline], fs)
      | Some i \<Rightarrow>
          (case free_chain fs (start_block (directory fs i)) of
             None \<Rightarrow> Inl Diverges
           | Some r \<Rightarrow>
               bind_outcome r (\<lambda>fs1.
                 Inr (0, ''File '' @ [CHR 0x27] @ name @ [CHR 0x27] @ '' deleted.'' @ [newline],
                      dir_set fs1 i ((directory fs1 i)\<lparr>filename := []\<rparr>)))))"

definition list_files :: "FileSystem \<Rightarrow> string" where
  "list_files fs =
     ''Files in the file system.'' @ [newline] @
     concat (map (\<lambda>i. if filename (directory fs i) \<noteq> [] then
                        ''File : '' @ filename (directory fs i) @ '', SIze: '' @
                        show_d (fsize (directory fs i)) @ '' bytes'' @ [newline]
                      else []) [0..<MAX_FILE_NUM])"

subsection \<open>The command line\<close>

definition execute_cmd ::
  "string \<Rightarrow> string option \<Rightarrow> string option \<Rightarrow> int \<Rightarrow> FileSystem \<Rightarrow> (string \<times> FileSystem) outcome" where
  "execute_cmd cmd fname dat num fs =
     (if cmd = ''create'' then
        (case fname of
           Some name \<Rightarrow>
             if num \<noteq> 3 then Inr (''Usage: create <filename>'' @ [newline], fs)
             else bind_outcome (create_file name fs) (\<lambda>(_, out, fs1). Inr (out, fs1))
         | None \<Rightarrow> Inr (''Usage: create <filename>'' @ [newline], fs))
      else if cmd = ''write'' then
        (case (fname, dat) of
           (Some name, Some bytes) \<Rightarrow>
             if num \<noteq> 4 then Inr (''Usage : write <filename> <data>'' @ [newline], fs)
             else bind_outcome (write_file name bytes fs) (\<lambda>(_, out, fs1). Inr (out, fs1))
         | (Some name, None) \<Rightarrow>
             if num \<noteq> 4 then Inr (''Usage : write <filename> <data>'' @ [newline], fs)
             else Inl Null_Pointer
         | (None, _) \<Rightarrow> Inr (''Usage : write <filename> <data>'' @ [newline], fs))
      else if cmd = ''read'' then
        (case fname of
           Some name \<Rightarrow>
             if num \<noteq> 3 then Inr (''Usage : read <filename>'' @ [newline], fs)
             else Inr (snd (read_file name fs), fs)
         | None \<Rightarrow> Inr (''Usage : read <filename>'' @ [newline], fs))
      else if cmd = ''delete'' then
        (case fname of
           Some name \<Rightarrow>
             if num \<noteq> 3 then Inr (''Usage : delete <filename>'' @ [newline], fs)
             else bind_outcome (delete_file name fs) (\<lambda>(_, out, fs1). Inr (out, fs1))
         | None \<Rightarrow> Inr (''Usage : delete <filename>'' @ [newline], fs))
      else if cmd = ''list'' then Inr (list_files fs, fs)
      else Inr (''Invalid command.'' @ [newline], fs))"

text \<open>\<open>argv[i]\<close>, a null pointer from \<open>argc\<close> on.\<close>

definition arg :: "string list \<Rightarrow> nat \<Rightarrow> string option" where
  "arg argv i = (if i < length argv then Some (argv ! i) else None)"

text \<open>One run of the program: exit status, output and the state file afterwards.\<close>

definition fat_main :: "bool \<Rightarrow> string list \<Rightarrow> disk \<Rightarrow> (int \<times> string \<times> disk) outcome" where
  "fat_main writable argv disk =
     (if length argv \<le> 1 then
        Inr (1, ''USAGE : ./fat <COMMAND> [ARGS]...'' @ [newline], disk)
      else
        let (out1, fs) = load_file_system disk in
        bind_outcome (execute_cmd (argv ! 1) (arg argv 2) (arg argv 3) (int (length argv)) fs)
          (\<lambda>(out2, fs1).
             let (out3, disk1) = save_file_system writable fs1 disk in
             Inr (0, out1 @ out2 @ out3, disk1)))"

declare write_walk.simps [simp del] write_loop.simps [simp del] read_loop.simps [simp del]

end
