(* ===== verification/Fat_Chain.thy ===== *)
theory Fat_Chain
  imports Fat
begin

section \<open>Block chains, the file system invariant and its abstraction\<close>

text \<open>
  The relational list abstraction of a FAT chain, the bytes of a block and of a chain, the
  invariant \<open>fs_inv\<close> of a well-formed file system and the abstraction \<open>abs_fs\<close> from names to
  contents.  The loops that follow chains are related to them here, once for all operations.
\<close>

primrec chain :: "(nat \<Rightarrow> int) \<Rightarrow> int \<Rightarrow> nat list \<Rightarrow> bool" where
  "chain fat b [] \<longleftrightarrow> b = FAT_EOF"
| "chain fat b (n # ns) \<longleftrightarrow> b = int n \<and> n < NUM_BLOCKS \<and> chain fat (fat n) ns"

definition block_bytes :: "FileSystem \<Rightarrow> nat \<Rightarrow> string" where
  "block_bytes fs b = map (data_area fs) [b * BLOCK_SIZE..<b * BLOCK_SIZE + BLOCK_SIZE]"

definition chain_bytes :: "FileSystem \<Rightarrow> nat list \<Rightarrow> string" where
  "chain_bytes fs ns = concat (map (block_bytes fs) ns)"

text \<open>A file has one block when it is empty, and otherwise as many as its bytes need.\<close>

definition blocks_for :: "nat \<Rightarrow> nat" where
  "blocks_for sz = (if sz = 0 then 1 else (sz + BLOCK_SIZE - 1) div BLOCK_SIZE)"

definition live :: "FileSystem \<Rightarrow> nat \<Rightarrow> bool" where
  "live fs i \<longleftrightarrow> i < MAX_FILE_NUM \<and> filename (directory fs i) \<noteq> []"

abbreviation entry_size :: "FileSystem \<Rightarrow> nat \<Rightarrow> nat" where
  "entry_size fs i \<equiv> nat (fsize (directory fs i))"

text \<open>
  The invariant, for the assignment \<open>ch\<close> of chains to directory slots: every live slot heads a
  chain of the right length holding no zero byte in the file's part, live slots have different
  names and disjoint chains, and a block is marked free exactly when no chain holds it.
\<close>

definition fs_inv :: "FileSystem \<Rightarrow> (nat \<Rightarrow> nat list) \<Rightarrow> bool" where
  "fs_inv fs ch \<longleftrightarrow>
     (\<forall>i. live fs i \<longrightarrow>
        chain (fat_table fs) (start_block (directory fs i)) (ch i) \<and>
        0 \<le> fsize (directory fs i) \<and> length (ch i) = blocks_for (entry_size fs i) \<and>
        NUL \<notin> set (take (entry_size fs i) (chain_bytes fs (ch i)))) \<and>
     (\<forall>i j. live fs i \<and> live fs j \<and> i \<noteq> j \<longrightarrow>
        filename (directory fs i) \<noteq> filename (directory fs j) \<and> set (ch i) \<inter> set (ch j) = {}) \<and>
     (\<forall>b < NUM_BLOCKS. fat_table fs b \<noteq> 0 \<longleftrightarrow> (\<exists>i. live fs i \<and> b \<in> set (ch i)))"

definition fs_ok :: "FileSystem \<Rightarrow> bool" where
  "fs_ok fs \<longleftrightarrow> (\<exists>ch. fs_inv fs ch)"

text \<open>What a user sees: the contents of each file, by name, as \<open>read\<close> prints them.\<close>

definition abs_fs :: "FileSystem \<Rightarrow> string \<rightharpoonup> string" where
  "abs_fs fs name =
     (if name = [] then None
      else case find_entry fs name of
             None \<Rightarrow> None
           | Some i \<Rightarrow> Some (snd (read_loop fs (start_block (directory fs i)) 0
                                     (fsize (directory fs i)))))"

subsection \<open>Chains\<close>

lemma FAT_EOF_not_block: "n < NUM_BLOCKS \<Longrightarrow> int n \<noteq> FAT_EOF"
  by (simp add: FAT_EOF_def NUM_BLOCKS_def)

lemma block_ok_int: "block_ok (int n) \<longleftrightarrow> n < NUM_BLOCKS"
  by (simp add: block_ok_def)

lemma chain_upd [simp]: "n \<notin> set ns \<Longrightarrow> chain (fat(n := v)) b ns = chain fat b ns"
  by (induction ns arbitrary: b) auto

lemma chain_cong: "(\<And>n. n \<in> set ns \<Longrightarrow> fat' n = fat n) \<Longrightarrow> chain fat' b ns = chain fat b ns"
  by (induction ns arbitrary: b) auto

lemma chain_blocks: "chain fat b ns \<Longrightarrow> n \<in> set ns \<Longrightarrow> n < NUM_BLOCKS"
  by (induction ns arbitrary: b) auto

lemma chain_unique: "chain fat b ns \<Longrightarrow> chain fat b ms \<Longrightarrow> ns = ms"
proof (induction ns arbitrary: b ms)
  case Nil
  then show ?case using FAT_EOF_not_block by (cases ms) force+
next
  case (Cons n ns)
  then show ?case using FAT_EOF_not_block by (cases ms) force+
qed

lemma chain_suffix: "chain fat b (ns @ n # ms) \<Longrightarrow> chain fat (int n) (n # ms)"
  by (induction ns arbitrary: b) auto

lemma chain_distinct: "chain fat b ns \<Longrightarrow> distinct ns"
proof (induction ns arbitrary: b)
  case (Cons n ns)
  have "n \<notin> set ns"
  proof
    assume "n \<in> set ns"
    then obtain xs ys where ns: "ns = xs @ n # ys" by (meson split_list)
    have "chain fat (int n) (n # xs @ n # ys)" using Cons.prems ns by auto
    moreover have "chain fat (int n) (n # ys)"
      using Cons.prems ns chain_suffix [of fat b "n # xs" n ys] by simp
    ultimately have "n # xs @ n # ys = n # ys" by (rule chain_unique)
    then have "length (n # xs @ n # ys) = length (n # ys)" by (rule arg_cong)
    then show False by simp
  qed
  then show ?case using Cons by auto
qed simp

lemma chain_last_EOF: "chain fat b ns \<Longrightarrow> ns \<noteq> [] \<Longrightarrow> fat (last ns) = FAT_EOF"
  by (induction ns arbitrary: b) (auto split: if_splits)

lemma chain_head: "chain fat b ns \<Longrightarrow> ns \<noteq> [] \<Longrightarrow> b = int (hd ns)"
  by (cases ns) auto

text \<open>Linking a new block behind the last one.\<close>

lemma chain_extend:
  assumes "chain fat b ns" and "ns \<noteq> []" and "nb \<notin> set ns" and "nb < NUM_BLOCKS"
  shows "chain (fat(last ns := int nb, nb := FAT_EOF)) b (ns @ [nb])"
  using assms
proof (induction ns arbitrary: b)
  case (Cons n ns)
  show ?case
  proof (cases "ns = []")
    case True
    then show ?thesis using Cons.prems by auto
  next
    case False
    have "n \<notin> set ns" using chain_distinct [OF Cons.prems(1)] by simp
    then have "last ns \<noteq> n" using False by (metis last_in_set)
    then show ?thesis using Cons False by auto
  qed
qed simp

subsection \<open>Bytes\<close>

lemma length_block_bytes [simp]: "length (block_bytes fs b) = BLOCK_SIZE"
  by (simp add: block_bytes_def)

lemma chain_bytes_simps [simp]:
  "chain_bytes fs [] = []" "chain_bytes fs (n # ns) = block_bytes fs n @ chain_bytes fs ns"
  "chain_bytes fs (ns @ ms) = chain_bytes fs ns @ chain_bytes fs ms"
  by (simp_all add: chain_bytes_def)

lemma length_chain_bytes [simp]: "length (chain_bytes fs ns) = BLOCK_SIZE * length ns"
  by (induction ns) auto

lemma chain_bytes_cong:
  "(\<And>n. n \<in> set ns \<Longrightarrow> block_bytes fs' n = block_bytes fs n) \<Longrightarrow>
   chain_bytes fs' ns = chain_bytes fs ns"
  by (induction ns) auto

lemma block_bytes_updates [simp]:
  "block_bytes (fat_set fs b v) n = block_bytes fs n"
  "block_bytes (dir_set fs i e) n = block_bytes fs n"
  "block_bytes (fs\<lparr>fat_table := fat\<rparr>) n = block_bytes fs n"
  by (simp_all add: block_bytes_def fat_set_def dir_set_def)

lemma chain_bytes_updates [simp]:
  "chain_bytes (fat_set fs b v) ns = chain_bytes fs ns"
  "chain_bytes (dir_set fs i e) ns = chain_bytes fs ns"
  "chain_bytes (fs\<lparr>fat_table := fat\<rparr>) ns = chain_bytes fs ns"
  by (rule chain_bytes_cong, simp)+

lemma update_simps [simp]:
  "directory (fat_set fs b v) = directory fs" "fat_table (dir_set fs i e) = fat_table fs"
  "fat_table (fat_set fs b v) = (fat_table fs)(b := v)"
  "directory (dir_set fs i e) = (directory fs)(i := e)"
  by (simp_all add: fat_set_def dir_set_def)

lemma blocks_for_bounds:
  "0 < blocks_for sz" "sz \<le> BLOCK_SIZE * blocks_for sz"
  "0 < sz \<Longrightarrow> BLOCK_SIZE * (blocks_for sz - 1) < sz"
  by (auto simp: blocks_for_def BLOCK_SIZE_def)

lemma blocks_for_unique:
  assumes "sz \<le> BLOCK_SIZE * n" and "BLOCK_SIZE * (n - 1) < sz" and "0 < n"
  shows "blocks_for sz = n"
  using assms by (auto simp: blocks_for_def BLOCK_SIZE_def)

subsection \<open>The loops that follow a chain\<close>

lemma takeWhile_no_NUL: "NUL \<notin> set xs \<Longrightarrow> takeWhile (\<lambda>c. c \<noteq> NUL) xs = xs"
  by (auto simp: takeWhile_eq_all_conv)

lemma print_bytes_prefix:
  "n \<le> BLOCK_SIZE \<Longrightarrow> print_bytes fs (b * BLOCK_SIZE) n =
     takeWhile (\<lambda>c. c \<noteq> NUL) (take n (block_bytes fs b))"
  by (simp add: print_bytes_def block_bytes_def take_map)

lemma read_loop_chain:
  assumes "chain (fat_table fs) b ns" and "r \<le> sz"
    and "NUL \<notin> set (take (sz - r) (chain_bytes fs ns))"
  shows "read_loop fs b (int r) (int sz) = (True, take (sz - r) (chain_bytes fs ns))"
  using assms
proof (induction ns arbitrary: b r)
  case Nil
  then show ?case by (subst read_loop.simps) simp
next
  case (Cons n ns)
  have b: "b = int n" "n < NUM_BLOCKS" and rest: "chain (fat_table fs) (fat_table fs n) ns"
    using Cons.prems by auto
  show ?case
  proof (cases "r < sz")
    case False
    then show ?thesis using Cons.prems by (subst read_loop.simps) simp
  next
    case True
    define m where "m = min (sz - r) BLOCK_SIZE"
    have m: "r + m \<le> sz" "m \<le> BLOCK_SIZE"
      using Cons.prems True by (auto simp: m_def)
    have split: "take (sz - r) (chain_bytes fs (n # ns)) =
        take m (block_bytes fs n) @ take (sz - (r + m)) (chain_bytes fs ns)"
      by (auto simp: m_def min_def)
    have no_nul: "NUL \<notin> set (take m (block_bytes fs n))"
      "NUL \<notin> set (take (sz - (r + m)) (chain_bytes fs ns))"
      using Cons.prems(3) unfolding split by auto
    have IH: "read_loop fs (fat_table fs n) (int (r + m)) (int sz) =
        (True, take (sz - (r + m)) (chain_bytes fs ns))"
      by (rule Cons.IH [OF rest m(1) no_nul(2)])
    have size: "(if int sz - int r < int BLOCK_SIZE then int sz - int r else int BLOCK_SIZE) = int m"
      using True by (auto simp: m_def)
    have "read_loop fs b (int r) (int sz) =
        (True, print_bytes fs (n * BLOCK_SIZE) m @ take (sz - (r + m)) (chain_bytes fs ns))"
      using True b IH FAT_EOF_not_block [OF b(2)]
      by (subst read_loop.simps) (simp add: size block_ok_int Let_def)
    then show ?thesis
      using split print_bytes_prefix [OF m(2)] takeWhile_no_NUL [OF no_nul(1)] by simp
  qed
qed

lemma write_walk_last:
  assumes "chain (fat_table fs) b ns" and "ns \<noteq> []" and "BLOCK_SIZE * (length ns - 1) \<le> sz"
  shows "write_walk fs b (int sz) = Inr (int (last ns))"
  using assms
proof (induction ns arbitrary: b sz)
  case (Cons n ns)
  have b: "b = int n" "n < NUM_BLOCKS" and rest: "chain (fat_table fs) (fat_table fs n) ns"
    using Cons.prems by auto
  have get: "fat_get fs b = Inr (fat_table fs n)" using b by (simp add: fat_get_def block_ok_int)
  show ?case
  proof (cases "ns = []")
    case True
    then show ?thesis using b get rest by (subst write_walk.simps) simp
  next
    case False
    then have sz: "BLOCK_SIZE \<le> sz" "BLOCK_SIZE * (length ns - 1) \<le> sz - BLOCK_SIZE"
      using Cons.prems(3) by (cases ns; simp)+
    have "fat_table fs n \<noteq> FAT_EOF"
      using rest False FAT_EOF_not_block by (cases ns) auto
    then have "write_walk fs b (int sz) = write_walk fs (fat_table fs n) (int (sz - BLOCK_SIZE))"
      using sz(1) get by (subst write_walk.simps) (simp add: of_nat_diff)
    then show ?thesis using Cons.IH [OF rest False sz(2)] False by simp
  qed
qed simp

lemma free_chain_chain:
  "chain (fat_table fs) b ns \<Longrightarrow> free_chain fs b =
     Some (Inr (fs\<lparr>fat_table := (\<lambda>n. if n \<in> set ns then 0 else fat_table fs n)\<rparr>))"
proof (induction ns arbitrary: fs b)
  case Nil
  then show ?case by (subst free_chain.simps) simp
next
  case (Cons n ns)
  have b: "b = int n" "n < NUM_BLOCKS" and rest: "chain (fat_table fs) (fat_table fs n) ns"
    and notin: "n \<notin> set ns"
    using Cons.prems chain_distinct [OF Cons.prems] by auto
  let ?fs = "fat_set fs n 0"
  have "chain (fat_table ?fs) (fat_table fs n) ns" using rest notin by simp
  from Cons.IH [OF this] show ?case
    using b FAT_EOF_not_block [OF b(2)]
    by (subst free_chain.simps)
      (auto simp: fat_get_def block_ok_int fat_set_def fun_eq_iff intro!: arg_cong [of _ _ Inr])
qed

end
