(* ===== verification/Fat_Write.thy ===== *)
theory Fat_Write
  imports Fat_Chain
begin

section \<open>The appending loop of \<open>write_file\<close>\<close>

text \<open>
  The invariant \<open>appending\<close> of the writing loop relates the current state to the one the loop
  started in: the chain has grown by the blocks \<open>xs\<close>, which were free, and the bytes from the
  block the loop started in are the old ones followed by what has been written so far.
\<close>

text \<open>Writing inside one block.\<close>

lemma data_put_block:
  assumes "b < NUM_BLOCKS" and "off + length s \<le> BLOCK_SIZE"
  obtains fs' where "data_put fs (int b * int BLOCK_SIZE + int off) s = Inr fs'"
    and "fat_table fs' = fat_table fs" and "directory fs' = directory fs"
    and "block_bytes fs' b = take off (block_bytes fs b) @ s @ drop (off + length s) (block_bytes fs b)"
    and "\<And>c. c \<noteq> b \<Longrightarrow> block_bytes fs' c = block_bytes fs c"
proof -
  let ?at = "b * BLOCK_SIZE + off"
  let ?fs = "fs\<lparr>data_area := (\<lambda>i. if ?at \<le> i \<and> i < ?at + length s then s ! (i - ?at)
                                  else data_area fs i)\<rparr>"
  have "b * BLOCK_SIZE + BLOCK_SIZE \<le> NUM_BLOCKS * BLOCK_SIZE"
    using assms(1) mult_le_mono1 [of "Suc b" NUM_BLOCKS BLOCK_SIZE] by simp
  then have "int ?at + int (length s) \<le> int (NUM_BLOCKS * BLOCK_SIZE)" using assms(2) by linarith
  then have put: "data_put fs (int b * int BLOCK_SIZE + int off) s = Inr ?fs"
    unfolding data_put_def of_nat_mult [symmetric] of_nat_add [symmetric] nat_int by simp
  have same: "block_bytes ?fs b =
      take off (block_bytes fs b) @ s @ drop (off + length s) (block_bytes fs b)"
    using assms(2) by (intro nth_equalityI) (auto simp: block_bytes_def nth_append)
  have other: "block_bytes ?fs c = block_bytes fs c" if "c \<noteq> b" for c
  proof -
    have "\<not> (?at \<le> i \<and> i < ?at + length s)"
      if i: "i \<in> set [c * BLOCK_SIZE..<c * BLOCK_SIZE + BLOCK_SIZE]" for i
    proof (cases "c < b")
      case True
      then have "c * BLOCK_SIZE + BLOCK_SIZE \<le> b * BLOCK_SIZE"
        using mult_le_mono1 [of "Suc c" b BLOCK_SIZE] by simp
      then show ?thesis using i by auto
    next
      case False
      then have "b * BLOCK_SIZE + BLOCK_SIZE \<le> c * BLOCK_SIZE"
        using \<open>c \<noteq> b\<close> mult_le_mono1 [of "Suc b" c BLOCK_SIZE] by simp
      then show ?thesis using i assms(2) by auto
    qed
    then show ?thesis unfolding block_bytes_def by (intro map_cong) auto
  qed
  show ?thesis using that [OF put] same other by simp
qed

definition appending ::
  "FileSystem \<Rightarrow> int \<Rightarrow> nat list \<Rightarrow> nat \<Rightarrow> string \<Rightarrow> FileSystem \<Rightarrow> nat list \<Rightarrow> nat \<Rightarrow> nat \<Rightarrow> bool" where
  "appending fs0 b0 ns off0 bytes fs xs off w \<longleftrightarrow>
     w \<le> length bytes \<and> off \<le> BLOCK_SIZE \<and> directory fs = directory fs0 \<and>
     chain (fat_table fs) b0 (ns @ xs) \<and>
     (\<forall>n \<in> set xs. fat_table fs0 n = 0) \<and>
     (\<forall>n. fat_table fs n \<noteq> 0 \<longleftrightarrow> fat_table fs0 n \<noteq> 0 \<or> n \<in> set xs) \<and>
     (\<forall>n. n \<noteq> last ns \<and> n \<notin> set xs \<longrightarrow> fat_table fs n = fat_table fs0 n \<and>
          block_bytes fs n = block_bytes fs0 n) \<and>
     BLOCK_SIZE * length xs + off = off0 + w \<and> (xs \<noteq> [] \<longrightarrow> 0 < off) \<and>
     take (off0 + w) (chain_bytes fs (last ns # xs)) =
       take off0 (block_bytes fs0 (last ns)) @ take w bytes"

lemma appending_start:
  assumes "chain (fat_table fs) b0 ns" and "off0 \<le> BLOCK_SIZE"
  shows "appending fs b0 ns off0 bytes fs [] off0 0"
  using assms by (simp add: appending_def)

text \<open>One pass that stays in the current block.\<close>

lemma appending_put:
  assumes app: "appending fs0 b0 ns off0 bytes fs xs off w" and ns: "ns \<noteq> []"
    and n: "n \<le> length bytes - w" "off + n \<le> BLOCK_SIZE" "0 < n"
  obtains fs' where
    "data_put fs (int (last (ns @ xs)) * int BLOCK_SIZE + int off) (take n (drop w bytes)) = Inr fs'"
    "appending fs0 b0 ns off0 bytes fs' xs (off + n) (w + n)"
proof -
  let ?b = "last (ns @ xs)" and ?s = "take n (drop w bytes)"
  have ch: "chain (fat_table fs) b0 (ns @ xs)" using app by (simp add: appending_def)
  have "?b \<in> set (ns @ xs)" using ns by (metis append_is_Nil_conv last_in_set)
  then have b: "?b < NUM_BLOCKS" using chain_blocks [OF ch] by blast
  have len: "length ?s = n" using n by simp
  obtain fs' where put: "data_put fs (int ?b * int BLOCK_SIZE + int off) ?s = Inr fs'"
    and fat: "fat_table fs' = fat_table fs" and dir: "directory fs' = directory fs"
    and same: "block_bytes fs' ?b = take off (block_bytes fs ?b) @ ?s @ drop (off + n) (block_bytes fs ?b)"
    and other: "\<And>c. c \<noteq> ?b \<Longrightarrow> block_bytes fs' c = block_bytes fs c"
    using data_put_block [OF b, of off ?s fs] n len by auto
  obtain ys where ys: "last ns # xs = ys @ [?b]"
    using ns by (cases xs rule: rev_cases) auto
  have "distinct (last ns # xs)"
    using chain_distinct [OF ch] ns by (metis append_butlast_last_id append.assoc append_Cons
        append_Nil distinct_append)
  then have "?b \<notin> set ys" unfolding ys by simp
  then have ys_same: "chain_bytes fs' ys = chain_bytes fs ys"
    using other by (intro chain_bytes_cong) metis
  have ys_len: "length ys = length xs" using arg_cong [OF ys, of length] by simp
  have pos: "off0 + w = BLOCK_SIZE * length ys + off" using app ys_len by (simp add: appending_def)
  have old: "chain_bytes fs ys @ take off (block_bytes fs ?b) =
      take off0 (block_bytes fs0 (last ns)) @ take w bytes"
    using app pos by (simp add: appending_def ys)
  have "take (off0 + (w + n)) (chain_bytes fs' (ys @ [?b])) =
      (chain_bytes fs ys @ take off (block_bytes fs ?b)) @ ?s"
    using pos n len ys_same same by (simp add: add.assoc [symmetric])
  also have "\<dots> = take off0 (block_bytes fs0 (last ns)) @ take (w + n) bytes"
    unfolding old by (simp add: take_add)
  finally have bytes': "take (off0 + (w + n)) (chain_bytes fs' (last ns # xs)) =
      take off0 (block_bytes fs0 (last ns)) @ take (w + n) bytes" unfolding ys .
  have "?b = last ns \<or> ?b \<in> set xs" using ns by (cases xs rule: rev_cases) auto
  then have "m \<noteq> ?b" if "m \<noteq> last ns \<and> m \<notin> set xs" for m using that by metis
  then have "block_bytes fs' m = block_bytes fs0 m" if "m \<noteq> last ns \<and> m \<notin> set xs" for m
    using that app other [of m] by (simp add: appending_def)
  then have "appending fs0 b0 ns off0 bytes fs' xs (off + n) (w + n)"
    using app n bytes' unfolding appending_def fat dir by auto
  with put show ?thesis using that by blast
qed

text \<open>Taking a new block; block 0 is in use, so its number is not taken for a free mark.\<close>

lemma appending_extend:
  assumes app: "appending fs0 b0 ns off0 bytes fs xs BLOCK_SIZE w" and ns: "ns \<noteq> []"
    and used0: "fat_table fs0 0 \<noteq> 0" and used: "\<forall>n \<in> set ns. fat_table fs0 n \<noteq> 0"
    and nb: "for_first 0 NUM_BLOCKS (\<lambda>i. fat_table fs i = 0) = Some nb"
    and n: "0 < n" "n \<le> length bytes - w" "n \<le> BLOCK_SIZE"
  defines "fs1 \<equiv> fat_set (fat_set fs (last (ns @ xs)) (int nb)) nb FAT_EOF"
  obtains fs' where
    "data_put fs1 (int nb * int BLOCK_SIZE) (take n (drop w bytes)) = Inr fs'"
    "appending fs0 b0 ns off0 bytes fs' (xs @ [nb]) n (w + n)"
proof -
  let ?b = "last (ns @ xs)" and ?s = "take n (drop w bytes)"
  have free: "nb < NUM_BLOCKS" "fat_table fs nb = 0" using nb by (auto simp: for_first_Some)
  have ch: "chain (fat_table fs) b0 (ns @ xs)" using app by (simp add: appending_def)
  have fat_iff: "fat_table fs m \<noteq> 0 \<longleftrightarrow> fat_table fs0 m \<noteq> 0 \<or> m \<in> set xs" for m
    using app by (simp add: appending_def)
  have nb0: "nb \<noteq> 0" "fat_table fs0 nb = 0" "nb \<notin> set xs"
    using free fat_iff [of nb] used0 by (auto intro: gr0I)
  have nb_new: "nb \<notin> set (ns @ xs)" using nb0 used by auto
  have b_in: "?b \<in> set (ns @ xs)" using ns by (metis append_is_Nil_conv last_in_set)
  have ch1: "chain (fat_table fs1) b0 (ns @ xs @ [nb])"
    using chain_extend [OF ch _ nb_new free(1)] ns by (simp add: fs1_def)
  have len: "length ?s = n" using n by simp
  obtain fs' where put: "data_put fs1 (int nb * int BLOCK_SIZE + int 0) ?s = Inr fs'"
    and fat: "fat_table fs' = fat_table fs1" and dir: "directory fs' = directory fs1"
    and same: "block_bytes fs' nb = take 0 (block_bytes fs1 nb) @ ?s @ drop (0 + n) (block_bytes fs1 nb)"
    and "\<And>c. c \<noteq> nb \<Longrightarrow> block_bytes fs' c = block_bytes fs1 c"
    using data_put_block [OF free(1), of 0 ?s fs1] n len by auto
  then have other: "\<And>c. c \<noteq> nb \<Longrightarrow> block_bytes fs' c = block_bytes fs c" by (simp add: fs1_def)
  have "last ns \<in> set (ns @ xs)" using ns by simp
  then have "nb \<notin> set (last ns # xs)" using nb_new by auto
  then have keep: "chain_bytes fs' (last ns # xs) = chain_bytes fs (last ns # xs)"
    using other by (intro chain_bytes_cong) metis
  have pos: "off0 + w = BLOCK_SIZE * length (last ns # xs)" using app by (simp add: appending_def)
  have old: "chain_bytes fs (last ns # xs) = take off0 (block_bytes fs0 (last ns)) @ take w bytes"
    using app pos by (simp add: appending_def)
  have "take (off0 + (w + n)) (chain_bytes fs' ((last ns # xs) @ [nb])) =
      chain_bytes fs' (last ns # xs) @ ?s"
    using pos n len same unfolding chain_bytes_simps(3) by (simp add: add.assoc [symmetric])
  also have "\<dots> = take off0 (block_bytes fs0 (last ns)) @ take (w + n) bytes"
    unfolding keep old by (simp add: take_add)
  finally have bytes': "take (off0 + (w + n)) (chain_bytes fs' (last ns # xs @ [nb])) =
      take off0 (block_bytes fs0 (last ns)) @ take (w + n) bytes" by simp
  have b_cases: "?b = last ns \<or> ?b \<in> set xs" using ns by (cases xs rule: rev_cases) auto
  have marked: "fat_table fs ?b \<noteq> 0" using b_cases fat_iff used ns by auto
  have fat': "fat_table fs' m \<noteq> 0 \<longleftrightarrow> fat_table fs0 m \<noteq> 0 \<or> m \<in> set (xs @ [nb])" for m
    using fat_iff [of m] nb0 marked by (auto simp: fat fs1_def FAT_EOF_def)
  have frame: "fat_table fs' m = fat_table fs0 m \<and> block_bytes fs' m = block_bytes fs0 m"
    if "m \<noteq> last ns \<and> m \<notin> set (xs @ [nb])" for m
    using that app b_cases other [of m] by (auto simp: fat fs1_def appending_def)
  have "appending fs0 b0 ns off0 bytes fs' (xs @ [nb]) n (w + n)"
    using app n bytes' fat' frame ch1 pos nb0(2) unfolding appending_def
    by (auto simp: fat dir fs1_def)
  with put show ?thesis using that by simp
qed

text \<open>The whole loop: it writes everything, or stops when no block is free.\<close>

definition write_done :: "string \<Rightarrow> string \<Rightarrow> FileSystem \<Rightarrow> nat \<Rightarrow> nat \<Rightarrow> string \<Rightarrow> bool" where
  "write_done name bytes fs off w msg \<longleftrightarrow>
     w = length bytes \<and> msg = [] \<or>
     w < length bytes \<and> off = BLOCK_SIZE \<and> (\<forall>n < NUM_BLOCKS. fat_table fs n \<noteq> 0) \<and>
     msg = ''No more space in FAT table. Partial data append to '' @ name @ ''.'' @ [newline]"

lemma write_amount_nat:
  "w < length bytes \<Longrightarrow> off < BLOCK_SIZE \<Longrightarrow>
   write_amount (length bytes) w (int off) = min (length bytes - w) (BLOCK_SIZE - off)"
  by (auto simp: write_amount_def Let_def min_def)

lemma write_loop_appends:
  assumes "appending fs0 b0 ns off0 bytes fs xs off w" and ns: "ns \<noteq> []"
    and fits: "fat_table fs0 0 \<noteq> 0 \<or> off0 + length bytes \<le> BLOCK_SIZE" and used: "\<forall>n \<in> set ns. fat_table fs0 n \<noteq> 0"
  shows "\<exists>fs' xs' off' w' msg. write_loop name bytes fs (int (last (ns @ xs))) (int off) w =
           Inr (Some (w', msg), fs') \<and> appending fs0 b0 ns off0 bytes fs' xs' off' w' \<and>
           write_done name bytes fs' off' w' msg"
  using assms(1)
proof (induction "length bytes - w" arbitrary: fs xs off w rule: less_induct)
  case less
  have ch: "chain (fat_table fs) b0 (ns @ xs)" and off: "off \<le> BLOCK_SIZE" and w: "w \<le> length bytes"
    using less.prems by (simp_all add: appending_def)
  have "last (ns @ xs) \<in> set (ns @ xs)" using ns by (metis append_is_Nil_conv last_in_set)
  then have ok: "block_ok (int (last (ns @ xs)))" using chain_blocks [OF ch] block_ok_int by blast
  consider (finished) "w = length bytes" | (room) "w < length bytes" "off < BLOCK_SIZE"
    | (full) "w < length bytes" "off = BLOCK_SIZE" "for_first 0 NUM_BLOCKS (\<lambda>i. fat_table fs i = 0) = None"
    | (new) nb where "w < length bytes" "off = BLOCK_SIZE"
        "for_first 0 NUM_BLOCKS (\<lambda>i. fat_table fs i = 0) = Some nb"
    using off w by fastforce
  then show ?case
  proof cases
    case finished
    then show ?thesis using less.prems by (subst write_loop.simps) (auto simp: write_done_def)
  next
    case room
    define n where "n = min (length bytes - w) (BLOCK_SIZE - off)"
    have n: "n \<le> length bytes - w" "off + n \<le> BLOCK_SIZE" "0 < n" using room by (auto simp: n_def)
    obtain fs1 where put: "data_put fs (int (last (ns @ xs)) * int BLOCK_SIZE + int off)
        (take n (drop w bytes)) = Inr fs1" and app: "appending fs0 b0 ns off0 bytes fs1 xs (off + n) (w + n)"
      by (rule appending_put [OF less.prems ns n])
    have "write_loop name bytes fs (int (last (ns @ xs))) (int off) w =
        write_loop name bytes fs1 (int (last (ns @ xs))) (int (off + n)) (w + n)"
      using room ok put write_amount_nat [OF room]
      by (subst write_loop.simps) (simp add: write_block_def Let_def n_def del: last_append)
    then show ?thesis using less.hyps [OF _ app] n room(1) by simp
  next
    case full
    then have "write_block fs (int (last (ns @ xs))) (int off) = None"
      by (simp add: write_block_def find_free_block_def index_or_minus1_simps)
    moreover have "\<forall>n < NUM_BLOCKS. fat_table fs n \<noteq> 0" using full(3) by (simp add: for_first_None)
    ultimately show ?thesis using less.prems full ok
      by (subst write_loop.simps) (auto simp: write_done_def simp del: last_append)
  next
    case new
    define n where "n = min (length bytes - w) BLOCK_SIZE"
    have n: "0 < n" "n \<le> length bytes - w" "n \<le> BLOCK_SIZE"
      using new by (auto simp: n_def BLOCK_SIZE_def)
    have app0: "appending fs0 b0 ns off0 bytes fs xs BLOCK_SIZE w" using less.prems new(2) by simp
    then have "BLOCK_SIZE \<le> off0 + w" by (simp add: appending_def)
    then have used0: "fat_table fs0 0 \<noteq> 0" using fits new(1) by linarith
    obtain fs1 where put: "data_put (fat_set (fat_set fs (last (ns @ xs)) (int nb)) nb FAT_EOF)
        (int nb * int BLOCK_SIZE) (take n (drop w bytes)) = Inr fs1"
      and app: "appending fs0 b0 ns off0 bytes fs1 (xs @ [nb]) n (w + n)"
      by (rule appending_extend [OF app0 ns used0 used new(3) n])
    have amount: "write_amount (length bytes) w 0 = n"
      using write_amount_nat [OF new(1), of 0] by (simp add: n_def BLOCK_SIZE_def)
    have "write_loop name bytes fs (int (last (ns @ xs))) (int off) w =
        write_loop name bytes fs1 (int nb) (int n) (w + n)"
      using new ok put amount
      by (subst write_loop.simps)
        (simp add: write_block_def find_free_block_def index_or_minus1_simps Let_def del: last_append)
    then show ?thesis using less.hyps [OF _ app] n new(1) by simp
  qed
qed

end
