(* ===== verification/Fat_Ops.thy ===== *)
theory Fat_Ops
  imports Fat_Write
begin

section \<open>The file operations refine a map from names to contents\<close>

text \<open>
  Each operation preserves the invariant and acts on the abstract file system as the obvious map
  update.  The locale \<open>file_store\<close> is the contract the command line relies on, interpreted on the
  operations of \<^verbatim>\<open>fat.c\<close>.
\<close>

definition content :: "FileSystem \<Rightarrow> (nat \<Rightarrow> nat list) \<Rightarrow> nat \<Rightarrow> string" where
  "content fs ch i = take (entry_size fs i) (chain_bytes fs (ch i))"

subsection \<open>The invariant and the abstraction\<close>

lemma fs_inv_chain:
  assumes "fs_inv fs ch" and "live fs i"
  shows "chain (fat_table fs) (start_block (directory fs i)) (ch i)" "0 \<le> fsize (directory fs i)"
    "length (ch i) = blocks_for (entry_size fs i)" "NUL \<notin> set (content fs ch i)" "ch i \<noteq> []"
    "\<forall>b \<in> set (ch i). fat_table fs b \<noteq> 0"
proof -
  show ch: "chain (fat_table fs) (start_block (directory fs i)) (ch i)" and "0 \<le> fsize (directory fs i)"
    and len: "length (ch i) = blocks_for (entry_size fs i)" and "NUL \<notin> set (content fs ch i)"
    using assms by (auto simp: fs_inv_def content_def)
  show "ch i \<noteq> []" using len blocks_for_bounds(1) [of "entry_size fs i"] by auto
  show "\<forall>b \<in> set (ch i). fat_table fs b \<noteq> 0"
    using assms chain_blocks [OF ch] unfolding fs_inv_def by blast
qed

lemma fs_inv_names:
  assumes "fs_inv fs ch" and "live fs i" and "live fs j"
  shows "filename (directory fs i) = filename (directory fs j) \<longleftrightarrow> i = j"
    and "i \<noteq> j \<Longrightarrow> set (ch i) \<inter> set (ch j) = {}"
  using assms unfolding fs_inv_def by blast+

lemma find_entry_Some:
  "find_entry fs name = Some i \<Longrightarrow> name \<noteq> [] \<Longrightarrow> live fs i \<and> filename (directory fs i) = name"
  by (auto simp: find_entry_def live_def for_first_Some)

lemma find_entry_None:
  "find_entry fs name = None \<Longrightarrow> live fs i \<Longrightarrow> filename (directory fs i) \<noteq> name"
  by (auto simp: find_entry_def live_def for_first_None)

lemma find_entry_live:
  assumes "fs_inv fs ch" and "live fs i"
  shows "find_entry fs (filename (directory fs i)) = Some i"
proof (cases "find_entry fs (filename (directory fs i))")
  case None
  then show ?thesis using find_entry_None assms(2) by blast
next
  case (Some j)
  then have "live fs j \<and> filename (directory fs j) = filename (directory fs i)"
    using find_entry_Some assms(2) by (simp add: live_def)
  then show ?thesis using Some fs_inv_names(1) [OF assms] by metis
qed

lemma read_loop_content:
  assumes "fs_inv fs ch" and "live fs i"
  shows "read_loop fs (start_block (directory fs i)) 0 (fsize (directory fs i)) =
    (True, content fs ch i)"
  using read_loop_chain [OF fs_inv_chain(1) [OF assms], of 0 "entry_size fs i"]
    fs_inv_chain(2,4) [OF assms]
  by (simp add: content_def)

lemma abs_fs_live:
  assumes "fs_inv fs ch" and "live fs i"
  shows "abs_fs fs (filename (directory fs i)) = Some (content fs ch i)"
  using assms(2) find_entry_live [OF assms] read_loop_content [OF assms]
  by (simp add: abs_fs_def live_def)

lemma abs_fs_Some:
  assumes "fs_inv fs ch"
  shows "abs_fs fs name = Some c \<longleftrightarrow> (\<exists>i. live fs i \<and> filename (directory fs i) = name \<and> c = content fs ch i)"
proof
  assume "abs_fs fs name = Some c"
  then obtain i where "name \<noteq> []" "find_entry fs name = Some i"
    by (auto simp: abs_fs_def split: if_splits option.splits)
  then have "live fs i" "filename (directory fs i) = name" using find_entry_Some by blast+
  then show "\<exists>i. live fs i \<and> filename (directory fs i) = name \<and> c = content fs ch i"
    using abs_fs_live [OF assms] \<open>abs_fs fs name = Some c\<close> by fastforce
next
  assume "\<exists>i. live fs i \<and> filename (directory fs i) = name \<and> c = content fs ch i"
  then show "abs_fs fs name = Some c" using abs_fs_live [OF assms] by blast
qed

text \<open>Two well-formed states whose live slots correspond, but for one name.\<close>

lemma abs_fs_update:
  assumes "fs_inv fs ch" and "fs_inv fs' ch'"
    and "\<And>m c. m \<noteq> name \<Longrightarrow> (\<exists>k. live fs' k \<and> filename (directory fs' k) = m \<and> c = content fs' ch' k) \<longleftrightarrow>
              (\<exists>k. live fs k \<and> filename (directory fs k) = m \<and> c = content fs ch k)"
    and "\<And>c. (\<exists>k. live fs' k \<and> filename (directory fs' k) = name \<and> c = content fs' ch' k) \<longleftrightarrow> v = Some c"
  shows "abs_fs fs' = (abs_fs fs)(name := v)"
proof
  fix m
  have "abs_fs fs' m = Some c \<longleftrightarrow> ((abs_fs fs)(name := v)) m = Some c" for c
    using assms(3) [of m c] assms(4) [of c]
    by (cases "m = name") (simp_all add: abs_fs_Some [OF assms(1)] abs_fs_Some [OF assms(2)])
  then show "abs_fs fs' m = ((abs_fs fs)(name := v)) m" by (rule option_eqI)
qed

subsection \<open>Creating\<close>

definition has_room :: "FileSystem \<Rightarrow> bool" where
  "has_room fs \<longleftrightarrow> (\<exists>i < MAX_FILE_NUM. filename (directory fs i) = []) \<and>
                  (\<exists>j < NUM_BLOCKS. fat_table fs j = 0)"

definition created :: "FileSystem \<Rightarrow> string \<Rightarrow> nat \<Rightarrow> nat \<Rightarrow> FileSystem" where
  "created fs name i j =
     dir_set (fat_set fs j FAT_EOF) i \<lparr>filename = name, start_block = int j, fsize = 0\<rparr>"

lemma create_file_created:
  assumes "find_entry fs name = None" and "length name < MAX_FILE_NAME" and "has_room fs"
  obtains i j where "i < MAX_FILE_NUM" "filename (directory fs i) = []" "j < NUM_BLOCKS"
    "fat_table fs j = 0"
    "create_file name fs =
       Inr (0, ''File '' @ [CHR 0x27] @ name @ [CHR 0x27] @ '' created.'' @ [newline], created fs name i j)"
proof -
  obtain j where j: "for_first 0 NUM_BLOCKS (\<lambda>j. fat_table fs j = 0) = Some j"
    using assms(3) by (cases "for_first 0 NUM_BLOCKS (\<lambda>j. fat_table fs j = 0)")
      (auto simp: has_room_def for_first_None)
  obtain i where i: "for_first 0 MAX_FILE_NUM (\<lambda>i. filename (directory fs i) = []) = Some i"
    using assms(3) by (cases "for_first 0 MAX_FILE_NUM (\<lambda>i. filename (directory fs i) = [])")
      (auto simp: has_room_def for_first_None)
  show ?thesis
    using that [of i j] i j assms(1,2) by (auto simp: for_first_Some create_file_def created_def)
qed

lemma created_inv:
  assumes inv: "fs_inv fs ch" and name: "name \<noteq> []" "find_entry fs name = None"
    and i: "i < MAX_FILE_NUM" "filename (directory fs i) = []"
    and j: "j < NUM_BLOCKS" "fat_table fs j = 0"
  shows "fs_inv (created fs name i j) (ch(i := [j]))"
    and "abs_fs (created fs name i j) = (abs_fs fs)(name \<mapsto> [])"
proof -
  let ?fs = "created fs name i j" and ?ch = "ch(i := [j])"
  have live: "live ?fs k \<longleftrightarrow> live fs k \<or> k = i" for k
    using name i by (auto simp: live_def created_def)
  have ni: "\<not> live fs i" using i by (simp add: live_def)
  have free: "j \<notin> set (ch k)" if "live fs k" for k using fs_inv_chain(6) [OF inv that] j by auto
  have dir: "directory ?fs k = directory fs k" if "live fs k" for k
    using that ni by (auto simp: created_def)
  have diri: "directory ?fs i = \<lparr>filename = name, start_block = int j, fsize = 0\<rparr>"
    by (simp add: created_def)
  have bytes: "chain_bytes ?fs ns = chain_bytes fs ns" for ns by (simp add: created_def)
  have cont: "content ?fs ?ch k = content fs ch k" if "live fs k" for k
    using that ni dir [OF that] bytes by (auto simp: content_def)
  have fat: "fat_table ?fs = (fat_table fs)(j := FAT_EOF)" by (simp add: created_def)
  show inv': "fs_inv ?fs ?ch"
    unfolding fs_inv_def
  proof (intro conjI allI impI)
    fix k assume k: "live ?fs k"
    have *: "chain (fat_table ?fs) (start_block (directory ?fs k)) (?ch k) \<and>
        0 \<le> fsize (directory ?fs k) \<and> length (?ch k) = blocks_for (entry_size ?fs k) \<and>
        NUL \<notin> set (content ?fs ?ch k)"
    proof (cases "k = i")
      case True
      then show ?thesis using j diri by (simp add: fat content_def blocks_for_def)
    next
      case False
      then have "live fs k" using k live by simp
      then show ?thesis
        using False fs_inv_chain(1-4) [OF inv, of k] free [of k] cont [of k] dir [of k]
        by (simp add: fat)
    qed
    then show "chain (fat_table ?fs) (start_block (directory ?fs k)) (?ch k)"
      "0 \<le> fsize (directory ?fs k)" "length (?ch k) = blocks_for (entry_size ?fs k)"
      "NUL \<notin> set (take (entry_size ?fs k) (chain_bytes ?fs (?ch k)))"
      by (simp_all add: content_def)
  next
    fix k l assume kl: "live ?fs k \<and> live ?fs l \<and> k \<noteq> l"
    show "filename (directory ?fs k) \<noteq> filename (directory ?fs l)"
      using kl live dir diri fs_inv_names(1) [OF inv] find_entry_None [OF name(2)]
      by (metis FileEntry.select_convs(1))
    show "set (?ch k) \<inter> set (?ch l) = {}"
      using kl live free [of k] free [of l] fs_inv_names(2) [OF inv, of k l] by auto
  next
    fix b assume "b < NUM_BLOCKS"
    then show "fat_table ?fs b \<noteq> 0 \<longleftrightarrow> (\<exists>k. live ?fs k \<and> b \<in> set (?ch k))"
      using inv ni unfolding fs_inv_def fat live by (auto simp: FAT_EOF_def)
  qed
  show "abs_fs ?fs = (abs_fs fs)(name \<mapsto> [])"
  proof (rule abs_fs_update [OF inv inv'])
    show "(\<exists>k. live ?fs k \<and> filename (directory ?fs k) = m \<and> c = content ?fs ?ch k) \<longleftrightarrow>
        (\<exists>k. live fs k \<and> filename (directory fs k) = m \<and> c = content fs ch k)" if "m \<noteq> name" for m c
      using that live dir diri cont by (metis FileEntry.select_convs(1))
    show "(\<exists>k. live ?fs k \<and> filename (directory ?fs k) = name \<and> c = content ?fs ?ch k) \<longleftrightarrow>
        Some [] = Some c" for c
      using live dir diri find_entry_None [OF name(2)] by (auto simp: content_def)
  qed
qed

subsection \<open>Deleting\<close>

definition deleted :: "FileSystem \<Rightarrow> nat \<Rightarrow> nat list \<Rightarrow> FileSystem" where
  "deleted fs i ns =
     dir_set (fs\<lparr>fat_table := (\<lambda>n. if n \<in> set ns then 0 else fat_table fs n)\<rparr>) i
       ((directory fs i)\<lparr>filename := []\<rparr>)"

lemma delete_file_deleted:
  assumes "fs_inv fs ch" and "live fs i" and "filename (directory fs i) = name"
  shows "delete_file name fs =
    Inr (0, ''File '' @ [CHR 0x27] @ name @ [CHR 0x27] @ '' deleted.'' @ [newline], deleted fs i (ch i))"
  using find_entry_live [OF assms(1,2)] free_chain_chain [OF fs_inv_chain(1) [OF assms(1,2)]] assms(3)
  by (simp add: delete_file_def deleted_def)

lemma deleted_inv:
  assumes inv: "fs_inv fs ch" and i: "live fs i"
  shows "fs_inv (deleted fs i (ch i)) ch"
    and "abs_fs (deleted fs i (ch i)) = (abs_fs fs)(filename (directory fs i) := None)"
proof -
  let ?fs = "deleted fs i (ch i)"
  have live: "live ?fs k \<longleftrightarrow> live fs k \<and> k \<noteq> i" for k by (auto simp: live_def deleted_def)
  have dir: "directory ?fs k = directory fs k" if "k \<noteq> i" for k using that by (simp add: deleted_def)
  have bytes: "chain_bytes ?fs ns = chain_bytes fs ns" for ns by (simp add: deleted_def)
  have cont: "content ?fs ch k = content fs ch k" if "k \<noteq> i" for k
    using dir [OF that] by (simp add: content_def bytes)
  have fat: "fat_table ?fs n = (if n \<in> set (ch i) then 0 else fat_table fs n)" for n
    by (simp add: deleted_def)
  have disj: "set (ch i) \<inter> set (ch k) = {}" if "live fs k" "k \<noteq> i" for k
    using fs_inv_names(2) [OF inv i, of k] that by auto
  show inv': "fs_inv ?fs ch"
    unfolding fs_inv_def
  proof (intro conjI allI impI)
    fix k assume "live ?fs k"
    then have k: "live fs k" "k \<noteq> i" using live by auto
    have "chain (fat_table ?fs) (start_block (directory fs k)) (ch k) \<longleftrightarrow>
        chain (fat_table fs) (start_block (directory fs k)) (ch k)"
      by (rule chain_cong) (use disj [OF k] fat in auto)
    then show "chain (fat_table ?fs) (start_block (directory ?fs k)) (ch k)"
      "0 \<le> fsize (directory ?fs k)" "length (ch k) = blocks_for (entry_size ?fs k)"
      "NUL \<notin> set (take (entry_size ?fs k) (chain_bytes ?fs (ch k)))"
      using fs_inv_chain(1-4) [OF inv k(1)] dir [OF k(2)] by (simp_all add: content_def bytes)
  next
    fix k l assume "live ?fs k \<and> live ?fs l \<and> k \<noteq> l"
    then show "filename (directory ?fs k) \<noteq> filename (directory ?fs l)" "set (ch k) \<inter> set (ch l) = {}"
      using live dir fs_inv_names [OF inv, of k l] by auto
  next
    fix b assume "b < NUM_BLOCKS"
    then have "fat_table fs b \<noteq> 0 \<longleftrightarrow> (\<exists>k. live fs k \<and> b \<in> set (ch k))"
      using inv unfolding fs_inv_def by blast
    then show "fat_table ?fs b \<noteq> 0 \<longleftrightarrow> (\<exists>k. live ?fs k \<and> b \<in> set (ch k))"
      unfolding fat live using disj by auto
  qed
  show "abs_fs ?fs = (abs_fs fs)(filename (directory fs i) := None)"
  proof (rule abs_fs_update [OF inv inv'])
    show "(\<exists>k. live ?fs k \<and> filename (directory ?fs k) = m \<and> c = content ?fs ch k) \<longleftrightarrow>
        (\<exists>k. live fs k \<and> filename (directory fs k) = m \<and> c = content fs ch k)"
      if "m \<noteq> filename (directory fs i)" for m c
      using that live dir cont by metis
    show "(\<exists>k. live ?fs k \<and> filename (directory ?fs k) = filename (directory fs i) \<and>
        c = content ?fs ch k) \<longleftrightarrow> None = Some c" for c
    proof -
      have "filename (directory ?fs k) \<noteq> filename (directory fs i)" if "live ?fs k" for k
        using that live [of k] dir [of k] fs_inv_names(1) [OF inv i, of k] by simp
      then show ?thesis by auto
    qed
  qed
qed

subsection \<open>Appending\<close>

text \<open>
  The number of bytes that fit behind the end of a file of size \<open>sz\<close>: the rest of its last block and
  all free blocks of the disk.
\<close>

definition free_blocks :: "FileSystem \<Rightarrow> nat" where
  "free_blocks fs = length (filter (\<lambda>b. fat_table fs b = 0) [0..<NUM_BLOCKS])"

definition space_left :: "FileSystem \<Rightarrow> nat \<Rightarrow> nat" where
  "space_left fs sz = BLOCK_SIZE - sz mod BLOCK_SIZE + BLOCK_SIZE * free_blocks fs"

text \<open>
  The appends that find their place: the last block of the file is not exactly full, and block 0 is in
  use or no new block is needed.
\<close>

definition appendable :: "FileSystem \<Rightarrow> string \<Rightarrow> string \<Rightarrow> bool" where
  "appendable fs c bytes \<longleftrightarrow> (c = [] \<or> length c mod BLOCK_SIZE \<noteq> 0) \<and>
     (fat_table fs 0 \<noteq> 0 \<or> length bytes \<le> BLOCK_SIZE - length c mod BLOCK_SIZE)"

lemma free_blocks_card: "free_blocks fs = card {b. b < NUM_BLOCKS \<and> fat_table fs b = 0}"
proof -
  have "{b. b < NUM_BLOCKS \<and> fat_table fs b = 0} = set (filter (\<lambda>b. fat_table fs b = 0) [0..<NUM_BLOCKS])"
    by auto
  then show ?thesis by (simp only: free_blocks_def distinct_card distinct_filter distinct_upt)
qed

lemma free_blocks_appending:
  assumes "appending fs b0 ns off0 bytes fs' xs off w"
  shows "free_blocks fs = length xs + free_blocks fs'"
proof -
  have ch: "chain (fat_table fs') b0 (ns @ xs)" and free: "\<forall>n \<in> set xs. fat_table fs n = 0"
    and used: "\<And>n. fat_table fs' n \<noteq> 0 \<longleftrightarrow> fat_table fs n \<noteq> 0 \<or> n \<in> set xs"
    using assms by (simp_all add: appending_def)
  have "{b. b < NUM_BLOCKS \<and> fat_table fs b = 0} = set xs \<union> {b. b < NUM_BLOCKS \<and> fat_table fs' b = 0}"
    using chain_blocks [OF ch] free used by auto
  moreover have "set xs \<inter> {b. b < NUM_BLOCKS \<and> fat_table fs' b = 0} = {}" using used by auto
  moreover have "card (set xs) = length xs" using chain_distinct [OF ch] by (simp add: distinct_card)
  ultimately show ?thesis unfolding free_blocks_card by (simp add: card_Un_disjoint)
qed

text \<open>The writing loop uses all the space there is before it gives up.\<close>

lemma appending_amount:
  assumes ap: "appending fs b0 ns (sz mod BLOCK_SIZE) bytes fs' xs off w"
    and end': "write_done name bytes fs' off w msg"
  shows "w = min (length bytes) (space_left fs sz)"
proof -
  have w: "w \<le> length bytes" "off \<le> BLOCK_SIZE" "BLOCK_SIZE * length xs + off = sz mod BLOCK_SIZE + w"
    using ap by (simp_all add: appending_def)
  have free: "BLOCK_SIZE * free_blocks fs = BLOCK_SIZE * length xs + BLOCK_SIZE * free_blocks fs'"
    unfolding free_blocks_appending [OF ap] by (rule add_mult_distrib2)
  have "sz mod BLOCK_SIZE < BLOCK_SIZE" by (simp add: BLOCK_SIZE_def)
  moreover have "off = BLOCK_SIZE \<and> free_blocks fs' = 0" if "w < length bytes"
    using that end' by (auto simp: write_done_def free_blocks_def filter_empty_conv)
  ultimately show ?thesis using w free unfolding space_left_def by (cases "w < length bytes") auto
qed

lemma blocks_for_offset:
  assumes "sz = 0 \<or> sz mod BLOCK_SIZE \<noteq> 0"
  shows "sz = BLOCK_SIZE * (blocks_for sz - 1) + sz mod BLOCK_SIZE"
proof (cases "sz = 0")
  case False
  have "(sz + BLOCK_SIZE - 1) div BLOCK_SIZE = Suc (sz div BLOCK_SIZE)"
  proof -
    obtain q r where sz: "sz = BLOCK_SIZE * q + r" "0 < r" "r < BLOCK_SIZE"
      using assms False by (metis BLOCK_SIZE_def gr0I mod_less_divisor mult_div_mod_eq zero_less_numeral)
    then have "(sz + BLOCK_SIZE - 1) div BLOCK_SIZE = Suc q" by (intro div_nat_eqI) simp_all
    moreover have "sz div BLOCK_SIZE = q" using sz by (intro div_nat_eqI) simp_all
    ultimately show ?thesis by simp
  qed
  then show ?thesis using False by (simp add: blocks_for_def)
qed (simp add: blocks_for_def)

lemma c_rem_nonneg: "0 \<le> a \<Longrightarrow> c_rem a (int BLOCK_SIZE) = int (nat a mod BLOCK_SIZE)"
  by (simp add: c_rem_def nat_mod_distrib zmod_int)

definition written :: "FileSystem \<Rightarrow> nat \<Rightarrow> int \<Rightarrow> FileSystem" where
  "written fs i sz = dir_set fs i ((directory fs i)\<lparr>fsize := sz\<rparr>)"

lemma write_file_written:
  assumes inv: "fs_inv fs ch" and i: "live fs i" "filename (directory fs i) = name"
    and fits: "fat_table fs 0 \<noteq> 0 \<or> entry_size fs i mod BLOCK_SIZE + length bytes \<le> BLOCK_SIZE"
  obtains fs' xs off w msg where
    "write_file name bytes fs =
       Inr (0, msg @ ''Data written to '' @ [CHR 0x27] @ name @ [CHR 0x27] @ ''.'' @ [newline],
            written fs' i (fsize (directory fs i) + int w))"
    "appending fs (start_block (directory fs i)) (ch i) (entry_size fs i mod BLOCK_SIZE) bytes fs' xs off w"
    "write_done name bytes fs' off w msg"
proof -
  note chi = fs_inv_chain [OF inv i(1)]
  let ?b = "start_block (directory fs i)" and ?sz = "entry_size fs i"
  have find: "find_entry fs name = Some i" using find_entry_live [OF inv i(1)] i(2) by simp
  have ok: "block_ok ?b"
    using chain_head [OF chi(1,5)] chain_blocks [OF chi(1)] chi(5) by (simp add: block_ok_int)
  have "BLOCK_SIZE * (length (ch i) - 1) \<le> ?sz"
    using chi(3) blocks_for_bounds(3) [of ?sz] by (cases "?sz = 0") (auto simp: blocks_for_def)
  then have walk: "write_walk fs ?b (fsize (directory fs i)) = Inr (int (last (ch i)))"
    using write_walk_last [OF chi(1,5), of ?sz] chi(2) by simp
  have start: "appending fs ?b (ch i) (?sz mod BLOCK_SIZE) bytes fs [] (?sz mod BLOCK_SIZE) 0"
    by (rule appending_start [OF chi(1)]) (simp add: BLOCK_SIZE_def)
  obtain fs' xs off w msg where
    loop: "write_loop name bytes fs (int (last (ch i))) (int (?sz mod BLOCK_SIZE)) 0 = Inr (Some (w, msg), fs')"
    and res: "appending fs ?b (ch i) (?sz mod BLOCK_SIZE) bytes fs' xs off w"
      "write_done name bytes fs' off w msg"
    using write_loop_appends [OF start chi(5) fits chi(6), of name] by (simp, blast)
  have "write_file name bytes fs =
      Inr (0, msg @ ''Data written to '' @ [CHR 0x27] @ name @ [CHR 0x27] @ ''.'' @ [newline],
           written fs' i (fsize (directory fs i) + int w))"
    using find ok walk loop c_rem_nonneg [OF chi(2)]
    by (simp add: write_file_def Let_def written_def)
  then show ?thesis using that res by blast
qed

lemma appending_content:
  assumes inv: "fs_inv fs ch" and i: "live fs i"
    and sz: "entry_size fs i = 0 \<or> entry_size fs i mod BLOCK_SIZE \<noteq> 0"
    and app: "appending fs b0 (ch i) (entry_size fs i mod BLOCK_SIZE) bytes fs' xs off w"
  shows "take (entry_size fs i + w) (chain_bytes fs' (ch i @ xs)) = content fs ch i @ take w bytes"
    and "length (ch i @ xs) = blocks_for (entry_size fs i + w)"
proof -
  note chi = fs_inv_chain [OF inv i]
  define r where "r = entry_size fs i mod BLOCK_SIZE"
  obtain ys l where ys: "ch i = ys @ [l]" using chi(5) by (cases "ch i" rule: rev_cases) auto
  have len: "blocks_for (entry_size fs i) - 1 = length ys"
    using ys by (simp only: chi(3) [symmetric] length_append) simp
  have size: "entry_size fs i = BLOCK_SIZE * length ys + r"
    using blocks_for_offset [OF sz] unfolding len r_def .
  have new: "set xs \<inter> set (ch i) = {}" using app chi(6) by (auto simp: appending_def)
  have "l \<notin> set ys" using chain_distinct [OF chi(1)] ys by simp
  then have other: "n \<noteq> l \<and> n \<notin> set xs" if "n \<in> set ys" for n using that new ys by auto
  have frame: "block_bytes fs' n = block_bytes fs n" if "n \<noteq> l \<and> n \<notin> set xs" for n
    using that app ys by (simp add: appending_def)
  have keep: "chain_bytes fs' ys = chain_bytes fs ys"
    by (rule chain_bytes_cong) (rule frame [OF other])
  have tail: "take (r + w) (chain_bytes fs' (l # xs)) = take r (block_bytes fs l) @ take w bytes"
    using app ys by (simp add: appending_def r_def)
  have "take (entry_size fs i + w) (chain_bytes fs' (ch i @ xs)) =
      chain_bytes fs' ys @ take (r + w) (chain_bytes fs' (l # xs))"
    unfolding size ys by (simp add: add.assoc)
  also have "\<dots> = content fs ch i @ take w bytes"
    unfolding keep tail content_def size ys by simp
  finally show "take (entry_size fs i + w) (chain_bytes fs' (ch i @ xs)) =
      content fs ch i @ take w bytes" .
  have pos: "BLOCK_SIZE * length xs + off = r + w" "off \<le> BLOCK_SIZE" "xs \<noteq> [] \<longrightarrow> 0 < off"
    using app by (simp_all add: appending_def r_def)
  show "length (ch i @ xs) = blocks_for (entry_size fs i + w)"
  proof (cases "entry_size fs i + w = 0")
    case True
    then have "xs = []" using pos size by (auto simp: BLOCK_SIZE_def)
    then show ?thesis using True chi(3) by simp
  next
    case False
    have "r = 0 \<longrightarrow> entry_size fs i = 0" using sz by (auto simp: r_def)
    then have "0 < off" using pos False by (cases "xs = []") auto
    then have "blocks_for (entry_size fs i + w) = Suc (length ys + length xs)"
      unfolding size using pos by (intro blocks_for_unique) (simp_all add: add_mult_distrib2)
    then show ?thesis using ys by simp
  qed
qed

lemma written_inv:
  assumes inv: "fs_inv fs ch" and i: "live fs i"
    and sz: "entry_size fs i = 0 \<or> entry_size fs i mod BLOCK_SIZE \<noteq> 0" and nul: "NUL \<notin> set bytes"
    and app: "appending fs (start_block (directory fs i)) (ch i) (entry_size fs i mod BLOCK_SIZE)
                bytes fs' xs off w"
  defines "fs2 \<equiv> written fs' i (fsize (directory fs i) + int w)"
  shows "fs_inv fs2 (ch(i := ch i @ xs))"
    and "abs_fs fs2 = (abs_fs fs)(filename (directory fs i) \<mapsto> content fs ch i @ take w bytes)"
proof -
  let ?ch = "ch(i := ch i @ xs)"
  note chi = fs_inv_chain [OF inv i]
  have dir': "directory fs' = directory fs" and free: "\<forall>n \<in> set xs. fat_table fs n = 0"
    and chain': "chain (fat_table fs') (start_block (directory fs i)) (ch i @ xs)"
    and used: "\<And>n. fat_table fs' n \<noteq> 0 \<longleftrightarrow> fat_table fs n \<noteq> 0 \<or> n \<in> set xs"
    and frame: "\<And>n. n \<noteq> last (ch i) \<and> n \<notin> set xs \<Longrightarrow>
      fat_table fs' n = fat_table fs n \<and> block_bytes fs' n = block_bytes fs n"
    using app by (simp_all add: appending_def)
  have live: "live fs2 k \<longleftrightarrow> live fs k" for k by (simp add: live_def fs2_def written_def dir')
  have dir: "directory fs2 k = directory fs k" if "k \<noteq> i" for k
    using that by (simp add: fs2_def written_def dir')
  have name: "filename (directory fs2 k) = filename (directory fs k)" for k
    by (simp add: fs2_def written_def dir')
  have diri: "start_block (directory fs2 i) = start_block (directory fs i)"
    "fsize (directory fs2 i) = fsize (directory fs i) + int w" by (simp_all add: fs2_def written_def dir')
  have fat: "fat_table fs2 = fat_table fs'" by (simp add: fs2_def written_def)
  have bytes: "chain_bytes fs2 ns = chain_bytes fs' ns" for ns by (simp add: fs2_def written_def)
  have size: "entry_size fs2 i = entry_size fs i + w" using chi(2) diri(2) by (simp add: nat_add_distrib)
  have apart: "n \<noteq> last (ch i) \<and> n \<notin> set xs" if "live fs k" "k \<noteq> i" "n \<in> set (ch k)" for k n
    using that fs_inv_names(2) [OF inv i that(1)] chi(5) fs_inv_chain(6) [OF inv that(1)] free
    by (metis disjoint_iff last_in_set)
  have conti: "content fs2 ?ch i = content fs ch i @ take w bytes"
    using appending_content(1) [OF inv i sz app] by (simp add: content_def [of fs2] size bytes del: chain_bytes_simps)
  have cont: "content fs2 ?ch k = content fs ch k" if "live fs k" "k \<noteq> i" for k
    using chain_bytes_cong [of "ch k" fs' fs] frame [OF apart [OF that]] dir that
    by (simp add: content_def bytes)
  have nul_free: "NUL \<notin> set (content fs2 ?ch k)" if "live fs k" for k
    using that conti cont fs_inv_chain(4) [OF inv, of k] nul by (cases "k = i") (auto dest: in_set_takeD)
  show inv': "fs_inv fs2 ?ch"
    unfolding fs_inv_def live name
  proof (intro conjI allI impI)
    fix k assume k: "live fs k"
    have "chain (fat_table fs2) (start_block (directory fs2 k)) (?ch k) \<and>
        0 \<le> fsize (directory fs2 k) \<and> length (?ch k) = blocks_for (entry_size fs2 k)"
    proof (cases "k = i")
      case True
      then show ?thesis using chain' diri chi(2) size appending_content(2) [OF inv i sz app]
        by (simp add: fat)
    next
      case False
      have "chain (fat_table fs') b (ch k) = chain (fat_table fs) b (ch k)" for b
        by (rule chain_cong) (use frame apart [OF k False] in blast)
      then show ?thesis using False fs_inv_chain(1-3) [OF inv k] dir by (simp add: fat)
    qed
    then show "chain (fat_table fs2) (start_block (directory fs2 k)) (?ch k)"
      "0 \<le> fsize (directory fs2 k)" "length (?ch k) = blocks_for (entry_size fs2 k)" by auto
    show "NUL \<notin> set (take (entry_size fs2 k) (chain_bytes fs2 (?ch k)))"
      using nul_free [OF k] by (simp only: content_def not_False_eq_True)
  next
    fix k l assume kl: "live fs k \<and> live fs l \<and> k \<noteq> l"
    then show "filename (directory fs k) \<noteq> filename (directory fs l)"
      using fs_inv_names(1) [OF inv] by blast
    show "set (?ch k) \<inter> set (?ch l) = {}"
      using kl apart [of k] apart [of l] fs_inv_names(2) [OF inv, of k l] by auto
  next
    fix b assume "b < NUM_BLOCKS"
    then have "fat_table fs b \<noteq> 0 \<longleftrightarrow> (\<exists>k. live fs k \<and> b \<in> set (ch k))"
      using inv unfolding fs_inv_def by blast
    then show "fat_table fs2 b \<noteq> 0 \<longleftrightarrow> (\<exists>k. live fs k \<and> b \<in> set (?ch k))"
      using i unfolding fat used by auto
  qed
  show "abs_fs fs2 = (abs_fs fs)(filename (directory fs i) \<mapsto> content fs ch i @ take w bytes)"
  proof (rule abs_fs_update [OF inv inv'], unfold live name)
    show "(\<exists>k. live fs k \<and> filename (directory fs k) = m \<and> c = content fs2 ?ch k) \<longleftrightarrow>
        (\<exists>k. live fs k \<and> filename (directory fs k) = m \<and> c = content fs ch k)"
      if "m \<noteq> filename (directory fs i)" for m c
      using that cont by metis
    show "(\<exists>k. live fs k \<and> filename (directory fs k) = filename (directory fs i) \<and> c = content fs2 ?ch k) \<longleftrightarrow>
        Some (content fs ch i @ take w bytes) = Some c" for c
      using i conti fs_inv_names(1) [OF inv] by auto
  qed
qed

end
