(* ===== verification/Fat_Store.thy ===== *)
theory Fat_Store
  imports Fat_Ops
begin

section \<open>The contract of the file operations\<close>

text \<open>
  The locale \<open>file_store\<close> states what the commands rely on, over an abstract view of the files; its
  clients are proved once, and it is interpreted on \<^const>\<open>create_file\<close>, \<^const>\<open>write_file\<close>,
  \<^const>\<open>delete_file\<close> and \<^const>\<open>read_file\<close>.
\<close>

definition valid_name :: "string \<Rightarrow> bool" where
  "valid_name name \<longleftrightarrow> name \<noteq> [] \<and> length name < MAX_FILE_NAME"

text \<open>What \<open>read\<close> prints for a file.\<close>

definition shown :: "string \<Rightarrow> string \<Rightarrow> string" where
  "shown name c =
     (if c = [] then ''file '' @ name @ '' is empty'' @ [newline]
      else ''Content of '' @ [CHR 0x27] @ name @ [CHR 0x27] @ '' : '' @ c @ [newline])"

locale file_store =
  fixes ok :: "'s \<Rightarrow> bool" and view :: "'s \<Rightarrow> string \<rightharpoonup> string"
    and room :: "'s \<Rightarrow> bool" and space :: "'s \<Rightarrow> nat \<Rightarrow> nat"
    and ready :: "'s \<Rightarrow> string \<Rightarrow> string \<Rightarrow> bool"
    and create :: "string \<Rightarrow> 's \<Rightarrow> (int \<times> string \<times> 's) outcome"
    and append :: "string \<Rightarrow> string \<Rightarrow> 's \<Rightarrow> (int \<times> string \<times> 's) outcome"
    and remove :: "string \<Rightarrow> 's \<Rightarrow> (int \<times> string \<times> 's) outcome"
    and contents :: "string \<Rightarrow> 's \<Rightarrow> int \<times> string"
  assumes create_new: "ok s \<Longrightarrow> valid_name name \<Longrightarrow> view s name = None \<Longrightarrow> room s \<Longrightarrow>
      \<exists>out s'. create name s = Inr (0, out, s') \<and> ok s' \<and> view s' = (view s)(name \<mapsto> [])"
    and create_refused: "ok s \<Longrightarrow> valid_name name \<Longrightarrow> view s name \<noteq> None \<or> \<not> room s \<Longrightarrow>
      \<exists>out. create name s = Inr (- 1, out, s)"
    and create_empty: "ok s \<Longrightarrow> \<exists>out. create [] s = Inr (- 1, out, s)"
    and append_found: "ok s \<Longrightarrow> view s name = Some c \<Longrightarrow> ready s c bytes \<Longrightarrow> NUL \<notin> set bytes \<Longrightarrow>
      \<exists>out s'. append name bytes s = Inr (0, out, s') \<and> ok s' \<and>
        view s' = (view s)(name \<mapsto> c @ take (space s (length c)) bytes)"
    and append_missing: "ok s \<Longrightarrow> name \<noteq> [] \<Longrightarrow> view s name = None \<Longrightarrow>
      \<exists>out. append name bytes s = Inr (- 1, out, s)"
    and remove_found: "ok s \<Longrightarrow> view s name = Some c \<Longrightarrow>
      \<exists>out s'. remove name s = Inr (0, out, s') \<and> ok s' \<and> view s' = (view s)(name := None)"
    and remove_missing: "ok s \<Longrightarrow> name \<noteq> [] \<Longrightarrow> view s name = None \<Longrightarrow>
      \<exists>out. remove name s = Inr (- 1, out, s)"
    and contents_found: "ok s \<Longrightarrow> view s name = Some c \<Longrightarrow> contents name s = (0, shown name c)"
begin

text \<open>Every operation returns and keeps the store well-formed.\<close>

lemma create_returns:
  "ok s \<Longrightarrow> length name < MAX_FILE_NAME \<Longrightarrow> \<exists>r out s'. create name s = Inr (r, out, s') \<and> ok s'"
  using create_new create_refused create_empty unfolding valid_name_def by metis

lemma append_returns:
  "ok s \<Longrightarrow> name \<noteq> [] \<Longrightarrow> (\<And>c. view s name = Some c \<Longrightarrow> ready s c bytes) \<Longrightarrow> NUL \<notin> set bytes \<Longrightarrow>
   \<exists>r out s'. append name bytes s = Inr (r, out, s') \<and> ok s'"
  using append_found append_missing by (metis option.exhaust)

lemma remove_returns:
  "ok s \<Longrightarrow> name \<noteq> [] \<Longrightarrow> \<exists>r out s'. remove name s = Inr (r, out, s') \<and> ok s'"
  using remove_found remove_missing by (metis option.exhaust)

text \<open>What is appended is what is read back, as far as there was room for it.\<close>

lemma append_contents:
  assumes "ok s" "view s name = Some c" "ready s c bytes" "NUL \<notin> set bytes"
  shows "\<exists>out s'. append name bytes s = Inr (0, out, s') \<and>
    contents name s' = (0, shown name (c @ take (space s (length c)) bytes)) \<and>
    (\<forall>other. other \<noteq> name \<and> view s other \<noteq> None \<longrightarrow> contents other s' = contents other s)"
proof -
  obtain out s' where s': "append name bytes s = Inr (0, out, s')" "ok s'"
    "view s' = (view s)(name \<mapsto> c @ take (space s (length c)) bytes)"
    using append_found [OF assms] by blast
  have "contents other s' = contents other s" if "other \<noteq> name" "view s other \<noteq> None" for other
    using that contents_found [OF assms(1), of other] contents_found [OF s'(2), of other] s'(3) by auto
  then show ?thesis using s' contents_found [OF s'(2), of name] by auto
qed

text \<open>A file that is created and removed again leaves no trace in the view.\<close>

lemma create_remove:
  assumes "ok s" and "valid_name name" and "view s name = None" and "room s"
  shows "\<exists>o1 s1 o2 s2. create name s = Inr (0, o1, s1) \<and> remove name s1 = Inr (0, o2, s2) \<and>
    ok s2 \<and> view s2 = view s"
proof -
  obtain o1 s1 where s1: "create name s = Inr (0, o1, s1)" "ok s1" "view s1 = (view s)(name \<mapsto> [])"
    using create_new [OF assms] by blast
  obtain o2 s2 where "remove name s1 = Inr (0, o2, s2)" "ok s2" "view s2 = (view s1)(name := None)"
    using remove_found [OF s1(2), of name "[]"] s1(3) by auto
  then show ?thesis using s1 assms(3) by (auto simp: fun_upd_idem)
qed

end

subsection \<open>The operations of \<^verbatim>\<open>fat.c\<close> fulfil it\<close>

lemma abs_fs_None: "name \<noteq> [] \<Longrightarrow> abs_fs fs name = None \<longleftrightarrow> find_entry fs name = None"
  by (simp add: abs_fs_def split: option.splits)

lemma has_room_search:
  "has_room fs \<longleftrightarrow> for_first 0 MAX_FILE_NUM (\<lambda>i. filename (directory fs i) = [] \<and>
      for_first 0 NUM_BLOCKS (\<lambda>j. fat_table fs j = 0) \<noteq> None) \<noteq> None"
  by (auto simp: has_room_def for_first_None)

lemma create_file_new:
  assumes "fs_ok fs" "valid_name name" "abs_fs fs name = None" "has_room fs"
  shows "\<exists>out fs'. create_file name fs = Inr (0, out, fs') \<and> fs_ok fs' \<and>
    abs_fs fs' = (abs_fs fs)(name \<mapsto> [])"
proof -
  have find: "find_entry fs name = None" "name \<noteq> []" "length name < MAX_FILE_NAME"
    using assms abs_fs_None by (auto simp: valid_name_def)
  obtain i j where "i < MAX_FILE_NUM" "filename (directory fs i) = []" "j < NUM_BLOCKS"
    "fat_table fs j = 0" "create_file name fs = Inr (0, ''File '' @ [CHR 0x27] @ name @ [CHR 0x27] @
       '' created.'' @ [newline], created fs name i j)"
    using create_file_created [OF find(1,3) assms(4)] by blast
  then show ?thesis using assms(1) created_inv [OF _ find(2,1)] unfolding fs_ok_def by blast
qed

lemma create_file_refused:
  assumes "valid_name name" "abs_fs fs name \<noteq> None \<or> \<not> has_room fs"
  shows "\<exists>out. create_file name fs = Inr (- 1, out, fs)"
  using assms unfolding has_room_search abs_fs_None [of name fs]
  by (auto simp: create_file_def abs_fs_None valid_name_def split: option.splits)

lemma create_file_empty: "\<exists>out. create_file [] fs = Inr (- 1, out, fs)"
proof (cases "find_entry fs []")
  case None
  then have "\<forall>i < MAX_FILE_NUM. filename (directory fs i) \<noteq> []"
    by (simp add: find_entry_def for_first_None)
  then have "for_first 0 MAX_FILE_NUM (\<lambda>i. filename (directory fs i) = [] \<and>
      for_first 0 NUM_BLOCKS (\<lambda>j. fat_table fs j = 0) \<noteq> None) = None" by (simp add: for_first_None)
  then show ?thesis using None by (simp add: create_file_def)
qed (simp add: create_file_def)

lemma content_length:
  assumes "fs_inv fs ch" and "live fs i"
  shows "length (content fs ch i) = entry_size fs i"
  using fs_inv_chain(3) [OF assms] blocks_for_bounds(2) [of "entry_size fs i"]
  by (simp add: content_def min_def)

lemma write_file_found:
  assumes ok: "fs_ok fs" and view: "abs_fs fs name = Some c" and app: "appendable fs c bytes"
    and nul: "NUL \<notin> set bytes"
  shows "\<exists>out fs'. write_file name bytes fs = Inr (0, out, fs') \<and> fs_ok fs' \<and>
    abs_fs fs' = (abs_fs fs)(name \<mapsto> c @ take (space_left fs (length c)) bytes)"
proof -
  obtain ch where inv: "fs_inv fs ch" using ok by (auto simp: fs_ok_def)
  obtain i where i: "live fs i" "filename (directory fs i) = name" "c = content fs ch i"
    using view abs_fs_Some [OF inv] by blast
  have lc: "length c = entry_size fs i" using content_length [OF inv i(1)] i(3) by simp
  have sz: "entry_size fs i = 0 \<or> entry_size fs i mod BLOCK_SIZE \<noteq> 0"
    using app unfolding appendable_def lc [symmetric] by auto
  have "length c mod BLOCK_SIZE < BLOCK_SIZE" by (simp add: BLOCK_SIZE_def)
  then have fits: "fat_table fs 0 \<noteq> 0 \<or> entry_size fs i mod BLOCK_SIZE + length bytes \<le> BLOCK_SIZE"
    using app unfolding appendable_def lc [symmetric] by linarith
  obtain fs' xs off w msg where res: "write_file name bytes fs =
       Inr (0, msg @ ''Data written to '' @ [CHR 0x27] @ name @ [CHR 0x27] @ ''.'' @ [newline],
            written fs' i (fsize (directory fs i) + int w))"
    and ap: "appending fs (start_block (directory fs i)) (ch i) (entry_size fs i mod BLOCK_SIZE)
               bytes fs' xs off w"
    and end': "write_done name bytes fs' off w msg"
    by (rule write_file_written [OF inv i(1,2) fits])
  have "take w bytes = take (space_left fs (length c)) bytes"
    using appending_amount [OF ap end'] unfolding lc by (simp add: min_def)
  then show ?thesis
    using res written_inv [OF inv i(1) sz nul ap] i(2,3) unfolding fs_ok_def by auto
qed

lemma delete_file_found:
  assumes "fs_ok fs" and "abs_fs fs name = Some c"
  shows "\<exists>out fs'. delete_file name fs = Inr (0, out, fs') \<and> fs_ok fs' \<and>
    abs_fs fs' = (abs_fs fs)(name := None)"
proof -
  obtain ch where inv: "fs_inv fs ch" using assms(1) by (auto simp: fs_ok_def)
  obtain i where i: "live fs i" "filename (directory fs i) = name"
    using assms(2) abs_fs_Some [OF inv] by blast
  show ?thesis
    using delete_file_deleted [OF inv i] deleted_inv [OF inv i(1)] i(2) unfolding fs_ok_def by blast
qed

lemma read_file_found:
  assumes "fs_ok fs" and "abs_fs fs name = Some c"
  shows "read_file name fs = (0, shown name c)"
proof -
  obtain ch where inv: "fs_inv fs ch" using assms(1) by (auto simp: fs_ok_def)
  obtain i where i: "live fs i" "filename (directory fs i) = name" "c = content fs ch i"
    using assms(2) abs_fs_Some [OF inv] by blast
  note chi = fs_inv_chain [OF inv i(1)]
  have "length c = entry_size fs i" using content_length [OF inv i(1)] i(3) by simp
  then have "fsize (directory fs i) = 0 \<longleftrightarrow> c = []" using chi(2) by auto
  moreover have "start_block (directory fs i) \<noteq> - 1" using chain_head [OF chi(1,5)] by simp
  ultimately show ?thesis
    using find_entry_live [OF inv i(1)] read_loop_content [OF inv i(1)] i(2,3)
    by (simp add: read_file_def shown_def)
qed

interpretation fat: file_store fs_ok abs_fs has_room space_left appendable create_file write_file delete_file read_file
proof
  show "\<exists>out. write_file name bytes fs = Inr (- 1, out, fs)"
    if "name \<noteq> []" "abs_fs fs name = None" for fs name bytes
    using that by (simp add: abs_fs_None write_file_def)
  show "\<exists>out. delete_file name fs = Inr (- 1, out, fs)"
    if "name \<noteq> []" "abs_fs fs name = None" for fs name
    using that by (simp add: abs_fs_None delete_file_def)
qed (use create_file_new create_file_refused create_file_empty write_file_found delete_file_found
    read_file_found in blast)+

end
