(* ===== verification/Fat_Properties.thy ===== *)
theory Fat_Properties
  imports Fat_Store
begin

section \<open>Properties of the FAT file system\<close>

text \<open>
  The refinement of each operation, the commands as whole program runs over the state file, and
  the two situations in which the code departs from the map it is meant to implement.
\<close>

lemma fresh_inv: "fs_inv fresh_fs (\<lambda>_. [])"
  by (simp add: fs_inv_def live_def fresh_fs_def)

lemma fresh_view: "abs_fs fresh_fs = Map.empty"
  using abs_fs_Some [OF fresh_inv] by (intro ext option_eqI) (simp add: live_def fresh_fs_def)

lemma sizes_pos: "0 < MAX_FILE_NUM" "0 < NUM_BLOCKS" "0 < BLOCK_SIZE"
  by (simp_all add: MAX_FILE_NUM_def NUM_BLOCKS_def BLOCK_SIZE_def)

lemma fresh_find: "name \<noteq> [] \<Longrightarrow> find_entry fresh_fs name = None"
  by (auto simp: find_entry_def for_first_None fresh_fs_def)

text \<open>A new disk with one empty file.\<close>

definition one_file :: "string \<Rightarrow> FileSystem" where
  "one_file name = created fresh_fs name 0 0"

abbreviation one_chain :: "nat \<Rightarrow> nat list" where
  "one_chain \<equiv> (\<lambda>_. [])(0 := [0])"

lemma create_fresh:
  assumes "valid_name name"
  shows "create_file name fresh_fs =
    Inr (0, ''File '' @ [CHR 0x27] @ name @ [CHR 0x27] @ '' created.'' @ [newline], one_file name)"
proof -
  have "for_first 0 NUM_BLOCKS (\<lambda>j. fat_table fresh_fs j = 0) = Some 0"
    "for_first 0 MAX_FILE_NUM (\<lambda>i. filename (directory fresh_fs i) = []) = Some 0"
    by (simp_all add: for_first_Some fresh_fs_def sizes_pos)
  then show ?thesis using assms fresh_find [of name]
    by (simp add: create_file_def valid_name_def one_file_def created_def)
qed

lemma one_file_ok:
  assumes "name \<noteq> []"
  shows "fs_inv (one_file name) one_chain" "abs_fs (one_file name) = [name \<mapsto> []]"
    "live (one_file name) 0" "filename (directory (one_file name) 0) = name"
    "fat_table (one_file name) 0 \<noteq> 0" "free_blocks (one_file name) = NUM_BLOCKS - 1"
    "has_room (one_file name)"
proof -
  note facts = created_inv [OF fresh_inv assms fresh_find [OF assms] sizes_pos(1) _ sizes_pos(2)]
  show inv: "fs_inv (one_file name) one_chain" and "abs_fs (one_file name) = [name \<mapsto> []]"
    using facts unfolding one_file_def by (simp_all add: fresh_fs_def [symmetric] fresh_view) (simp_all add: fresh_fs_def)
  show lv: "live (one_file name) 0" and nm: "filename (directory (one_file name) 0) = name"
    using assms by (simp_all add: live_def one_file_def created_def sizes_pos)
  show "fat_table (one_file name) 0 \<noteq> 0" by (simp add: one_file_def created_def FAT_EOF_def)
  have "{b. b < NUM_BLOCKS \<and> fat_table (one_file name) b = 0} = {1..<NUM_BLOCKS}"
    by (auto simp: one_file_def created_def fresh_fs_def FAT_EOF_def)
  then show "free_blocks (one_file name) = NUM_BLOCKS - 1" by (simp add: free_blocks_card)
  show "has_room (one_file name)"
    unfolding has_room_def
    by (intro conjI exI [of _ 1])
      (simp_all add: one_file_def created_def fresh_fs_def MAX_FILE_NUM_def NUM_BLOCKS_def)
qed

text \<open>
  C29. Creating a file under a new name, in a well-formed file system with a free directory slot and a
  free block, succeeds, keeps the file system well-formed and adds the name with empty contents; with
  the name taken or no room it returns -1 and changes nothing.
\<close>

theorem create_file_refines:
  assumes "fs_ok fs" and "valid_name name"
  shows "(abs_fs fs name = None \<and> has_room fs \<longrightarrow>
      (\<exists>out fs'. create_file name fs = Inr (0, out, fs') \<and> fs_ok fs' \<and>
         abs_fs fs' = (abs_fs fs)(name \<mapsto> []))) \<and>
    (abs_fs fs name \<noteq> None \<or> \<not> has_room fs \<longrightarrow> (\<exists>out. create_file name fs = Inr (- 1, out, fs)))"
  using fat.create_new [OF assms] fat.create_refused [OF assms] by blast

theorem create_file_refines_witness:
  "\<exists>out fs'. create_file ''b'' (one_file ''a'') = Inr (0, out, fs') \<and> fs_ok fs' \<and>
     abs_fs fs' = [''a'' \<mapsto> [], ''b'' \<mapsto> []]"
proof -
  have "fs_ok (one_file ''a'')" using one_file_ok(1) [of "''a''"] unfolding fs_ok_def by blast
  then show ?thesis
    using create_file_refines [of "one_file ''a''" "''b''"] one_file_ok [of "''a''"]
    by (simp add: valid_name_def MAX_FILE_NAME_def)
qed



text \<open>
  C10. Deleting an existing file ends, removes exactly that name from the view and keeps the file
  system well-formed, so the blocks of the file, and only those, are free again; deleting a missing
  name returns -1 and changes nothing.
\<close>

theorem delete_file_refines:
  assumes "fs_ok fs" and "name \<noteq> []"
  shows "if abs_fs fs name = None then \<exists>out. delete_file name fs = Inr (- 1, out, fs)
    else \<exists>out fs'. delete_file name fs = Inr (0, out, fs') \<and> fs_ok fs' \<and>
           abs_fs fs' = (abs_fs fs)(name := None)"
  using fat.remove_missing [OF assms] fat.remove_found [OF assms(1), of name] by auto

theorem delete_file_refines_witness:
  "\<exists>out fs'. delete_file ''a'' (one_file ''a'') = Inr (0, out, fs') \<and> fs_ok fs' \<and> abs_fs fs' = Map.empty"
proof -
  have "fs_ok (one_file ''a'')" using one_file_ok(1) [of "''a''"] unfolding fs_ok_def by blast
  then show ?thesis
    using delete_file_refines [of "one_file ''a''" "''a''"] one_file_ok(2) [of "''a''"]
    by (auto simp: fun_upd_idem)
qed

subsection \<open>Whole runs\<close>

text \<open>
  The command lines under which the program keeps its state file intact.  A name to create fits in its
  field, a name to write to or to delete is not empty, and a write is one that finds its place; every
  other command line is fine.
\<close>

definition safe_command :: "FileSystem \<Rightarrow> string list \<Rightarrow> bool" where
  "safe_command fs argv \<longleftrightarrow>
     (length argv = 3 \<and> argv ! 1 = ''create'' \<longrightarrow> length (argv ! 2) < MAX_FILE_NAME) \<and>
     (length argv = 4 \<and> argv ! 1 = ''write'' \<longrightarrow> argv ! 2 \<noteq> [] \<and>
        (case abs_fs fs (argv ! 2) of None \<Rightarrow> True | Some c \<Rightarrow> appendable fs c (argv ! 3))) \<and>
     (length argv = 3 \<and> argv ! 1 = ''delete'' \<longrightarrow> argv ! 2 \<noteq> [])"

lemma execute_cmd_ok:
  assumes ok: "fs_ok fs" and cmd: "safe_command fs argv" and len: "2 \<le> length argv"
    and str: "\<forall>a \<in> set argv. NUL \<notin> set a"
  shows "\<exists>out fs'. execute_cmd (argv ! 1) (arg argv 2) (arg argv 3) (int (length argv)) fs =
    Inr (out, fs') \<and> fs_ok fs'"
proof -
  consider (create) "argv ! 1 = ''create''" "length argv = 3"
    | (append) "argv ! 1 = ''write''" "length argv = 4" | (delete) "argv ! 1 = ''delete''" "length argv = 3"
    | (other) "\<not> (argv ! 1 = ''create'' \<and> length argv = 3)" "\<not> (argv ! 1 = ''write'' \<and> length argv = 4)"
        "\<not> (argv ! 1 = ''delete'' \<and> length argv = 3)"
    by blast
  then show ?thesis
  proof cases
    case create
    then show ?thesis using fat.create_returns [OF ok, of "argv ! 2"] cmd
      by (auto simp: execute_cmd_def arg_def safe_command_def)
  next
    case append
    then have "argv ! 3 \<in> set argv" by simp
    then have "NUL \<notin> set (argv ! 3)" using str by blast
    moreover have "appendable fs c (argv ! 3)" if "abs_fs fs (argv ! 2) = Some c" for c
      using that append cmd by (simp add: safe_command_def)
    ultimately show ?thesis using fat.append_returns [OF ok, of "argv ! 2" "argv ! 3"] append cmd
      by (auto simp: execute_cmd_def arg_def safe_command_def)
  next
    case delete
    then show ?thesis using fat.remove_returns [OF ok, of "argv ! 2"] cmd
      by (auto simp: execute_cmd_def arg_def safe_command_def)
  next
    case other
    then show ?thesis using ok len by (auto simp: execute_cmd_def arg_def)
  qed
qed

text \<open>A name that does not fit in its field overruns it, when there is room for the file.\<close>

lemma create_long_name:
  assumes "find_entry fs name = None" and "has_room fs" and "MAX_FILE_NAME \<le> length name"
  shows "create_file name fs = Inl Out_Of_Bounds"
  using assms unfolding has_room_search by (auto simp: create_file_def has_room_def for_first_None
      split: option.splits)



text \<open>On a disk with one new file, appending stops early only after the whole disk is written.\<close>

lemma one_file_write:
  assumes "name \<noteq> []" and "NUL \<notin> set bytes" and "length bytes \<le> NUM_BLOCKS * BLOCK_SIZE"
  obtains out fs' where "write_file name bytes (one_file name) = Inr (0, out, fs')" "fs_ok fs'"
    "abs_fs fs' = [name \<mapsto> bytes]"
proof -
  note one = one_file_ok [OF assms(1)]
  have "fs_ok (one_file name)" using one(1) unfolding fs_ok_def by blast
  moreover have "appendable (one_file name) [] bytes" using one(5) by (simp add: appendable_def)
  moreover have "length bytes \<le> space_left (one_file name) 0"
    using assms(3) by (simp add: space_left_def one(6) NUM_BLOCKS_def BLOCK_SIZE_def)
  ultimately show ?thesis
    using that fat.append_found [of "one_file name" name "[]" bytes] one(2) assms(2) by auto
qed

text \<open>
  C3. Three runs of the program, from no state file: \<open>create\<close>, \<open>write\<close> with any data up to the
  size of the disk, and \<open>read\<close>, which prints exactly the data written.
\<close>

theorem fat_session_roundtrip:
  assumes "valid_name name" and "NUL \<notin> set bytes" and "length bytes \<le> NUM_BLOCKS * BLOCK_SIZE"
  shows "\<exists>out1 fs1 out2 fs2.
    fat_main True [prog, ''create'', name] None = Inr (0, out1, Some fs1) \<and>
    fat_main True [prog, ''write'', name, bytes] (Some fs1) = Inr (0, out2, Some fs2) \<and>
    fat_main True [prog, ''read'', name] (Some fs2) = Inr (0, shown name bytes, Some fs2)"
proof -
  have "name \<noteq> []" using assms(1) by (simp add: valid_name_def)
  from one_file_write [OF this assms(2,3)] obtain out fs' where
    wr: "write_file name bytes (one_file name) = Inr (0, out, fs')" "fs_ok fs'" "abs_fs fs' = [name \<mapsto> bytes]" .
  have "read_file name fs' = (0, shown name bytes)" using fat.contents_found [OF wr(2), of name] wr(3) by simp
  then show ?thesis using create_fresh [OF assms(1)] wr(1)
    by (simp add: fat_main_def load_file_system_def save_file_system_def execute_cmd_def arg_def)
qed

theorem fat_session_roundtrip_witness:
  "\<exists>out1 fs1 out2 fs2.
    fat_main True [''fat'', ''create'', ''a''] None = Inr (0, out1, Some fs1) \<and>
    fat_main True [''fat'', ''write'', ''a'', ''hello''] (Some fs1) = Inr (0, out2, Some fs2) \<and>
    fat_main True [''fat'', ''read'', ''a''] (Some fs2) =
      Inr (0, ''Content of '' @ [CHR 0x27] @ ''a'' @ [CHR 0x27] @ '' : hello'' @ [newline], Some fs2)"
  using fat_session_roundtrip [of "''a''" "''hello''" "''fat''"]
  by (simp add: valid_name_def NUL_def shown_def MAX_FILE_NAME_def NUM_BLOCKS_def BLOCK_SIZE_def)

subsection \<open>Where the code departs from the map\<close>

lemma write_loop_one_block:
  assumes b: "b < NUM_BLOCKS" and len: "bytes \<noteq> []" "length bytes \<le> BLOCK_SIZE"
  obtains fs' where "write_loop name bytes fs (int b) 0 0 = Inr (Some (length bytes, []), fs')"
    and "fat_table fs' = fat_table fs" and "directory fs' = directory fs"
    and "block_bytes fs' b = bytes @ drop (length bytes) (block_bytes fs b)"
    and "\<And>c. c \<noteq> b \<Longrightarrow> block_bytes fs' c = block_bytes fs c"
proof -
  obtain fs' where put: "data_put fs (int b * int BLOCK_SIZE + int 0) bytes = Inr fs'"
    and facts: "fat_table fs' = fat_table fs" "directory fs' = directory fs"
      "block_bytes fs' b = take 0 (block_bytes fs b) @ bytes @ drop (0 + length bytes) (block_bytes fs b)"
      "\<And>c. c \<noteq> b \<Longrightarrow> block_bytes fs' c = block_bytes fs c"
    using data_put_block [OF b, of 0 bytes fs] len by auto
  have "write_loop name bytes fs' (int b) (int (length bytes)) (length bytes) =
      Inr (Some (length bytes, []), fs')" by (subst write_loop.simps) simp
  moreover have "write_amount (length bytes) 0 0 = length bytes"
    using write_amount_nat [of 0 bytes 0] len sizes_pos(3) by simp
  ultimately have "write_loop name bytes fs (int b) 0 0 = Inr (Some (length bytes, []), fs')"
    using len b put sizes_pos(3)
    by (subst write_loop.simps) (simp add: block_ok_int write_block_def Let_def)
  with facts show ?thesis using that by simp
qed

lemma blocks_for_aligned:
  assumes "0 < n" and "n mod BLOCK_SIZE = 0"
  shows "blocks_for n * BLOCK_SIZE = n"
proof -
  obtain k where "n = BLOCK_SIZE * k" using assms(2) by auto
  moreover from this have "blocks_for n = k"
    using assms(1) sizes_pos(3) by (intro blocks_for_unique) (auto simp: diff_mult_distrib2)
  ultimately show ?thesis by simp
qed

lemma write_file_aligned:
  assumes inv: "fs_inv fs ch" and i: "live fs i" "filename (directory fs i) = name"
    and sz: "entry_size fs i \<noteq> 0" "entry_size fs i mod BLOCK_SIZE = 0"
    and len: "bytes \<noteq> []" "length bytes \<le> BLOCK_SIZE"
  obtains out fs' where "write_file name bytes fs = Inr (0, out, written fs' i (fsize (directory fs i) + int (length bytes)))"
    and "fat_table fs' = fat_table fs" and "directory fs' = directory fs"
    and "block_bytes fs' (last (ch i)) = bytes @ drop (length bytes) (block_bytes fs (last (ch i)))"
    and "\<And>c. c \<noteq> last (ch i) \<Longrightarrow> block_bytes fs' c = block_bytes fs c"
proof -
  note chi = fs_inv_chain [OF inv i(1)]
  let ?b = "start_block (directory fs i)"
  have last: "last (ch i) < NUM_BLOCKS" using chain_blocks [OF chi(1)] chi(5) by simp
  have ok: "block_ok ?b"
    using chain_head [OF chi(1,5)] chain_blocks [OF chi(1)] chi(5) by (simp add: block_ok_int)
  have "BLOCK_SIZE * (length (ch i) - 1) \<le> entry_size fs i"
    using chi(3) blocks_for_bounds(3) [of "entry_size fs i"] sz(1) by simp
  then have walk: "write_walk fs ?b (fsize (directory fs i)) = Inr (int (last (ch i)))"
    using write_walk_last [OF chi(1,5), of "entry_size fs i"] chi(2) by simp
  obtain fs' where loop: "write_loop name bytes fs (int (last (ch i))) 0 0 = Inr (Some (length bytes, []), fs')"
    and facts: "fat_table fs' = fat_table fs" "directory fs' = directory fs"
      "block_bytes fs' (last (ch i)) = bytes @ drop (length bytes) (block_bytes fs (last (ch i)))"
      "\<And>c. c \<noteq> last (ch i) \<Longrightarrow> block_bytes fs' c = block_bytes fs c"
    using write_loop_one_block [where fs = fs and name = name, OF last len] by blast
  have "write_file name bytes fs = Inr (0, ''Data written to '' @ [CHR 0x27] @ name @ [CHR 0x27] @
      ''.'' @ [newline], written fs' i (fsize (directory fs i) + int (length bytes)))"
    using find_entry_live [OF inv i(1)] i(2) ok walk loop c_rem_nonneg [OF chi(2)] sz(2)
    by (simp add: write_file_def Let_def written_def)
  then show ?thesis using that facts by blast
qed

text \<open>
  C39. Appending to a file whose size is a positive multiple of the block size does not append: the
  code starts over at offset 0 of the last block.  The call reports success, but the bytes written
  replace the first bytes of the last block, and the file read back is as long as before.
\<close>

theorem aligned_append_overwrites:
  assumes "fs_ok fs" and "abs_fs fs name = Some c" and "c \<noteq> []" and "length c mod BLOCK_SIZE = 0"
    and "bytes \<noteq> []" and "length bytes \<le> BLOCK_SIZE" and "NUL \<notin> set bytes"
  shows "\<exists>out fs'. write_file name bytes fs = Inr (0, out, fs') \<and>
    abs_fs fs' name = Some (take (length c - BLOCK_SIZE) c @ bytes @
                            drop (length c - BLOCK_SIZE + length bytes) c)"
proof -
  obtain ch where inv: "fs_inv fs ch" using assms(1) by (auto simp: fs_ok_def)
  obtain i where i: "live fs i" "filename (directory fs i) = name" "c = content fs ch i"
    using assms(2) abs_fs_Some [OF inv] by blast
  note chi = fs_inv_chain [OF inv i(1)]
  have lc: "length c = entry_size fs i"
    using chi(3) blocks_for_bounds(2) [of "entry_size fs i"] i(3) by (simp add: content_def min_def)
  have pos: "entry_size fs i \<noteq> 0" using lc assms(3) by (metis length_0_conv)
  obtain ys l where ys: "ch i = ys @ [l]" using chi(5) by (cases "ch i" rule: rev_cases) auto
  have "blocks_for (length c) = Suc (length ys)"
    unfolding lc chi(3) [symmetric] ys by simp
  then have size: "length c = BLOCK_SIZE * length ys + BLOCK_SIZE"
    using blocks_for_aligned [of "length c"] assms(3,4) by (simp add: mult.commute add.commute)
  have c: "c = chain_bytes fs ys @ block_bytes fs l"
    using i(3) size ys lc unfolding content_def by simp
  obtain out fs' where wr: "write_file name bytes fs =
      Inr (0, out, written fs' i (fsize (directory fs i) + int (length bytes)))"
    and facts: "fat_table fs' = fat_table fs" "directory fs' = directory fs"
      "block_bytes fs' l = bytes @ drop (length bytes) (block_bytes fs l)"
      "\<And>c. c \<noteq> l \<Longrightarrow> block_bytes fs' c = block_bytes fs c"
    using write_file_aligned [OF inv i(1,2) pos assms(4) [unfolded lc] assms(5,6)] ys by auto
  let ?fs = "written fs' i (fsize (directory fs i) + int (length bytes))"
  have "l \<notin> set ys" using chain_distinct [OF chi(1)] ys by simp
  then have "chain_bytes fs' ys = chain_bytes fs ys" using facts(4) by (intro chain_bytes_cong) metis
  then have bytes': "chain_bytes ?fs (ch i) = chain_bytes fs ys @ bytes @ drop (length bytes) (block_bytes fs l)"
    using facts(3) ys by (simp add: written_def)
  have new: "chain_bytes ?fs (ch i) = take (length c - BLOCK_SIZE) c @ bytes @
      drop (length c - BLOCK_SIZE + length bytes) c" (is "_ = ?new")
    unfolding bytes' using size c by simp
  have nul: "NUL \<notin> set ?new"
    using chi(4) assms(7) i(3) by (auto dest: in_set_takeD in_set_dropD)
  have "length ?new = length c" using size assms(6) by simp
  then have all: "take (length c + length bytes - 0) (chain_bytes ?fs (ch i)) = ?new" unfolding new by simp
  have "chain (fat_table ?fs) (start_block (directory fs i)) (ch i)" using chi(1) facts(1) by (simp add: written_def)
  then have "read_loop ?fs (start_block (directory fs i)) (int 0) (int (length c + length bytes)) = (True, ?new)"
    using read_loop_chain [of ?fs _ "ch i" 0 "length c + length bytes"] nul unfolding all by simp
  moreover have "filename (directory ?fs k) = filename (directory fs k)" for k
    by (simp add: written_def facts(2))
  then have "find_entry ?fs name = find_entry fs name" by (simp add: find_entry_def)
  ultimately have "abs_fs ?fs name = Some ?new"
    using find_entry_live [OF inv i(1)] i(1,2) chi(2) lc facts(2)
    by (simp add: abs_fs_def live_def written_def)
  then show ?thesis using wr by blast
qed

theorem aligned_append_overwrites_witness:
  "\<exists>fs out fs'. abs_fs fs ''a'' = Some (replicate 32 CHR ''x'') \<and>
     write_file ''a'' ''yy'' fs = Inr (0, out, fs') \<and>
     abs_fs fs' ''a'' = Some (''yy'' @ replicate 30 CHR ''x'')"
proof -
  let ?x = "replicate 32 CHR ''x''"
  have "NUL \<notin> set ?x" by (simp add: NUL_def)
  then obtain out fs where fs: "fs_ok fs" "abs_fs fs = [''a'' \<mapsto> ?x]"
    using one_file_write [of "''a''" ?x] by (auto simp: NUM_BLOCKS_def BLOCK_SIZE_def)
  have len: "length ?x = BLOCK_SIZE" by (simp only: length_replicate BLOCK_SIZE_def)
  have view: "abs_fs fs ''a'' = Some ?x" using fs(2) by simp
  have "\<exists>out fs'. write_file ''a'' ''yy'' fs = Inr (0, out, fs') \<and>
      abs_fs fs' ''a'' = Some (take (length ?x - BLOCK_SIZE) ?x @ ''yy'' @
        drop (length ?x - BLOCK_SIZE + length ''yy'') ?x)"
    by (rule aligned_append_overwrites [OF fs(1) view])
      (simp_all only: len, simp_all add: BLOCK_SIZE_def NUL_def)
  then show ?thesis using view unfolding len by auto
qed

text \<open>
  Linking block 0 behind a block \<open>b\<close> writes the mark of a free block into the entry of \<open>b\<close>: once
  block 0 has been freed, a file that grows into it loses its own block.
\<close>

lemma write_block_links_zero:
  assumes "fat_table fs 0 = 0" and "b \<noteq> 0"
  shows "\<exists>fs'. write_block fs (int b) (int BLOCK_SIZE) = Some (fs', 0, 0) \<and> fat_table fs' b = 0"
proof -
  have "for_first 0 NUM_BLOCKS (\<lambda>i. fat_table fs i = 0) = Some 0"
    using assms(1) sizes_pos(2) by (simp add: for_first_Some)
  then show ?thesis
    using assms(2) by (simp add: write_block_def find_free_block_def index_or_minus1_simps)
qed

text \<open>Following the chain of an unused block 0 never ends, and neither does one that leads there.\<close>

lemma free_chain_zero: "free_chain fs b = Some r \<Longrightarrow> b = 0 \<Longrightarrow> fat_table fs 0 = 0 \<Longrightarrow> False"
proof (induction rule: free_chain.raw_induct [rotated 1, consumes 1, case_names step])
  case (step f fs b r)
  then show ?case
    using step.IH [of "fat_set fs 0 0" 0 r]
    by (auto simp: fat_get_def block_ok_def NUM_BLOCKS_def FAT_EOF_def)
qed

lemma free_chain_free:
  assumes "b < NUM_BLOCKS" and "fat_table fs b = 0" and "fat_table fs 0 = 0"
  shows "free_chain fs (int b) = None"
proof -
  have zero: "free_chain fs' 0 = None" if "fat_table fs' 0 = 0" for fs'
    using free_chain_zero [of fs' 0] that by (cases "free_chain fs' 0") auto
  have "fat_table (fat_set fs b 0) 0 = 0" using assms(3) by simp
  then show ?thesis using assms(1,2) zero
    by (subst free_chain.simps) (simp add: fat_get_def block_ok_int FAT_EOF_def NUM_BLOCKS_def)
qed



end
