(* ===== verification/Sched.thy ===== *)
theory Sched
  imports C_Stdio
begin

section \<open>The CPU scheduling simulator (Assignment2-3)\<close>

text \<open>
  The four scheduling algorithms of \<^verbatim>\<open>cpu_scheduler.c\<close>.  The globals \<open>P\<close> and \<open>segs\<close> and
  the locals \<open>now\<close> and \<open>prev_pid\<close> (\<open>running_pid\<close>, \<open>prev\<close>) of a simulation are the record
  \<open>sim\<close>.  Times are \<open>double\<close>, one rounding per operation.  Line 96 names an undeclared
  \<open>eend\<close>, line 311 has a stray \<open>/\<close> and line 624 uses \<open>true\<close> without its header; they are
  read as \<open>end\<close>, as nothing and as \<open>1\<close>.
\<close>

definition MAX_TASKS :: nat where "MAX_TASKS = 1000"
definition CS_OVERHEAD :: double where "CS_OVERHEAD = dround (1 / 10)"
definition PID_IDLE :: int where "PID_IDLE = - 1"
definition PID_CS :: int where "PID_CS = - 2"

text \<open>The literal \<open>1e-9\<close>.\<close>

definition EPS :: double where "EPS = dround (1 / 10 ^ 9)"

record Proc =
  pid :: int
  arrival :: int
  burst :: int
  remain :: double
  first_start :: double
  finish :: double
  started :: bool
  is_done :: bool

record Segment =
  seg_start :: double
  seg_end :: double
  seg_pid :: int

record sim =
  procs :: "Proc list"
  segs :: "Segment list"
  now :: double
  cur :: int

definition add_seg :: "double \<Rightarrow> double \<Rightarrow> int \<Rightarrow> Segment list \<Rightarrow> Segment list" where
  "add_seg st en p ss =
     (if en \<le> st then ss
      else if ss \<noteq> [] \<and> \<bar>dsub (seg_end (last ss)) st\<bar> < EPS \<and> seg_pid (last ss) = p then
        butlast ss @ [(last ss)\<lparr>seg_end := en\<rparr>]
      else ss @ [\<lparr>seg_start = st, seg_end = en, seg_pid = p\<rparr>])"

definition cmp_arrival :: "Proc \<Rightarrow> Proc \<Rightarrow> int" where
  "cmp_arrival x y =
     (if arrival x \<noteq> arrival y then arrival x - arrival y else pid x - pid y)"

text \<open>\<open>!p.done && p.arrival <= now + 1e-9\<close>\<close>

definition ready :: "double \<Rightarrow> Proc \<Rightarrow> bool" where
  "ready t p \<longleftrightarrow> \<not> is_done p \<and> of_int (arrival p) \<le> dadd t EPS"

definition any_ready :: "double \<Rightarrow> Proc list \<Rightarrow> bool" where
  "any_ready t ps = (for_first 0 (length ps) (\<lambda>i. ready t (ps ! i)) \<noteq> None)"

definition all_done :: "Proc list \<Rightarrow> bool" where
  "all_done ps = (for_first 0 (length ps) (\<lambda>i. \<not> is_done (ps ! i)) = None)"

text \<open>
  The selection loops: the best index so far, replaced when the candidate is eligible and beats it.
\<close>

definition select :: "(Proc \<Rightarrow> bool) \<Rightarrow> (Proc \<Rightarrow> Proc \<Rightarrow> bool) \<Rightarrow> Proc list \<Rightarrow> nat option" where
  "select elig beats ps =
     for_loop 0 (length ps)
       (\<lambda>i best. if elig (ps ! i) then
                   (case best of None \<Rightarrow> Some i
                    | Some b \<Rightarrow> if beats (ps ! i) (ps ! b) then Some i else best)
                 else best) None"

definition next_arrival_after :: "double \<Rightarrow> Proc list \<Rightarrow> nat option" where
  "next_arrival_after t =
     select (\<lambda>p. \<not> is_done p \<and> dadd t EPS < of_int (arrival p)) (\<lambda>p b. arrival p < arrival b)"

definition pick_FCFS :: "double \<Rightarrow> Proc list \<Rightarrow> nat option" where
  "pick_FCFS t =
     select (ready t)
       (\<lambda>p b. arrival p < arrival b \<or> arrival p = arrival b \<and> pid p < pid b)"

definition pick_SJF :: "double \<Rightarrow> Proc list \<Rightarrow> nat option" where
  "pick_SJF t =
     select (ready t)
       (\<lambda>p b. burst p < burst b \<or>
              burst p = burst b \<and> (arrival p < arrival b \<or> arrival p = arrival b \<and> pid p < pid b))"

definition pick_SRTF :: "double \<Rightarrow> Proc list \<Rightarrow> nat option" where
  "pick_SRTF t =
     select (ready t)
       (\<lambda>p b. remain p < remain b \<or>
              \<bar>dsub (remain p) (remain b)\<bar> < EPS \<and>
                (arrival p < arrival b \<or> arrival p = arrival b \<and> pid p < pid b))"

subsection \<open>The report\<close>

text \<open>The pid shown for the millisecond \<open>t\<close>: the first segment that covers it, or idle.\<close>

definition gantt_pid :: "Segment list \<Rightarrow> nat \<Rightarrow> int" where
  "gantt_pid ss t =
     (case for_first 0 (length ss)
             (\<lambda>i. seg_start (ss ! i) \<le> dadd (of_nat t) EPS \<and> dadd (of_nat t) EPS < seg_end (ss ! i)) of
        None \<Rightarrow> PID_IDLE
      | Some i \<Rightarrow> seg_pid (ss ! i))"

definition print_gantt :: "double \<Rightarrow> Segment list \<Rightarrow> string outcome" where
  "print_gantt makespan ss =
     (let last_t = \<lceil>dsub makespan EPS\<rceil> in
      if \<not> is_int32 last_t then Inl Overflow
      else Inr (''Gantt Chart:'' @ [newline] @ ''|'' @
                concat (map (\<lambda>t. let p = gantt_pid ss t in
                                 if p = PID_CS then [] else '' P'' @ show_d p @ '' |'')
                         [0..<nat last_t]) @ [newline]))"

record stats =
  sum_wait :: double
  sum_resp :: double
  sum_turn :: double
  sum_of_burst :: double
  finish_max :: double

definition stats_step :: "Proc list \<Rightarrow> nat \<Rightarrow> stats \<Rightarrow> stats" where
  "stats_step ps i st =
     (let p = ps ! i;
          wait = dsub (dsub (finish p) (of_int (arrival p))) (of_int (burst p));
          resp = dsub (first_start p) (of_int (arrival p));
          turn = dsub (finish p) (of_int (arrival p)) in
      \<lparr>sum_wait = dadd (sum_wait st) wait, sum_resp = dadd (sum_resp st) resp,
       sum_turn = dadd (sum_turn st) turn, sum_of_burst = dadd (sum_of_burst st) (of_int (burst p)),
       finish_max = (if finish_max st < finish p then finish p else finish_max st)\<rparr>)"

definition compute_stats :: "Proc list \<Rightarrow> stats" where
  "compute_stats ps =
     for_loop 0 (length ps) (stats_step ps)
       \<lparr>sum_wait = 0, sum_resp = 0, sum_turn = 0, sum_of_burst = 0, finish_max = 0\<rparr>"

definition cpu_util :: "stats \<Rightarrow> double" where
  "cpu_util st = (if 0 < finish_max st then dmul (ddiv (sum_of_burst st) (finish_max st)) 100 else 0)"

definition print_stats :: "Proc list \<Rightarrow> string" where
  "print_stats ps =
     (let st = compute_stats ps; n = of_nat (length ps) in
      ''Average Waiting Time =  '' @ show_f2 (ddiv (sum_wait st) n) @ [newline] @
      ''Average Turnaround Time = '' @ show_f2 (ddiv (sum_turn st) n) @ [newline] @
      ''Average Response Time = '' @ show_f2 (ddiv (sum_resp st) n) @ [newline] @
      ''CPU Utilization = '' @ show_f2 (cpu_util st) @ '' %'' @ [newline])"

definition report :: "double \<Rightarrow> sim \<Rightarrow> string outcome" where
  "report makespan s =
     bind_outcome (print_gantt makespan (segs s)) (\<lambda>g. Inr (g @ print_stats (procs s)))"

text \<open>\<open>print_gantt (segs[segc - 1].end); print_stats ();\<close>\<close>

definition report_last :: "sim \<Rightarrow> string outcome" where
  "report_last s = (if segs s = [] then Inl Out_Of_Bounds else report (seg_end (last (segs s))) s)"

subsection \<open>FCFS and SJF\<close>

definition sim_init :: "Proc list \<Rightarrow> sim" where
  "sim_init ps = \<lparr>procs = ps, segs = [], now = 0, cur = PID_IDLE\<rparr>"

text \<open>\<open>add_seg (now, t, p); now = t;\<close>\<close>

definition advance :: "double \<Rightarrow> int \<Rightarrow> sim \<Rightarrow> sim" where
  "advance t p s = s\<lparr>segs := add_seg (now s) t p (segs s), now := t\<rparr>"

definition idle_until :: "nat \<Rightarrow> sim \<Rightarrow> sim" where
  "idle_until nx s = advance (of_int (arrival (procs s ! nx))) PID_IDLE s"

definition context_switch :: "nat \<Rightarrow> sim \<Rightarrow> sim" where
  "context_switch k s =
     (if cur s \<noteq> pid (procs s ! k) \<and> cur s \<noteq> PID_IDLE then
        advance (dadd (now s) CS_OVERHEAD) PID_CS s
      else s)"

definition note_start :: "nat \<Rightarrow> sim \<Rightarrow> sim" where
  "note_start k s =
     (if \<not> started (procs s ! k) then
        s\<lparr>procs := (procs s)[k := (procs s ! k)\<lparr>first_start := now s, started := True\<rparr>]\<rparr>
      else s)"

text \<open>Running to completion.\<close>

definition run_to_end :: "nat \<Rightarrow> sim \<Rightarrow> sim" where
  "run_to_end k s =
     (let p = procs s ! k; t = dadd (now s) (remain p) in
      (advance t (pid p) s)\<lparr>procs := (procs s)[k := p\<lparr>remain := 0, is_done := True, finish := t\<rparr>],
                            cur := pid p\<rparr>)"

text \<open>The body after the idle check; the loops of FCFS and SJF differ in \<open>pick\<close> only.\<close>

definition dispatch :: "(double \<Rightarrow> Proc list \<Rightarrow> nat option) \<Rightarrow> sim \<Rightarrow> (sim + sim) outcome" where
  "dispatch pick s =
     (case pick (now s) (procs s) of
        None \<Rightarrow> Inl Out_Of_Bounds
      | Some k \<Rightarrow> Inr (Inr (run_to_end k (note_start k (context_switch k s)))))"

definition np_body :: "(double \<Rightarrow> Proc list \<Rightarrow> nat option) \<Rightarrow> sim \<Rightarrow> (sim + sim) outcome" where
  "np_body pick s =
     (if all_done (procs s) then Inr (Inl s)
      else if any_ready (now s) (procs s) then dispatch pick s
      else (case next_arrival_after (now s) (procs s) of
              None \<Rightarrow> Inr (Inl s)
            | Some nx \<Rightarrow> dispatch pick (idle_until nx s)))"

definition simulate_FCFS :: "Proc list \<Rightarrow> string outcome" where
  "simulate_FCFS ps =
     bind_outcome (run_loop (np_body pick_FCFS) (sim_init ps)) (\<lambda>s. report (now s) s)"

definition simulate_SJF :: "Proc list \<Rightarrow> string outcome" where
  "simulate_SJF ps =
     bind_outcome (run_loop (np_body pick_SJF) (sim_init ps)) (\<lambda>s. report (now s) s)"

subsection \<open>SRTF\<close>

definition srtf_switch :: "nat \<Rightarrow> sim \<Rightarrow> sim" where
  "srtf_switch k s =
     (if cur s \<noteq> pid (procs s ! k) then note_start k (context_switch k s) else s)"

definition srtf_next_event :: "nat \<Rightarrow> sim \<Rightarrow> double" where
  "srtf_next_event k s =
     (let t = dadd (now s) (remain (procs s ! k)) in
      case next_arrival_after (now s) (procs s) of
        None \<Rightarrow> t
      | Some nx \<Rightarrow> min t (of_int (arrival (procs s ! nx))))"

definition srtf_run :: "nat \<Rightarrow> sim \<Rightarrow> sim" where
  "srtf_run k s =
     (let p = procs s ! k; next_event = srtf_next_event k s; ran = dsub next_event (now s);
          left = dsub (remain p) ran; s1 = advance next_event (pid p) s in
      if left \<le> EPS then
        s1\<lparr>procs := (procs s)[k := p\<lparr>remain := 0, is_done := True, finish := next_event\<rparr>],
           cur := PID_IDLE\<rparr>
      else s1\<lparr>procs := (procs s)[k := p\<lparr>remain := left\<rparr>], cur := pid p\<rparr>)"

definition srtf_dispatch :: "sim \<Rightarrow> (sim + sim) outcome" where
  "srtf_dispatch s =
     (case pick_SRTF (now s) (procs s) of
        None \<Rightarrow> Inl Out_Of_Bounds
      | Some k \<Rightarrow> Inr (Inr (srtf_run k (srtf_switch k s))))"

definition srtf_body :: "sim \<Rightarrow> (sim + sim) outcome" where
  "srtf_body s =
     (if all_done (procs s) then Inr (Inl s)
      else if any_ready (now s) (procs s) then srtf_dispatch s
      else (case next_arrival_after (now s) (procs s) of
              None \<Rightarrow> Inr (Inl s)
            | Some nx \<Rightarrow> srtf_dispatch (idle_until nx s)))"

definition simulate_SRTF :: "Proc list \<Rightarrow> string outcome" where
  "simulate_SRTF ps = bind_outcome (run_loop srtf_body (sim_init ps)) report_last"

subsection \<open>Round robin\<close>

text \<open>
  The queue: the cells written so far, so that \<open>r\<close> is their number, and the front index.  Neither
  index wraps around, and a push beyond the array is out of bounds.
\<close>

record Queue =
  q_cells :: "nat list"
  q_f :: nat

definition q_init :: Queue where
  "q_init = \<lparr>q_cells = [], q_f = 0\<rparr>"

definition q_empty :: "Queue \<Rightarrow> bool" where
  "q_empty Q \<longleftrightarrow> q_f Q = length (q_cells Q)"

definition q_push :: "Queue \<Rightarrow> nat \<Rightarrow> Queue outcome" where
  "q_push Q x =
     (if length (q_cells Q) < MAX_TASKS then Inr (Q\<lparr>q_cells := q_cells Q @ [x]\<rparr>)
      else Inl Out_Of_Bounds)"

definition q_pop :: "Queue \<Rightarrow> (nat \<times> Queue) outcome" where
  "q_pop Q =
     (if q_f Q < length (q_cells Q) then Inr (q_cells Q ! q_f Q, Q\<lparr>q_f := q_f Q + 1\<rparr>)
      else Inl Out_Of_Bounds)"

text \<open>The loops \<open>for (i = 0; i < N; i++) if (c i) q_push (Q, i);\<close>\<close>

primrec q_push_all :: "nat list \<Rightarrow> Queue \<Rightarrow> Queue outcome" where
  "q_push_all [] Q = Inr Q"
| "q_push_all (x # xs) Q = bind_outcome (q_push Q x) (q_push_all xs)"

definition enqueue_if :: "(Proc \<Rightarrow> bool) \<Rightarrow> Proc list \<Rightarrow> Queue \<Rightarrow> Queue outcome" where
  "enqueue_if c ps Q = q_push_all (filter (\<lambda>i. c (ps ! i)) [0..<length ps]) Q"

definition enqueue_arrivals :: "double \<Rightarrow> double \<Rightarrow> Proc list \<Rightarrow> Queue \<Rightarrow> Queue outcome" where
  "enqueue_arrivals t_from t_to =
     enqueue_if (\<lambda>p. \<not> is_done p \<and> dadd t_from EPS < of_int (arrival p) \<and>
                     of_int (arrival p) \<le> dadd t_to EPS)"

definition rr_start :: "sim \<Rightarrow> sim" where
  "rr_start s =
     (case next_arrival_after (- 1) (procs s) of
        None \<Rightarrow> s
      | Some nx \<Rightarrow> if 0 < arrival (procs s ! nx) then idle_until nx s else s)"

text \<open>One quantum of process \<open>k\<close>.\<close>

definition rr_quantum :: "int \<Rightarrow> nat \<Rightarrow> Queue \<Rightarrow> sim \<Rightarrow> (sim \<times> Queue) outcome" where
  "rr_quantum tq k Q s =
     (let p = procs s ! k; run_for = min (of_int tq) (remain p); end_time = dadd (now s) run_for;
          left = dsub (remain p) run_for in
      bind_outcome (enqueue_arrivals (now s) end_time (procs s) Q) (\<lambda>Q1.
        let s1 = advance end_time (pid p) s in
        if left \<le> EPS then
          Inr (s1\<lparr>procs := (procs s)[k := p\<lparr>remain := 0, is_done := True, finish := end_time\<rparr>],
                  cur := pid p\<rparr>, Q1)
        else
          bind_outcome (q_push Q1 k) (\<lambda>Q2.
            Inr (s1\<lparr>procs := (procs s)[k := p\<lparr>remain := left\<rparr>], cur := pid p\<rparr>, Q2))))"

definition rr_body :: "int \<Rightarrow> sim \<times> Queue \<Rightarrow> (sim + sim \<times> Queue) outcome" where
  "rr_body tq = (\<lambda>(s, Q).
     if all_done (procs s) then Inr (Inl s)
     else if q_empty Q then
       (case next_arrival_after (now s) (procs s) of
          None \<Rightarrow> Inr (Inl s)
        | Some j \<Rightarrow>
            let s1 = (idle_until j s)\<lparr>cur := PID_IDLE\<rparr> in
            bind_outcome (enqueue_if (ready (now s1)) (procs s1) Q) (\<lambda>Q1. Inr (Inr (s1, Q1))))
     else
       bind_outcome (q_pop Q) (\<lambda>(k, Q1).
         if is_done (procs s ! k) then Inr (Inr (s, Q1))
         else bind_outcome (rr_quantum tq k Q1 (note_start k (context_switch k s)))
                (\<lambda>r. Inr (Inr r))))"

definition rr_run :: "int \<Rightarrow> Proc list \<Rightarrow> sim outcome" where
  "rr_run tq ps =
     (let s = rr_start (sim_init ps) in
      bind_outcome (enqueue_if (\<lambda>p. of_int (arrival p) \<le> dadd (now s) EPS) ps q_init)
        (\<lambda>Q. run_loop (rr_body tq) (s, Q)))"

definition simulate_RR :: "int \<Rightarrow> Proc list \<Rightarrow> string outcome" where
  "simulate_RR tq ps = bind_outcome (rr_run tq ps) report_last"

subsection \<open>\<open>main\<close>\<close>

definition new_task :: "int \<Rightarrow> int \<Rightarrow> int \<Rightarrow> Proc" where
  "new_task p arr bur =
     \<lparr>pid = p, arrival = arr, burst = bur, remain = of_int bur, first_start = 0, finish = 0,
      started = False, is_done = False\<rparr>"

text \<open>\<open>fscanf (f, "%d %d %d", ...)\<close>, with \<^term>\<open>None\<close> unless all three are read.\<close>

definition scan_task :: "string \<Rightarrow> (Proc \<times> string) option" where
  "scan_task s =
     (case scan_d s of None \<Rightarrow> None | Some (p, s1) \<Rightarrow>
        (case scan_d s1 of None \<Rightarrow> None | Some (arr, s2) \<Rightarrow>
           (case scan_d s2 of None \<Rightarrow> None | Some (bur, s3) \<Rightarrow>
              Some (new_task p arr bur, s3))))"

lemma scan_task_length: "scan_task s = Some (p, r) \<Longrightarrow> length r < length s"
  by (auto simp: scan_task_def dest!: scan_d_length split: option.splits prod.splits)

function read_tasks :: "Proc list \<Rightarrow> string \<Rightarrow> Proc list" where
  "read_tasks ps s =
     (case scan_task s of
        None \<Rightarrow> ps
      | Some (p, rest) \<Rightarrow>
          if MAX_TASKS \<le> length ps + 1 then ps @ [p] else read_tasks (ps @ [p]) rest)"
  by pat_completeness auto
termination
  by (relation "measure (\<lambda>(ps, s). length s)") (auto dest: scan_task_length)

text \<open>
  \<open>qsort\<close> with a comparison function; elements that compare equal keep their order here, which
  the C standard leaves open.
\<close>

primrec c_insert :: "('a \<Rightarrow> 'a \<Rightarrow> int) \<Rightarrow> 'a \<Rightarrow> 'a list \<Rightarrow> 'a list" where
  "c_insert cmp x [] = [x]"
| "c_insert cmp x (y # ys) = (if cmp x y \<le> 0 then x # y # ys else y # c_insert cmp x ys)"

primrec c_qsort :: "('a \<Rightarrow> 'a \<Rightarrow> int) \<Rightarrow> 'a list \<Rightarrow> 'a list" where
  "c_qsort cmp [] = []"
| "c_qsort cmp (x # xs) = c_insert cmp x (c_qsort cmp xs)"

text \<open>
  \<open>files\<close> gives the text of a file or the reason why it cannot be opened.  A difference in
  \<open>cmp_arrival\<close> that does not fit an \<open>int\<close> is an overflow.
\<close>

definition cmp_overflow :: "Proc list \<Rightarrow> bool" where
  "cmp_overflow ps \<longleftrightarrow> (\<exists>x \<in> set ps. \<exists>y \<in> set ps. \<not> is_int32 (cmp_arrival x y))"

definition stderr_exit :: "string \<Rightarrow> run_result outcome" where
  "stderr_exit msg = Inr \<lparr>exit_status = 1, stdout = [], stderr = msg @ [newline]\<rparr>"

definition stdout_exit :: "string outcome \<Rightarrow> run_result outcome" where
  "stdout_exit r = bind_outcome r (\<lambda>out. Inr \<lparr>exit_status = 0, stdout = out, stderr = []\<rparr>)"

definition sched_main :: "string list \<Rightarrow> (string \<Rightarrow> string + string) \<Rightarrow> run_result outcome" where
  "sched_main argv files =
     (if length argv < 3 then
        stderr_exit (''Usage: '' @ argv ! 0 @ '' input_file {FCFS|RR|SJF|SRTF} [time_quantum]'')
      else
        let alg = argv ! 2; tq = (if alg = ''RR'' \<and> 4 \<le> length argv then atoi (argv ! 3) else 0) in
        if alg = ''RR'' \<and> length argv < 4 then stderr_exit ''RR requires time_quantum (ms)''
        else if alg = ''RR'' \<and> tq \<le> 0 then stderr_exit ''time_quantum must be positive''
        else
          (case files (argv ! 1) of
             Inl why \<Rightarrow> stderr_exit (''Errpr : Open input file : '' @ why)
           | Inr text \<Rightarrow>
               let ps = read_tasks [] text in
               if ps = [] then stderr_exit (''No tasks found in '' @ argv ! 1)
               else if cmp_overflow ps then Inl Overflow
               else
                 let sorted = c_qsort cmp_arrival ps in
                 if alg = ''FCFS'' then stdout_exit (simulate_FCFS sorted)
                 else if alg = ''SJF'' then stdout_exit (simulate_SJF sorted)
                 else if alg = ''SRTF'' then stdout_exit (simulate_SRTF sorted)
                 else if alg = ''RR'' then stdout_exit (simulate_RR tq sorted)
                 else stderr_exit (''Unknown algorithm: '' @ alg)))"

declare read_tasks.simps [simp del]

end
