(* ===== verification/Sched_Policy.thy ===== *)
theory Sched_Policy
  imports Sched
begin

section \<open>Selection and the Gantt chart\<close>

text \<open>
  The selection loop returns a best element (locale \<open>selection\<close>, interpreted on the orders of the
  code), a scheduling policy picks a ready process whenever there is one (locale \<open>policy\<close>), and
  the segments of the chart tile the time line.
\<close>

subsection \<open>The constants\<close>

lemma EPS_bounds: "2 powi (- 30) \<le> EPS" "EPS \<le> 2 powi (- 29)" "0 < EPS"
proof -
  have dbl: "is_double (2 powi e)" for e
    unfolding is_double_def by (rule exI [of _ 1]) auto
  show lo: "2 powi (- 30) \<le> EPS"
    unfolding EPS_def by (rule dbl.rnd_ge [OF dbl]) (simp add: power_int_minus)
  show "EPS \<le> 2 powi (- 29)"
    unfolding EPS_def by (rule dbl.rnd_le [OF dbl]) (simp add: power_int_minus)
  show "0 < EPS" using lo powi2_pos [of "- 30"] by linarith
qed

lemma CS_nonneg: "0 \<le> CS_OVERHEAD"
  unfolding CS_OVERHEAD_def by (rule dbl.rnd_nonneg) simp

lemma is_double_dadd [simp]: "is_double (dadd x y)" and is_double_dsub [simp]: "is_double (dsub x y)"
  by (simp_all add: dadd_def dsub_def is_double_dround)

lemma is_double_int32: "is_int32 n \<Longrightarrow> is_double (of_int n)"
  by (rule is_double_of_int) (auto simp: is_int32_def int_min_def int_max_def)

lemma is_double_zero [simp]: "is_double 0"
  by (rule dbl.repr_0)

lemma dadd_ge: "is_double x \<Longrightarrow> 0 \<le> y \<Longrightarrow> x \<le> dadd x y"
  unfolding dadd_def by (rule dbl.rnd_add_ge)

lemma dadd_mono: "x \<le> x' \<Longrightarrow> dadd x y \<le> dadd x' y"
  unfolding dadd_def by (rule dround_mono) simp

lemma after_EPS: "is_double t \<Longrightarrow> t \<le> dadd t EPS"
  using dadd_ge EPS_bounds(3) by simp

subsection \<open>Selection\<close>

definition best_upto :: "(Proc \<Rightarrow> bool) \<Rightarrow> (Proc \<Rightarrow> Proc \<Rightarrow> bool) \<Rightarrow> Proc list \<Rightarrow> nat \<Rightarrow> nat option \<Rightarrow> bool" where
  "best_upto elig beats ps n r \<longleftrightarrow>
     (case r of
        None \<Rightarrow> \<forall>j < n. \<not> elig (ps ! j)
      | Some k \<Rightarrow> k < n \<and> elig (ps ! k) \<and>
          (\<forall>j < n. elig (ps ! j) \<longrightarrow> \<not> beats (ps ! j) (ps ! k) \<and> (j < k \<longrightarrow> beats (ps ! k) (ps ! j))))"

lemma select_eligible:
  "case select elig beats ps of None \<Rightarrow> \<forall>j < length ps. \<not> elig (ps ! j)
   | Some k \<Rightarrow> k < length ps \<and> elig (ps ! k)"
proof -
  let ?body = "\<lambda>i best. if elig (ps ! i) then
      (case best of None \<Rightarrow> Some i | Some b \<Rightarrow> if beats (ps ! i) (ps ! b) then Some i else best)
      else best"
  let ?I = "\<lambda>n r. case r of None \<Rightarrow> \<forall>j < n. \<not> elig (ps ! j) | Some k \<Rightarrow> k < n \<and> elig (ps ! k)"
  have "?I (length ps) (for_loop 0 (length ps) ?body None)"
    by (rule for_loop_invariant) (auto split: option.splits if_splits simp: less_Suc_eq)
  then show ?thesis by (simp add: select_def)
qed

lemma select_None: "select elig beats ps = None \<longleftrightarrow> (\<forall>p \<in> set ps. \<not> elig p)"
  using select_eligible [where elig = elig and beats = beats and ps = ps]
  by (cases "select elig beats ps") (auto simp: all_set_conv_all_nth)

lemma select_Some: "select elig beats ps = Some k \<Longrightarrow> k < length ps \<and> elig (ps ! k)"
  using select_eligible [where elig = elig and beats = beats and ps = ps] by simp

text \<open>With a strict weak order the first of the best elements is selected.\<close>

locale selection =
  fixes beats :: "Proc \<Rightarrow> Proc \<Rightarrow> bool"
  assumes asym: "beats p q \<Longrightarrow> \<not> beats q p"
    and neg_trans: "beats p r \<Longrightarrow> beats p q \<or> beats q r"
begin

lemma select_best: "best_upto elig beats ps (length ps) (select elig beats ps)"
proof -
  let ?body = "\<lambda>i best. if elig (ps ! i) then
      (case best of None \<Rightarrow> Some i | Some b \<Rightarrow> if beats (ps ! i) (ps ! b) then Some i else best)
      else best"
  have "best_upto elig beats ps (length ps) (for_loop 0 (length ps) ?body None)"
  proof (rule for_loop_invariant)
    show "best_upto elig beats ps (Suc i) (?body i r)" if "best_upto elig beats ps i r" for i r
    proof (cases "elig (ps ! i) \<and> (\<exists>b. r = Some b \<and> beats (ps ! i) (ps ! b))")
      case True
      then obtain b where b: "r = Some b" "beats (ps ! i) (ps ! b)" by blast
      have "beats (ps ! i) (ps ! j)" if "j < i" "elig (ps ! j)" for j
        using that \<open>best_upto elig beats ps i r\<close> b neg_trans [OF b(2), of "ps ! j"]
        by (auto simp: best_upto_def)
      then show ?thesis using True b asym by (auto simp: best_upto_def less_Suc_eq)
    next
      case False
      then show ?thesis using that asym
        by (cases r) (auto simp: best_upto_def less_Suc_eq)
    qed
  qed (simp_all add: best_upto_def)
  then show ?thesis by (simp add: select_def)
qed

lemma select_best_Some:
  assumes "select elig beats ps = Some k" and "j < length ps" and "elig (ps ! j)"
  shows "\<not> beats (ps ! j) (ps ! k)" and "j < k \<Longrightarrow> beats (ps ! k) (ps ! j)"
  using select_best [of elig ps] assms by (simp_all add: best_upto_def)

end

interpretation by_arrival: selection "\<lambda>p b. arrival p < arrival b"
  by unfold_locales auto

interpretation by_fcfs: selection "\<lambda>p b. arrival p < arrival b \<or> arrival p = arrival b \<and> pid p < pid b"
  by unfold_locales auto

interpretation by_sjf: selection "\<lambda>p b. burst p < burst b \<or>
    burst p = burst b \<and> (arrival p < arrival b \<or> arrival p = arrival b \<and> pid p < pid b)"
  by unfold_locales auto

interpretation by_remain: selection "\<lambda>p b. remain p < remain b"
  by unfold_locales auto

text \<open>A table in the order \<open>qsort\<close> leaves it in.\<close>

definition sorted_table :: "Proc list \<Rightarrow> bool" where
  "sorted_table ps \<longleftrightarrow> (\<forall>i j. i < j \<and> j < length ps \<longrightarrow> cmp_arrival (ps ! i) (ps ! j) \<le> 0)"

lemma select_cong:
  assumes "\<And>i b. b < i \<Longrightarrow> i < length ps \<Longrightarrow> beats (ps ! i) (ps ! b) = beats' (ps ! i) (ps ! b)"
  shows "select elig beats ps = select elig beats' ps"
proof -
  let ?body = "\<lambda>beats i best. if elig (ps ! i) then
      (case best of None \<Rightarrow> Some i | Some b \<Rightarrow> if beats (ps ! i) (ps ! b) then Some i else best)
      else best"
  have "n \<le> length ps \<Longrightarrow> for_loop 0 n (?body beats) None = for_loop 0 n (?body beats') None \<and>
      (\<forall>b. for_loop 0 n (?body beats) None = Some b \<longrightarrow> b < n)" for n
  proof (induction n)
    case (Suc n)
    then show ?case using assms [of _ n] by (auto simp: for_loop_last split: option.splits)
  qed simp
  from this [of "length ps"] show ?thesis by (simp add: select_def)
qed

text \<open>In a sorted table the tie rule of \<^const>\<open>pick_SRTF\<close>, with its tolerance, never applies.\<close>

lemma pick_SRTF_sorted:
  "sorted_table ps \<Longrightarrow> pick_SRTF t ps = select (ready t) (\<lambda>p b. remain p < remain b) ps"
  unfolding pick_SRTF_def
  by (rule select_cong) (force simp: sorted_table_def cmp_arrival_def split: if_splits)

subsection \<open>Policies\<close>

locale policy =
  fixes pick :: "double \<Rightarrow> Proc list \<Rightarrow> nat option"
  assumes pick_ready: "pick t ps = Some k \<Longrightarrow> k < length ps \<and> ready t (ps ! k)"
    and pick_some: "any_ready t ps \<Longrightarrow> pick t ps \<noteq> None"

lemma any_ready_iff: "any_ready t ps \<longleftrightarrow> (\<exists>p \<in> set ps. ready t p)"
  by (auto simp: any_ready_def for_first_None Bex_def in_set_conv_nth)

lemma all_done_iff: "all_done ps \<longleftrightarrow> (\<forall>p \<in> set ps. is_done p)"
  by (auto simp: all_done_def for_first_None all_set_conv_all_nth)

interpretation FCFS: policy pick_FCFS
  by unfold_locales (auto simp: pick_FCFS_def any_ready_iff select_None dest: select_Some)

interpretation SJF: policy pick_SJF
  by unfold_locales (auto simp: pick_SJF_def any_ready_iff select_None dest: select_Some)

interpretation SRTF: policy pick_SRTF
  by unfold_locales (auto simp: pick_SRTF_def any_ready_iff select_None dest: select_Some)

text \<open>When nothing is ready but something is left, the next arrival exists and lies ahead.\<close>

lemma next_arrival_Some:
  "next_arrival_after t ps = Some k \<Longrightarrow>
   k < length ps \<and> \<not> is_done (ps ! k) \<and> dadd t EPS < of_int (arrival (ps ! k))"
  unfolding next_arrival_after_def by (drule select_Some) simp

lemma next_arrival_None:
  "next_arrival_after t ps = None \<longleftrightarrow>
   (\<forall>p \<in> set ps. is_done p \<or> of_int (arrival p) \<le> dadd t EPS)"
  by (auto simp: next_arrival_after_def select_None not_less)

lemma next_arrival_exists:
  "\<not> all_done ps \<Longrightarrow> \<not> any_ready t ps \<Longrightarrow> next_arrival_after t ps \<noteq> None"
  unfolding next_arrival_None all_done_iff any_ready_iff ready_def by blast

subsection \<open>The chart tiles the time line\<close>

fun tiled :: "double \<Rightarrow> Segment list \<Rightarrow> double \<Rightarrow> bool" where
  "tiled a [] t \<longleftrightarrow> a = t"
| "tiled a (s # ss) t \<longleftrightarrow> seg_start s = a \<and> a < seg_end s \<and> tiled (seg_end s) ss t"

lemma tiled_append: "tiled a (ss @ ts) t \<longleftrightarrow> (\<exists>m. tiled a ss m \<and> tiled m ts t)"
  by (induction ss arbitrary: a) auto

lemma tiled_le: "tiled a ss t \<Longrightarrow> a \<le> t"
  by (induction ss arbitrary: a) force+

lemma tiled_last: "tiled a ss t \<Longrightarrow> ss \<noteq> [] \<Longrightarrow> seg_end (last ss) = t"
  by (induction ss arbitrary: a) (auto split: if_splits)

lemma add_seg_tiled:
  assumes "tiled a ss t" and "t \<le> t'"
  shows "tiled a (add_seg t t' p ss) t'"
proof (cases "ss = [] \<or> t' \<le> t \<or> seg_pid (last ss) \<noteq> p")
  case True
  then show ?thesis using assms by (auto simp: add_seg_def tiled_append)
next
  case False
  then have ss: "ss = butlast ss @ [last ss]" by simp
  have last: "seg_end (last ss) = t" using tiled_last [OF assms(1)] False by simp
  obtain m where "tiled a (butlast ss) m" "tiled m [last ss] t"
    using assms(1) ss tiled_append by metis
  then show ?thesis
    using False last EPS_bounds(3) by (auto simp: add_seg_def tiled_append dsub_def)
qed

lemma advance_simps [simp]:
  "now (advance t p s) = t" "procs (advance t p s) = procs s" "cur (advance t p s) = cur s"
  "segs (advance t p s) = add_seg (now s) t p (segs s)"
  by (simp_all add: advance_def)

end
