(* ===== verification/Sched_NP.thy ===== *)
theory Sched_NP
  imports Sched_Policy
begin

section \<open>The non-preemptive simulations\<close>

text \<open>
  FCFS and SJF run the same loop; what it does is proved once for every \<open>policy\<close>: the loop ends,
  every process is served without interruption after it arrived, and the chart tiles the time from
  0 to the end.
\<close>

definition fresh_task :: "Proc \<Rightarrow> bool" where
  "fresh_task p \<longleftrightarrow> \<not> is_done p \<and> \<not> started p \<and> remain p = of_int (burst p) \<and> 0 \<le> burst p \<and>
     is_int32 (burst p) \<and> is_int32 (arrival p)"

text \<open>Process \<open>p\<close> is \<open>p0\<close> after its service, finished by time \<open>t\<close>.\<close>

definition served :: "Proc \<Rightarrow> Proc \<Rightarrow> double \<Rightarrow> bool" where
  "served p0 p t \<longleftrightarrow>
     pid p = pid p0 \<and> arrival p = arrival p0 \<and> burst p = burst p0 \<and> is_done p \<and> started p \<and> remain p = 0 \<and>
     of_int (arrival p) \<le> dadd (first_start p) EPS \<and>
     finish p = dadd (first_start p) (of_int (burst p)) \<and> finish p \<le> t"

definition undone :: "Proc list \<Rightarrow> nat" where
  "undone ps = card {i. i < length ps \<and> \<not> is_done (ps ! i)}"

definition np_inv :: "Proc list \<Rightarrow> sim \<Rightarrow> bool" where
  "np_inv ps0 s \<longleftrightarrow>
     tiled 0 (segs s) (now s) \<and> is_double (now s) \<and> length (procs s) = length ps0 \<and>
     (\<forall>i < length ps0. if is_done (procs s ! i) then served (ps0 ! i) (procs s ! i) (now s)
                       else procs s ! i = ps0 ! i)"

lemma undone_update:
  assumes "k < length ps" and "\<not> is_done (ps ! k)" and "is_done p"
  shows "undone (ps[k := p]) < undone ps"
  unfolding undone_def
  by (rule psubset_card_mono) (use assms in \<open>auto simp: nth_list_update\<close>)

lemma served_mono: "served p0 p t \<Longrightarrow> t \<le> t' \<Longrightarrow> served p0 p t'"
  by (auto simp: served_def)

lemma context_switch_simps [simp]:
  "procs (context_switch k s) = procs s" "cur (context_switch k s) = cur s"
  by (simp_all add: context_switch_def)

lemma context_switch_time: "is_double (now s) \<Longrightarrow> now s \<le> now (context_switch k s)"
  by (simp add: context_switch_def dadd_ge CS_nonneg)

lemma context_switch_double: "is_double (now s) \<Longrightarrow> is_double (now (context_switch k s))"
  by (simp add: context_switch_def)

lemma context_switch_tiled:
  "tiled 0 (segs s) (now s) \<Longrightarrow> is_double (now s) \<Longrightarrow>
   tiled 0 (segs (context_switch k s)) (now (context_switch k s))"
  by (simp add: context_switch_def add_seg_tiled dadd_ge CS_nonneg)

lemma note_start_simps [simp]:
  "now (note_start k s) = now s" "segs (note_start k s) = segs s" "cur (note_start k s) = cur s"
  by (simp_all add: note_start_def)

text \<open>The service of a fresh process, in one step.\<close>

lemma serve_fresh:
  assumes k: "k < length (procs s)" and fresh: "fresh_task (procs s ! k)"
  defines "t \<equiv> now (context_switch k s)" and "p \<equiv> procs s ! k"
  defines "t' \<equiv> dadd t (of_int (burst p))"
  shows "run_to_end k (note_start k (context_switch k s)) =
    \<lparr>procs = (procs s)[k := p\<lparr>first_start := t, started := True, remain := 0, is_done := True, finish := t'\<rparr>],
     segs = add_seg t t' (pid p) (segs (context_switch k s)), now = t', cur = pid p\<rparr>"
  using k fresh
  by (simp add: run_to_end_def note_start_def Let_def t_def t'_def p_def fresh_task_def advance_def)

lemma serve_inv:
  assumes inv: "np_inv ps0 s" and fresh: "\<forall>p \<in> set ps0. fresh_task p"
    and k: "k < length (procs s)" and rdy: "ready (now s) (procs s ! k)"
  defines "s' \<equiv> run_to_end k (note_start k (context_switch k s))"
  shows "np_inv ps0 s'" and "undone (procs s') < undone (procs s)"
proof -
  let ?p = "procs s ! k" and ?t = "now (context_switch k s)"
  let ?t' = "dadd ?t (of_int (burst ?p))"
  have nd: "\<not> is_done ?p" using rdy by (simp add: ready_def)
  then have p0: "?p = ps0 ! k" using inv k by (auto simp: np_inv_def)
  then have fp: "fresh_task ?p" using fresh inv k by (simp add: np_inv_def)
  note s' = serve_fresh [OF k fp, folded s'_def]
  have dbl: "is_double (now s)" "is_double ?t" and le: "now s \<le> ?t"
    using inv context_switch_time context_switch_double by (auto simp: np_inv_def)
  have le': "?t \<le> ?t'" using dbl(2) fp by (intro dadd_ge) (auto simp: fresh_task_def)
  have arr: "of_int (arrival ?p) \<le> dadd ?t EPS"
    using rdy dadd_mono [OF le, of EPS] by (simp add: ready_def)
  have now: "now s \<le> ?t'" using le le' by simp
  have tiles: "tiled 0 (segs s') (now s')"
    using context_switch_tiled [of s k] inv add_seg_tiled le' unfolding s' by (simp add: np_inv_def)
  have other: "if is_done (procs s' ! i) then served (ps0 ! i) (procs s' ! i) (now s')
      else procs s' ! i = ps0 ! i" if "i < length ps0" for i
  proof (cases "i = k")
    case True
    then show ?thesis using k arr p0 unfolding s' by (simp add: served_def)
  next
    case False
    then have same: "procs s' ! i = procs s ! i" "now s' = ?t'" unfolding s' by simp_all
    show ?thesis
      using inv that served_mono [OF _ now] unfolding same by (auto simp: np_inv_def)
  qed
  have "length (procs s') = length ps0" "is_double (now s')"
    using inv by (simp_all add: s' np_inv_def)
  then show "np_inv ps0 s'" using tiles other unfolding np_inv_def by blast
  show "undone (procs s') < undone (procs s)" using undone_update [OF k nd] unfolding s' by simp
qed

lemma idle_inv:
  assumes inv: "np_inv ps0 s" and fresh: "\<forall>p \<in> set ps0. fresh_task p"
    and nx: "next_arrival_after (now s) (procs s) = Some nx"
  shows "np_inv ps0 (idle_until nx s)" and "any_ready (now (idle_until nx s)) (procs (idle_until nx s))"
    and "procs (idle_until nx s) = procs s"
proof -
  let ?p = "procs s ! nx"
  have nx': "nx < length (procs s)" "\<not> is_done ?p" "dadd (now s) EPS < of_int (arrival ?p)"
    using next_arrival_Some [OF nx] by auto
  have "?p = ps0 ! nx" using inv nx' by (auto simp: np_inv_def)
  then have "fresh_task ?p" using fresh inv nx'(1) by (simp add: np_inv_def)
  then have dbl: "is_double (of_int (arrival ?p))" by (simp add: fresh_task_def is_double_int32)
  have le: "now s \<le> of_int (arrival ?p)"
    using nx'(3) after_EPS [of "now s"] inv by (auto simp: np_inv_def)
  have "served (ps0 ! i) (procs s ! i) (of_int (arrival ?p))"
    if "i < length ps0" "is_done (procs s ! i)" for i
    using that inv le served_mono by (auto simp: np_inv_def)
  then show "np_inv ps0 (idle_until nx s)"
    using inv add_seg_tiled [OF _ le] dbl by (auto simp: np_inv_def idle_until_def)
  have "ready (of_int (arrival ?p)) ?p" using nx'(2) after_EPS [OF dbl] by (simp add: ready_def)
  then show "any_ready (now (idle_until nx s)) (procs (idle_until nx s))"
    using nx'(1) nth_mem by (auto simp: idle_until_def any_ready_iff)
  show "procs (idle_until nx s) = procs s" by (simp add: idle_until_def)
qed

context policy
begin

lemma dispatch_step:
  assumes "np_inv ps0 s" and "\<forall>p \<in> set ps0. fresh_task p" and "any_ready (now s) (procs s)"
  shows "\<exists>s'. dispatch pick s = Inr (Inr s') \<and> np_inv ps0 s' \<and> undone (procs s') < undone (procs s)"
proof -
  obtain k where "pick (now s) (procs s) = Some k" using pick_some [OF assms(3)] by blast
  then show ?thesis
    using serve_inv [OF assms(1,2)] pick_ready by (fastforce simp: dispatch_def)
qed

lemma np_loop:
  assumes fresh: "\<forall>p \<in> set ps. fresh_task p"
  obtains s where "run_loop (np_body pick) (sim_init ps) = Inr s" and "np_inv ps s" and "all_done (procs s)"
proof -
  have init: "np_inv ps (sim_init ps)"
    using fresh by (auto simp: np_inv_def sim_init_def fresh_task_def)
  have step: "(\<exists>t. np_body pick s = Inr (Inl t) \<and> np_inv ps t \<and> all_done (procs t)) \<or>
      (\<exists>s'. np_body pick s = Inr (Inr s') \<and> np_inv ps s' \<and> undone (procs s') < undone (procs s))"
    if inv: "np_inv ps s" for s
  proof (cases "all_done (procs s) \<or> any_ready (now s) (procs s)")
    case True
    then show ?thesis using inv dispatch_step [OF inv fresh] by (auto simp: np_body_def)
  next
    case False
    then obtain nx where nx: "next_arrival_after (now s) (procs s) = Some nx"
      using next_arrival_exists by blast
    note idle = idle_inv [OF inv fresh nx]
    show ?thesis using False nx dispatch_step [OF idle(1) fresh idle(2)] idle(3)
      by (auto simp: np_body_def)
  qed
  show ?thesis
    by (rule run_loop_returns [where I = "np_inv ps" and body = "np_body pick" and s = "sim_init ps"
          and Q = "\<lambda>t. np_inv ps t \<and> all_done (procs t)" and m = "\<lambda>s. undone (procs s)"])
      (use init step that in auto)
qed

end

end
