(* ===== verification/Sched_FCFS.thy ===== *)
theory Sched_FCFS
  imports Sched_NP
begin

section \<open>FCFS as a single pass\<close>

text \<open>
  On a table in arrival order the FCFS loop, which searches the whole table in every round, serves the
  processes one after the other: it computes the same times as the one-pass reference \<open>fcfs_times\<close>.
\<close>

fun fcfs_times :: "double \<Rightarrow> int \<Rightarrow> Proc list \<Rightarrow> (double \<times> double) list" where
  "fcfs_times t prev [] = []"
| "fcfs_times t prev (p # ps) =
     (let t0 = (if of_int (arrival p) \<le> dadd t EPS then t else of_int (arrival p));
          st = (if prev \<noteq> pid p \<and> prev \<noteq> PID_IDLE then dadd t0 CS_OVERHEAD else t0);
          fin = dadd st (of_int (burst p)) in
      (st, fin) # fcfs_times fin (pid p) ps)"

definition serve_at :: "Proc \<Rightarrow> double \<times> double \<Rightarrow> Proc" where
  "serve_at p t = p\<lparr>first_start := fst t, started := True, remain := 0, is_done := True, finish := snd t\<rparr>"

lemma length_fcfs_times [simp]: "length (fcfs_times t prev ps) = length ps"
  by (induction t prev ps rule: fcfs_times.induct) (simp_all add: Let_def)

lemma select_first:
  assumes "k < length ps" and "elig (ps ! k)" and "\<And>j. j < k \<Longrightarrow> \<not> elig (ps ! j)"
    and "\<And>j. k < j \<Longrightarrow> j < length ps \<Longrightarrow> elig (ps ! j) \<Longrightarrow> \<not> beats (ps ! j) (ps ! k)"
  shows "select elig beats ps = Some k"
proof -
  let ?body = "\<lambda>i best. if elig (ps ! i) then
      (case best of None \<Rightarrow> Some i | Some b \<Rightarrow> if beats (ps ! i) (ps ! b) then Some i else best)
      else best"
  have "for_loop 0 (length ps) ?body None = (if length ps \<le> k then None else Some k)"
  proof (rule for_loop_invariant [where P = "\<lambda>n r. r = (if n \<le> k then None else Some k)"])
    show "?body i r = (if Suc i \<le> k then None else Some k)"
      if "r = (if i \<le> k then None else Some k)" "i < length ps" for i r
      using that assms by (cases i k rule: linorder_cases) auto
  qed simp_all
  then show ?thesis using assms(1) by (simp add: select_def)
qed

lemma sorted_table_Cons:
  assumes "sorted_table (p # ps)"
  shows "sorted_table ps" and "\<forall>q \<in> set ps. cmp_arrival p q \<le> 0"
proof -
  have le: "cmp_arrival ((p # ps) ! i) ((p # ps) ! j) \<le> 0" if "i < j" "j < length (p # ps)" for i j
    using assms that unfolding sorted_table_def by blast
  show "sorted_table ps" unfolding sorted_table_def using le [of "Suc _" "Suc _"] by simp
  show "\<forall>q \<in> set ps. cmp_arrival p q \<le> 0" using le [of 0 "Suc _"] by (auto simp: in_set_conv_nth)
qed

text \<open>The first process that is not done is the next in every respect.\<close>

lemma fcfs_next:
  assumes ds: "\<forall>d \<in> set ds. is_done d" and p: "\<not> is_done p" and ord: "\<forall>q \<in> set qs. cmp_arrival p q \<le> 0"
  shows "ready t p \<Longrightarrow> pick_FCFS t (ds @ p # qs) = Some (length ds)"
    and "\<not> ready t p \<Longrightarrow> next_arrival_after t (ds @ p # qs) = Some (length ds)"
    and "any_ready t (ds @ p # qs) \<longleftrightarrow> ready t p" and "\<not> all_done (ds @ p # qs)"
proof -
  let ?ps = "ds @ p # qs"
  have first: "?ps ! length ds = p" "length ds < length ?ps" by simp_all
  have before: "is_done (?ps ! j)" if "j < length ds" for j using ds that by (simp add: nth_append)
  have after: "\<exists>q \<in> set qs. ?ps ! j = q" if "length ds < j" "j < length ?ps" for j
  proof -
    have "j - Suc (length ds) < length qs" using that by auto
    then show ?thesis using that by (auto simp: nth_append nth_Cons' intro: nth_mem)
  qed
  have le: "arrival p \<le> arrival q" "arrival q = arrival p \<Longrightarrow> pid p \<le> pid q" if "q \<in> set qs" for q
    using ord that by (force simp: cmp_arrival_def split: if_splits)+
  show "pick_FCFS t ?ps = Some (length ds)" if "ready t p"
    unfolding pick_FCFS_def
  proof (rule select_first)
    show "\<not> ready t (?ps ! j)" if "j < length ds" for j using before [OF that] by (simp add: ready_def)
    show "\<not> (arrival (?ps ! j) < arrival (?ps ! length ds) \<or>
        arrival (?ps ! j) = arrival (?ps ! length ds) \<and> pid (?ps ! j) < pid (?ps ! length ds))"
      if "length ds < j" "j < length ?ps" for j
      using after [OF that] le unfolding first(1) by force
  qed (use first that in simp_all)
  show "next_arrival_after t ?ps = Some (length ds)" if "\<not> ready t p"
    unfolding next_arrival_after_def
  proof (rule select_first)
    show "\<not> (\<not> is_done (?ps ! j) \<and> dadd t EPS < of_int (arrival (?ps ! j)))" if "j < length ds" for j
      using before [OF that] by simp
    show "\<not> arrival (?ps ! j) < arrival (?ps ! length ds)" if "length ds < j" "j < length ?ps" for j
      using after [OF that] le unfolding first(1) by force
  qed (use first that p in \<open>simp_all add: ready_def\<close>)
  have "ready t p" if "q \<in> set qs" "ready t q" for q
  proof -
    have "(of_int (arrival p) :: rat) \<le> of_int (arrival q)" using le(1) [OF that(1)] by simp
    then show ?thesis using that(2) p by (simp add: ready_def)
  qed
  then show "any_ready t ?ps \<longleftrightarrow> ready t p" using ds by (auto simp: any_ready_iff ready_def)
  show "\<not> all_done ?ps" using p by (simp add: all_done_iff)
qed

lemma fcfs_loop:
  assumes "procs s = ds @ ps" and "\<forall>d \<in> set ds. is_done d" and "\<forall>p \<in> set ps. fresh_task p"
    and "sorted_table ps"
  shows "\<exists>s'. run_loop (np_body pick_FCFS) s = Inr s' \<and>
    procs s' = ds @ map2 serve_at ps (fcfs_times (now s) (cur s) ps)"
  using assms
proof (induction ps arbitrary: s ds)
  case Nil
  then have "all_done (procs s)" by (simp add: all_done_iff)
  then show ?case using Nil by (simp add: run_loop_unfold [of _ s] np_body_def)
next
  case (Cons p qs)
  have p: "fresh_task p" "\<not> is_done p" using Cons.prems(3) by (auto simp: fresh_task_def)
  have ord: "sorted_table qs" "\<forall>q \<in> set qs. cmp_arrival p q \<le> 0"
    using sorted_table_Cons [OF Cons.prems(4)] by auto
  note nxt = fcfs_next [OF Cons.prems(2) p(2) ord(2)]
  define s0 where "s0 = (if ready (now s) p then s else idle_until (length ds) s)"
  have s0: "procs s0 = ds @ p # qs" "cur s0 = cur s"
    "now s0 = (if of_int (arrival p) \<le> dadd (now s) EPS then now s else of_int (arrival p))"
    using Cons.prems(1) p(2) by (simp_all add: s0_def idle_until_def ready_def)
  have rdy: "ready (now s0) p"
  proof (cases "ready (now s) p")
    case False
    have "is_double (of_int (arrival p))" using p(1) by (simp add: fresh_task_def is_double_int32)
    then show ?thesis using False p(2) after_EPS Cons.prems(1) by (simp add: s0_def idle_until_def ready_def)
  qed (simp add: s0_def)
  define s1 where "s1 = run_to_end (length ds) (note_start (length ds) (context_switch (length ds) s0))"
  have "np_body pick_FCFS s = dispatch pick_FCFS s0"
    using nxt(2) [of "now s"] nxt(3,4) Cons.prems(1) by (simp add: np_body_def s0_def)
  also have "\<dots> = Inr (Inr s1)" using nxt(1) [OF rdy] s0(1) by (simp add: dispatch_def s1_def)
  finally have body: "np_body pick_FCFS s = Inr (Inr s1)" .
  define st where "st = now (context_switch (length ds) s0)"
  have k: "length ds < length (procs s0)" "fresh_task (procs s0 ! length ds)" using s0(1) p(1) by simp_all
  have s1: "procs s1 = (ds @ [serve_at p (st, dadd st (of_int (burst p)))]) @ qs"
    "now s1 = dadd st (of_int (burst p))" "cur s1 = pid p"
    using s0(1) unfolding s1_def serve_fresh [OF k] by (simp_all add: st_def serve_at_def)
  have st: "st = (if cur s \<noteq> pid p \<and> cur s \<noteq> PID_IDLE then dadd (now s0) CS_OVERHEAD else now s0)"
    using s0(1,2) by (simp add: st_def context_switch_def)
  have "\<exists>s'. run_loop (np_body pick_FCFS) s1 = Inr s' \<and>
      procs s' = (ds @ [serve_at p (st, dadd st (of_int (burst p)))]) @
        map2 serve_at qs (fcfs_times (now s1) (cur s1) qs)"
    using s1(1) Cons.prems ord(1) by (intro Cons.IH) (auto simp: serve_at_def)
  moreover have "fcfs_times (now s) (cur s) (p # qs) =
      (st, dadd st (of_int (burst p))) # fcfs_times (now s1) (cur s1) qs"
    by (simp add: Let_def st s0(3) s1(2,3))
  moreover have "run_loop (np_body pick_FCFS) s = run_loop (np_body pick_FCFS) s1"
    using body by (simp add: run_loop_unfold [of _ s])
  ultimately show ?case by simp
qed

end
