(* ===== verification/Sched_RR.thy ===== *)
theory Sched_RR
  imports Sched_NP
begin

section \<open>Round robin\<close>

text \<open>
  The round robin loop always ends, because its queue indices only grow: either with a result or by
  pushing beyond the array.  The invariant \<open>rr_inv\<close> covers the chart, the process table and the
  queue; \<open>rr_live\<close> says that every unfinished process waits in the queue.
\<close>

subsection \<open>The queue\<close>

lemma q_push_all_result:
  "q_push_all xs Q =
     (if length (q_cells Q) + length xs \<le> MAX_TASKS \<or> xs = [] then Inr (Q\<lparr>q_cells := q_cells Q @ xs\<rparr>)
      else Inl Out_Of_Bounds)"
  by (induction xs arbitrary: Q) (auto simp: q_push_def)

lemma enqueue_if_result:
  assumes "enqueue_if c ps Q = r"
  shows "case r of Inl e \<Rightarrow> e = Out_Of_Bounds
    | Inr Q' \<Rightarrow> q_f Q' = q_f Q \<and>
        q_cells Q' = q_cells Q @ filter (\<lambda>i. c (ps ! i)) [0..<length ps] \<and>
        (length (q_cells Q) \<le> MAX_TASKS \<longrightarrow> length (q_cells Q') \<le> MAX_TASKS)"
  using assms unfolding enqueue_if_def q_push_all_result by (auto split: if_splits)

definition queue_ok :: "nat \<Rightarrow> Queue \<Rightarrow> bool" where
  "queue_ok n Q \<longleftrightarrow> q_f Q \<le> length (q_cells Q) \<and> length (q_cells Q) \<le> MAX_TASKS \<and>
     (\<forall>i \<in> set (q_cells Q). i < n)"

definition waiting :: "Queue \<Rightarrow> nat set" where
  "waiting Q = set (drop (q_f Q) (q_cells Q))"

lemma enqueue_if_ok:
  assumes "enqueue_if c ps Q = Inr Q'" and "queue_ok (length ps) Q"
  shows "queue_ok (length ps) Q'" and "q_f Q' = q_f Q"
    and "waiting Q' = waiting Q \<union> {i. i < length ps \<and> c (ps ! i)}"
  using enqueue_if_result [OF assms(1)] assms(2) by (auto simp: queue_ok_def waiting_def)

lemma q_pop_ok:
  assumes "queue_ok n Q" and "\<not> q_empty Q"
  obtains k Q' where "q_pop Q = Inr (k, Q')" and "k < n" and "queue_ok n Q'" and "q_f Q' = q_f Q + 1"
    and "waiting Q = insert k (waiting Q')" and "q_f Q < MAX_TASKS"
proof -
  have lt: "q_f Q < length (q_cells Q)" using assms by (auto simp: queue_ok_def q_empty_def)
  then have "waiting Q = insert (q_cells Q ! q_f Q) (waiting (Q\<lparr>q_f := q_f Q + 1\<rparr>))"
    by (simp add: waiting_def Cons_nth_drop_Suc [symmetric])
  then show ?thesis
    using that [of "q_cells Q ! q_f Q" "Q\<lparr>q_f := q_f Q + 1\<rparr>"] lt assms(1)
    by (auto simp: q_pop_def queue_ok_def)
qed

subsection \<open>The invariant\<close>

text \<open>What round robin keeps of a process: its identity, and that it runs for its burst.\<close>

definition rr_proc :: "Proc \<Rightarrow> Proc \<Rightarrow> double \<Rightarrow> bool" where
  "rr_proc p0 p t \<longleftrightarrow>
     pid p = pid p0 \<and> arrival p = arrival p0 \<and> burst p = burst p0 \<and> 0 \<le> remain p \<and>
     (is_done p \<longrightarrow> remain p = 0 \<and> started p \<and> finish p \<le> t)"

definition rr_inv :: "Proc list \<Rightarrow> sim \<times> Queue \<Rightarrow> bool" where
  "rr_inv ps0 = (\<lambda>(s, Q).
     tiled 0 (segs s) (now s) \<and> is_double (now s) \<and> length (procs s) = length ps0 \<and>
     (\<forall>i < length ps0. rr_proc (ps0 ! i) (procs s ! i) (now s)) \<and> queue_ok (length ps0) Q)"

definition rr_live :: "sim \<times> Queue \<Rightarrow> bool" where
  "rr_live = (\<lambda>(s, Q). \<forall>i < length (procs s). \<not> is_done (procs s ! i) \<longrightarrow> i \<in> waiting Q)"

definition rr_measure :: "sim \<times> Queue \<Rightarrow> nat" where
  "rr_measure = (\<lambda>(s, Q). 2 * (MAX_TASKS - q_f Q) + (if q_empty Q then 1 else 0))"

lemma rr_proc_mono: "rr_proc p0 p t \<Longrightarrow> t \<le> t' \<Longrightarrow> rr_proc p0 p t'"
  by (auto simp: rr_proc_def)

lemma rr_inv_later:
  assumes "rr_inv ps0 (s, Q)" and "queue_ok (length ps0) Q'" and "procs s' = procs s"
    and "tiled 0 (segs s') (now s')" and "is_double (now s')" and "now s \<le> now s'"
  shows "rr_inv ps0 (s', Q')"
  using assms rr_proc_mono [OF _ assms(6)] by (auto simp: rr_inv_def)

lemma rr_idle:
  assumes inv: "rr_inv ps0 (s, Q)" and arr: "\<forall>p \<in> set ps0. is_int32 (arrival p)"
    and j: "next_arrival_after (now s) (procs s) = Some j"
  defines "s1 \<equiv> (idle_until j s)\<lparr>cur := PID_IDLE\<rparr>"
  shows "tiled 0 (segs s1) (now s1)" "is_double (now s1)" "now s \<le> now s1" "procs s1 = procs s"
    and "j < length (procs s)" "ready (now s1) (procs s1 ! j)"
proof -
  let ?a = "of_int (arrival (procs s ! j)) :: rat"
  have j': "j < length (procs s)" "\<not> is_done (procs s ! j)" "dadd (now s) EPS < ?a"
    using next_arrival_Some [OF j] by auto
  have "arrival (procs s ! j) = arrival (ps0 ! j)" "j < length ps0"
    using inv j'(1) by (auto simp: rr_inv_def rr_proc_def)
  then have dbl: "is_double ?a" using arr by (simp add: is_double_int32)
  have le: "now s \<le> ?a" using after_EPS [of "now s"] inv j'(3) by (auto simp: rr_inv_def)
  show "tiled 0 (segs s1) (now s1)"
    using inv add_seg_tiled [OF _ le] by (simp add: rr_inv_def s1_def idle_until_def)
  show "is_double (now s1)" "now s \<le> now s1" "procs s1 = procs s" "j < length (procs s)"
    using dbl le j'(1) by (simp_all add: s1_def idle_until_def)
  show "ready (now s1) (procs s1 ! j)"
    using j'(2) after_EPS [OF dbl] by (simp add: s1_def idle_until_def ready_def)
qed

text \<open>The state in which a popped process starts its quantum.\<close>

lemma rr_switch:
  assumes inv: "rr_inv ps0 (s, Q)" and k: "k < length ps0" "\<not> is_done (procs s ! k)"
  defines "s1 \<equiv> note_start k (context_switch k s)"
  shows "rr_inv ps0 (s1, Q)" and "started (procs s1 ! k)" "\<not> is_done (procs s1 ! k)"
    and "length (procs s1) = length (procs s)"
    and "\<And>i. is_done (procs s1 ! i) = is_done (procs s ! i)"
proof -
  have len: "length (procs s) = length ps0" using inv by (simp add: rr_inv_def)
  have dbl: "is_double (now s)" and tile: "tiled 0 (segs s) (now s)" using inv by (auto simp: rr_inv_def)
  have le: "now s \<le> now s1" using context_switch_time [OF dbl] by (simp add: s1_def)
  have at: "procs s1 = (if started (procs s ! k) then procs s
      else (procs s)[k := (procs s ! k)\<lparr>first_start := now s1, started := True\<rparr>])"
    by (simp add: s1_def note_start_def)
  have "rr_proc (ps0 ! i) (procs s ! i) (now s1)" if "i < length ps0" for i
    using that inv rr_proc_mono [OF _ le] by (simp add: rr_inv_def)
  then have "rr_proc (ps0 ! i) (procs s1 ! i) (now s1)" if "i < length ps0" for i
    using that k len unfolding at by (cases "i = k") (auto simp: rr_proc_def)
  then show "rr_inv ps0 (s1, Q)"
    using inv context_switch_tiled [OF tile dbl] context_switch_double [OF dbl] at len
    by (auto simp: rr_inv_def s1_def)
  show "started (procs s1 ! k)" "\<not> is_done (procs s1 ! k)" "length (procs s1) = length (procs s)"
    using k len unfolding at by auto
  show "is_done (procs s1 ! i) = is_done (procs s ! i)" for i
    using k len unfolding at by (cases "i = k") auto
qed

lemma rr_quantum_ok:
  assumes inv: "rr_inv ps0 (s, Q)" and tq: "0 < tq"
    and k: "k < length ps0" "started (procs s ! k)" "\<not> is_done (procs s ! k)"
  shows "case rr_quantum tq k Q s of Inl e \<Rightarrow> e = Out_Of_Bounds
    | Inr (s', Q') \<Rightarrow> rr_inv ps0 (s', Q') \<and> q_f Q' = q_f Q \<and> length (procs s') = length (procs s) \<and>
        (\<forall>i. i \<noteq> k \<longrightarrow> procs s' ! i = procs s ! i) \<and>
        waiting Q \<subseteq> waiting Q' \<and> (is_done (procs s' ! k) \<or> k \<in> waiting Q') \<and> now s \<le> now s' \<and>
        waiting Q' \<subseteq> insert k (waiting Q) \<union>
          {j. j < length ps0 \<and> dadd (now s) EPS < of_int (arrival (ps0 ! j)) \<and>
              of_int (arrival (ps0 ! j)) \<le> dadd (now s') EPS}"
proof -
  let ?p = "procs s ! k"
  define run_for where "run_for = min (of_int tq) (remain ?p)"
  define fin where "fin = dadd (now s) run_for"
  define left where "left = dsub (remain ?p) run_for"
  have len: "length (procs s) = length ps0" and dbl: "is_double (now s)" and tile: "tiled 0 (segs s) (now s)"
    and qok: "queue_ok (length (procs s)) Q"
    and old: "\<And>i. i < length ps0 \<Longrightarrow> rr_proc (ps0 ! i) (procs s ! i) (now s)"
    using inv by (auto simp: rr_inv_def)
  have "0 \<le> remain ?p" using old [OF k(1)] by (simp add: rr_proc_def)
  then have pos: "0 \<le> run_for" "0 \<le> left"
    using tq dbl.rnd_nonneg by (auto simp: run_for_def left_def dsub_def)
  have le: "now s \<le> fin" using dbl pos(1) by (simp add: fin_def dadd_ge)
  define p' where "p' = (if left \<le> EPS then ?p\<lparr>remain := 0, is_done := True, finish := fin\<rparr>
      else ?p\<lparr>remain := left\<rparr>)"
  define s' where "s' = (advance fin (pid ?p) s)\<lparr>procs := (procs s)[k := p'], cur := pid ?p\<rparr>"
  have new: "rr_inv ps0 (s', Q')" if "queue_ok (length ps0) Q'" for Q'
  proof -
    have "rr_proc (ps0 ! i) (procs s' ! i) fin" if "i < length ps0" for i
      using that old [OF that] rr_proc_mono [OF _ le] k pos(2) len
      by (cases "i = k") (auto simp: s'_def p'_def rr_proc_def)
    then show ?thesis
      using that len add_seg_tiled [OF tile le] by (simp add: rr_inv_def s'_def fin_def)
  qed
  have eq: "rr_quantum tq k Q s = bind_outcome (enqueue_arrivals (now s) fin (procs s) Q) (\<lambda>Q1.
      if left \<le> EPS then Inr (s', Q1) else bind_outcome (q_push Q1 k) (\<lambda>Q2. Inr (s', Q2)))"
    by (auto simp: rr_quantum_def Let_def run_for_def [symmetric] fin_def [symmetric] left_def [symmetric]
        s'_def p'_def intro!: arg_cong [of _ _ "bind_outcome _"])
  have rest: "length (procs s') = length (procs s)" "\<And>i. i \<noteq> k \<Longrightarrow> procs s' ! i = procs s ! i"
    "left \<le> EPS \<Longrightarrow> is_done (procs s' ! k)" "now s \<le> now s'"
    using k(1) len le by (auto simp: s'_def p'_def)
  show ?thesis
  proof (cases "enqueue_arrivals (now s) fin (procs s) Q")
    case (Inl e)
    then show ?thesis using enqueue_if_result unfolding eq enqueue_arrivals_def by fastforce
  next
    case (Inr Q1)
    note q1 = enqueue_if_ok [OF Inr [unfolded enqueue_arrivals_def] qok]
    have "waiting Q1 \<subseteq> waiting Q \<union> {j. j < length ps0 \<and> dadd (now s) EPS < of_int (arrival (ps0 ! j)) \<and>
        of_int (arrival (ps0 ! j)) \<le> dadd (now s') EPS}"
      using q1(3) old len by (auto simp: rr_proc_def s'_def)
    moreover have "waiting (Q1\<lparr>q_cells := q_cells Q1 @ [k]\<rparr>) = insert k (waiting Q1)"
      using q1(1) by (simp add: waiting_def queue_ok_def)
    moreover have "queue_ok (length ps0) (Q1\<lparr>q_cells := q_cells Q1 @ [k]\<rparr>)" if "length (q_cells Q1) < MAX_TASKS"
      using q1(1) that k(1) len by (auto simp: queue_ok_def)
    ultimately show ?thesis using Inr q1 new rest len unfolding eq by (auto simp: q_push_def)
  qed
qed

subsection \<open>The loop\<close>

lemma rr_body_step:
  assumes inv: "rr_inv ps0 (s, Q)" and arr: "\<forall>p \<in> set ps0. is_int32 (arrival p)" and tq: "0 < tq"
  shows "case rr_body tq (s, Q) of Inl e \<Rightarrow> e = Out_Of_Bounds
    | Inr (Inl t) \<Rightarrow> t = s \<and> (rr_live (s, Q) \<longrightarrow> all_done (procs s))
    | Inr (Inr (s', Q')) \<Rightarrow> rr_inv ps0 (s', Q') \<and> rr_measure (s', Q') < rr_measure (s, Q) \<and>
        (rr_live (s, Q) \<longrightarrow> rr_live (s', Q'))"
proof -
  have len: "length (procs s) = length ps0" and qok: "queue_ok (length ps0) Q" using inv by (auto simp: rr_inv_def)
  consider (finished) "all_done (procs s)" | (idle) "\<not> all_done (procs s)" "q_empty Q"
    | (pop) "\<not> all_done (procs s)" "\<not> q_empty Q" by blast
  then show ?thesis
  proof cases
    case finished
    then show ?thesis by (simp add: rr_body_def)
  next
    case idle
    have none: "waiting Q = {}" using idle(2) by (simp add: waiting_def q_empty_def)
    then have dead: "\<not> rr_live (s, Q)" using idle(1) by (auto simp: rr_live_def all_done_iff in_set_conv_nth)
    show ?thesis
    proof (cases "next_arrival_after (now s) (procs s)")
      case None
      then show ?thesis using idle dead by (simp add: rr_body_def)
    next
      case (Some j)
      note id = rr_idle [OF inv arr Some]
      let ?s = "(idle_until j s)\<lparr>cur := PID_IDLE\<rparr>"
      show ?thesis
      proof (cases "enqueue_if (ready (now ?s)) (procs ?s) Q")
        case (Inl e)
        then show ?thesis using idle Some enqueue_if_result [OF Inl] by (simp add: rr_body_def)
      next
        case (Inr Q1)
        note q1 = enqueue_if_ok [OF Inr] 
        have "queue_ok (length (procs ?s)) Q" using qok len id(4) by simp
        note q1 = q1 [OF this]
        have "j \<in> waiting Q1" using q1(3) id(4,5,6) by simp
        then have "\<not> q_empty Q1" by (auto simp: waiting_def q_empty_def)
        then have "rr_measure (?s, Q1) < rr_measure (s, Q)" using idle(2) q1(2) by (simp add: rr_measure_def)
        moreover have "rr_inv ps0 (?s, Q1)"
          using rr_inv_later [OF inv _ id(4,1,2,3)] q1(1) id(4) len by simp
        ultimately show ?thesis using idle Some Inr dead by (simp add: rr_body_def)
      qed
    qed
  next
    case pop
    obtain k Q1 where k: "q_pop Q = Inr (k, Q1)" "k < length ps0" "queue_ok (length ps0) Q1"
      "q_f Q1 = q_f Q + 1" "waiting Q = insert k (waiting Q1)" "q_f Q < MAX_TASKS"
      by (rule q_pop_ok [OF qok pop(2)])
    have less: "rr_measure (s', Q') < rr_measure (s, Q)" if "q_f Q' = q_f Q1" for s' Q'
      using that k(4,6) pop(2) by (auto simp: rr_measure_def)
    have inv1: "rr_inv ps0 (s, Q1)" using inv k(3) by (simp add: rr_inv_def)
    show ?thesis
    proof (cases "is_done (procs s ! k)")
      case True
      then show ?thesis using pop k less [of Q1 s] inv1 by (auto simp: rr_body_def rr_live_def)
    next
      case False
      let ?s = "note_start k (context_switch k s)"
      note sw = rr_switch [OF inv1 k(2) False]
      have live: "rr_live (s', Q')" if "rr_live (s, Q)" "length (procs s') = length (procs ?s)"
        "\<forall>i. i \<noteq> k \<longrightarrow> procs s' ! i = procs ?s ! i" "waiting Q1 \<subseteq> waiting Q'"
        "is_done (procs s' ! k) \<or> k \<in> waiting Q'" for s' Q'
        unfolding rr_live_def
      proof (clarify)
        fix i assume i: "i < length (procs s')" "\<not> is_done (procs s' ! i)"
        show "i \<in> waiting Q'"
        proof (cases "i = k")
          case False
          then have "i \<in> waiting Q" using that(1-3) i sw(4,5) by (simp add: rr_live_def)
          then show ?thesis using False k(5) that(4) by auto
        qed (use i that(5) in simp)
      qed
      show ?thesis
        using rr_quantum_ok [OF sw(1) tq k(2) sw(2,3)] pop k(1) False less live
        by (cases "rr_quantum tq k Q1 ?s") (auto simp: rr_body_def)
    qed
  qed
qed

lemma rr_loop:
  assumes inv: "rr_inv ps0 (s, Q)" and arr: "\<forall>p \<in> set ps0. is_int32 (arrival p)" and tq: "0 < tq"
  shows "case run_loop (rr_body tq) (s, Q) of Inl e \<Rightarrow> e = Out_Of_Bounds
    | Inr t \<Rightarrow> (\<exists>Q'. rr_inv ps0 (t, Q')) \<and> (rr_live (s, Q) \<longrightarrow> all_done (procs t))"
proof (rule run_loop_rule [where m = rr_measure
      and I = "\<lambda>sq. rr_inv ps0 sq \<and> (rr_live (s, Q) \<longrightarrow> rr_live sq)"])
  fix sq assume I: "rr_inv ps0 sq \<and> (rr_live (s, Q) \<longrightarrow> rr_live sq)"
  obtain s1 Q1 where sq: "sq = (s1, Q1)" by (cases sq)
  note step = rr_body_step [OF _ arr tq, of s1 Q1, folded sq]
  show "e = Out_Of_Bounds" if "rr_body tq sq = Inl e" for e using step I that by simp
  show "(\<exists>Q'. rr_inv ps0 (t, Q')) \<and> (rr_live (s, Q) \<longrightarrow> all_done (procs t))"
    if "rr_body tq sq = Inr (Inl t)" for t using step I that sq by auto
  show "(rr_inv ps0 sq' \<and> (rr_live (s, Q) \<longrightarrow> rr_live sq')) \<and> rr_measure sq' < rr_measure sq"
    if "rr_body tq sq = Inr (Inr sq')" for sq' using step I that by (cases sq') auto
qed (use inv in simp)

lemma rr_start_ok:
  assumes fresh: "\<forall>p \<in> set ps. fresh_task p" and len: "length ps \<le> MAX_TASKS"
  defines "s \<equiv> rr_start (sim_init ps)"
  obtains Q where "enqueue_if (\<lambda>p. of_int (arrival p) \<le> dadd (now s) EPS) ps q_init = Inr Q"
    and "rr_inv ps (s, Q)" and "(\<forall>p \<in> set ps. arrival p \<le> 0) \<longrightarrow> rr_live (s, Q) \<and> now s = 0"
    and "procs s = ps" and "q_f Q = 0"
    and "q_cells Q = filter (\<lambda>i. of_int (arrival (ps ! i)) \<le> dadd (now s) EPS) [0..<length ps]"
proof -
  have s: "procs s = ps" "tiled 0 (segs s) (now s) \<and> is_double (now s)"
    "(\<forall>p \<in> set ps. arrival p \<le> 0) \<longrightarrow> now s = 0"
  proof -
    show "procs s = ps"
      by (simp add: s_def rr_start_def sim_init_def idle_until_def split: option.split)
    have "tiled 0 (segs s) (now s) \<and> is_double (now s) \<and> ((\<forall>p \<in> set ps. arrival p \<le> 0) \<longrightarrow> now s = 0)"
    proof (cases "next_arrival_after (- 1) ps")
      case None
      then show ?thesis by (simp add: s_def rr_start_def sim_init_def)
    next
      case (Some nx)
      then have "nx < length ps" using next_arrival_Some by blast
      then have nx: "ps ! nx \<in> set ps" by simp
      then have "is_double (of_int (arrival (ps ! nx)))"
        using fresh by (simp add: fresh_task_def is_double_int32)
      moreover have "\<not> (\<forall>p \<in> set ps. arrival p \<le> 0)" if "0 < arrival (ps ! nx)"
        using nx that by (meson not_less)
      ultimately show ?thesis
        using Some add_seg_tiled [of 0 "[]" 0 "of_int (arrival (ps ! nx))" PID_IDLE]
        by (auto simp: s_def rr_start_def sim_init_def idle_until_def)
    qed
    then show "tiled 0 (segs s) (now s) \<and> is_double (now s)"
      "(\<forall>p \<in> set ps. arrival p \<le> 0) \<longrightarrow> now s = 0" by auto
  qed
  let ?xs = "filter (\<lambda>i. of_int (arrival (ps ! i)) \<le> dadd (now s) EPS) [0..<length ps]"
  let ?Q = "\<lparr>q_cells = ?xs, q_f = 0\<rparr>"
  have "length ?xs \<le> MAX_TASKS" using len length_filter_le [of _ "[0..<length ps]"] by (metis (no_types, lifting) diff_zero le_trans length_upt)
  then have enq: "enqueue_if (\<lambda>p. of_int (arrival p) \<le> dadd (now s) EPS) ps q_init = Inr ?Q"
    and qok: "queue_ok (length ps) ?Q"
    by (auto simp: enqueue_if_def q_push_all_result q_init_def queue_ok_def)
  have inv: "rr_inv ps (s, ?Q)"
    using s(1,2) qok fresh by (auto simp: rr_inv_def rr_proc_def fresh_task_def)
  have live: "rr_live (s, ?Q) \<and> now s = 0" if early: "\<forall>p \<in> set ps. arrival p \<le> 0"
  proof -
    have "(of_int (arrival (ps ! i)) :: rat) \<le> dadd 0 EPS" if "i < length ps" for i
    proof -
      have "(of_int (arrival (ps ! i)) :: rat) \<le> 0" using early that by simp
      also have "0 \<le> dadd 0 EPS" by (rule after_EPS) simp
      finally show ?thesis .
    qed
    then show ?thesis using s(1,3) early by (auto simp: rr_live_def waiting_def)
  qed
  show ?thesis by (rule that [OF enq inv]) (use live s(1) in \<open>blast | simp\<close>)+
qed

lemma rr_run_ok:
  assumes fresh: "\<forall>p \<in> set ps. fresh_task p" and len: "length ps \<le> MAX_TASKS" and tq: "0 < tq"
  shows "case rr_run tq ps of Inl e \<Rightarrow> e = Out_Of_Bounds
    | Inr t \<Rightarrow> (\<exists>Q'. rr_inv ps (t, Q')) \<and> ((\<forall>p \<in> set ps. arrival p \<le> 0) \<longrightarrow> all_done (procs t))"
proof -
  let ?s = "rr_start (sim_init ps)"
  obtain Q where Q: "enqueue_if (\<lambda>p. of_int (arrival p) \<le> dadd (now ?s) EPS) ps q_init = Inr Q"
    "rr_inv ps (?s, Q)" "(\<forall>p \<in> set ps. arrival p \<le> 0) \<longrightarrow> rr_live (?s, Q) \<and> now ?s = 0"
    by (rule rr_start_ok [OF fresh len])
  have arr: "\<forall>p \<in> set ps. is_int32 (arrival p)" using fresh by (auto simp: fresh_task_def)
  have "rr_run tq ps = run_loop (rr_body tq) (?s, Q)" using Q(1) by (simp add: rr_run_def Let_def)
  then show ?thesis using rr_loop [OF Q(2) arr tq] Q(3) by (auto split: sum.splits)
qed

subsection \<open>A process that needs more quanta than the queue has cells\<close>

definition rr_single :: "Proc \<Rightarrow> int \<Rightarrow> sim \<times> Queue \<Rightarrow> bool" where
  "rr_single p0 tq = (\<lambda>(s, Q).
     rr_inv [p0] (s, Q) \<and> \<not> is_done (procs s ! 0) \<and>
     q_cells Q = replicate (q_f Q + 1) 0 \<and> remain (procs s ! 0) = of_int (burst p0 - tq * int (q_f Q)))"

lemma rr_single_step:
  assumes I: "rr_single p0 tq (s, Q)" and tq: "0 < tq" and p0: "fresh_task p0" "arrival p0 \<le> 0"
    and long: "tq * int MAX_TASKS < burst p0"
  shows "case rr_body tq (s, Q) of Inl e \<Rightarrow> e = Out_Of_Bounds
    | Inr (Inl t) \<Rightarrow> False
    | Inr (Inr (s', Q')) \<Rightarrow> rr_single p0 tq (s', Q') \<and> rr_measure (s', Q') < rr_measure (s, Q)"
proof -
  have inv: "rr_inv [p0] (s, Q)" and nd: "\<not> is_done (procs s ! 0)"
    and cells: "q_cells Q = replicate (q_f Q + 1) 0"
    and rem: "remain (procs s ! 0) = of_int (burst p0 - tq * int (q_f Q))"
    using I by (simp_all add: rr_single_def)
  have len: "length (procs s) = 1" using inv by (simp add: rr_inv_def)
  have room: "q_f Q + 1 \<le> MAX_TASKS" using inv cells by (simp add: rr_inv_def queue_ok_def)
  have arr: "\<forall>p \<in> set [p0]. is_int32 (arrival p)" using p0(1) by (simp add: fresh_task_def)
  let ?Q1 = "Q\<lparr>q_f := q_f Q + 1\<rparr>" and ?s = "note_start 0 (context_switch 0 s)"
  have "q_cells Q ! q_f Q = 0" "length (q_cells Q) = q_f Q + 1"
    unfolding cells by (rule nth_replicate, simp, simp)
  then have pop: "q_pop Q = Inr (0, ?Q1)" by (simp add: q_pop_def)
  have inv1: "rr_inv [p0] (s, ?Q1)" using inv cells by (simp add: rr_inv_def queue_ok_def)
  note sw = rr_switch [OF inv1 _ nd, simplified]
  have rem1: "remain (procs ?s ! 0) = of_int (burst p0 - tq * int (q_f Q))"
    using rem len by (simp add: note_start_def)
  have bound: "tq * int (q_f Q + 1) \<le> tq * int MAX_TASKS" using room tq by (intro mult_left_mono) auto
  have left: "of_int tq \<le> remain (procs ?s ! 0)"
    "dsub (remain (procs ?s ! 0)) (of_int tq) = of_int (burst p0 - tq * int (q_f Q + 1))"
    "EPS < of_int (burst p0 - tq * int (q_f Q + 1))"
  proof -
    let ?l = "burst p0 - tq * int (q_f Q + 1)"
    have l: "1 \<le> ?l" using bound long by linarith
    have "remain (procs ?s ! 0) - of_int tq = of_int ?l" unfolding rem1 by (simp add: algebra_simps)
    moreover have "\<bar>?l\<bar> < 2 ^ 53"
    proof -
      have "0 \<le> tq * int (q_f Q + 1)" "burst p0 < 2 ^ 53"
        using tq p0(1) by (simp_all add: fresh_task_def is_int32_def int_max_def)
      then show ?thesis using l by linarith
    qed
    ultimately show "dsub (remain (procs ?s ! 0)) (of_int tq) = of_int ?l"
      by (simp only: dsub_def dround_is_double is_double_of_int)
    have "tq \<le> burst p0 - tq * int (q_f Q)" using l by (simp add: algebra_simps)
    then show "of_int tq \<le> remain (procs ?s ! 0)" unfolding rem1 of_int_le_iff .
    have "EPS < 1" using EPS_bounds(2) powi2_mono [of "- 29" 0] by (simp add: power_int_minus)
    also have "1 \<le> (of_int ?l :: rat)" using l by (simp only: of_int_1_le_iff)
    finally show "EPS < of_int ?l" .
  qed
  have none: "filter (\<lambda>i. \<not> is_done (procs ?s ! i) \<and> dadd (now ?s) EPS < of_int (arrival (procs ?s ! i)) \<and>
      of_int (arrival (procs ?s ! i)) \<le> dadd t EPS) [0..<length (procs ?s)] = []" for t
  proof -
    have at: "arrival (procs ?s ! 0) = arrival p0" "tiled 0 (segs ?s) (now ?s)" "is_double (now ?s)"
      using sw(1) by (simp_all add: rr_inv_def rr_proc_def)
    have "(of_int (arrival p0) :: rat) \<le> 0" using p0(2) by simp
    also have "0 \<le> now ?s" using tiled_le [OF at(2)] .
    also have "now ?s \<le> dadd (now ?s) EPS" using after_EPS [OF at(3)] .
    finally have "(of_int (arrival (procs ?s ! 0)) :: rat) \<le> dadd (now ?s) EPS" unfolding at(1) .
    then show ?thesis using sw(4) len by simp
  qed
  define s' where "s' = (advance (dadd (now ?s) (of_int tq)) (pid (procs ?s ! 0)) ?s)\<lparr>procs :=
      (procs ?s)[0 := (procs ?s ! 0)\<lparr>remain := of_int (burst p0 - tq * int (q_f Q + 1))\<rparr>],
      cur := pid (procs ?s ! 0)\<rparr>"
  have quantum: "rr_quantum tq 0 ?Q1 ?s = bind_outcome (q_push ?Q1 0) (\<lambda>Q2. Inr (s', Q2))"
    using left none
    by (simp add: rr_quantum_def Let_def enqueue_arrivals_def enqueue_if_def s'_def min_absorb1)
  have body: "rr_body tq (s, Q) = bind_outcome (rr_quantum tq 0 ?Q1 ?s) (\<lambda>r. Inr (Inr r))"
    using nd len pop by (auto simp: rr_body_def all_done_iff q_empty_def cells in_set_conv_nth)
  show ?thesis
  proof (cases "q_f Q + 1 < MAX_TASKS")
    case False
    then show ?thesis using body quantum cells by (simp add: q_push_def)
  next
    case True
    then have res: "rr_body tq (s, Q) = Inr (Inr (s', ?Q1\<lparr>q_cells := q_cells Q @ [0]\<rparr>))"
      using body quantum cells by (simp add: q_push_def)
    then have "rr_inv [p0] (s', ?Q1\<lparr>q_cells := q_cells Q @ [0]\<rparr>) \<and>
        rr_measure (s', ?Q1\<lparr>q_cells := q_cells Q @ [0]\<rparr>) < rr_measure (s, Q)"
      using rr_body_step [OF inv arr tq] by simp
    moreover have "\<not> is_done (procs s' ! 0)" "remain (procs s' ! 0) = of_int (burst p0 - tq * int (q_f Q + 1))"
      using sw(3,4) len by (simp_all add: s'_def)
    ultimately show ?thesis using res cells by (simp add: rr_single_def replicate_append_same)
  qed
qed

lemma rr_overflow:
  assumes p: "fresh_task p" "arrival p \<le> 0" and tq: "0 < tq" and long: "tq * int MAX_TASKS < burst p"
  shows "rr_run tq [p] = Inl Out_Of_Bounds"
proof -
  let ?s = "rr_start (sim_init [p])"
  have "\<forall>q \<in> set [p]. fresh_task q" "length [p] \<le> MAX_TASKS" using p by (simp_all add: MAX_TASKS_def)
  then obtain Q where Q: "enqueue_if (\<lambda>q. of_int (arrival q) \<le> dadd (now ?s) EPS) [p] q_init = Inr Q"
    "rr_inv [p] (?s, Q)" "(\<forall>q \<in> set [p]. arrival q \<le> 0) \<longrightarrow> rr_live (?s, Q) \<and> now ?s = 0"
    "procs ?s = [p]" "q_f Q = 0"
    "q_cells Q = filter (\<lambda>i. of_int (arrival ([p] ! i)) \<le> dadd (now ?s) EPS) [0..<length [p]]"
    by (rule rr_start_ok)
  have "rr_live (?s, Q)" using Q(3) p(2) by simp
  then have "0 \<in> waiting Q" using Q(4) p(1) by (simp add: rr_live_def fresh_task_def)
  then have "q_cells Q = [0]" using Q(5,6) by (auto simp: waiting_def split: if_splits)
  then have I: "rr_single p tq (?s, Q)" using Q p(1) by (simp add: rr_single_def fresh_task_def)
  have "case run_loop (rr_body tq) (?s, Q) of Inl e \<Rightarrow> e = Out_Of_Bounds | Inr t \<Rightarrow> False"
  proof (rule run_loop_rule [where I = "rr_single p tq" and m = rr_measure])
    fix sq assume I: "rr_single p tq sq"
    note step = rr_single_step [OF _ tq p long, of "fst sq" "snd sq"]
    show "e = Out_Of_Bounds" if "rr_body tq sq = Inl e" for e using step I that by simp
    show "False" if "rr_body tq sq = Inr (Inl t)" for t using step I that by simp
    show "rr_single p tq sq' \<and> rr_measure sq' < rr_measure sq" if "rr_body tq sq = Inr (Inr sq')" for sq'
      using step I that by (cases sq') simp
  qed (rule I)
  then show ?thesis using Q(1) by (simp add: rr_run_def Let_def split: sum.splits)
qed

subsection \<open>The states of a run\<close>

text \<open>The states at the head of the loop, from the start of a simulation on.\<close>

inductive rr_visits :: "int \<Rightarrow> Proc list \<Rightarrow> sim \<times> Queue \<Rightarrow> bool" for tq ps where
  first: "enqueue_if (\<lambda>p. of_int (arrival p) \<le> dadd (now (rr_start (sim_init ps))) EPS) ps q_init = Inr Q \<Longrightarrow>
     rr_visits tq ps (rr_start (sim_init ps), Q)"
| next_round: "rr_visits tq ps sq \<Longrightarrow> rr_body tq sq = Inr (Inr sq') \<Longrightarrow> rr_visits tq ps sq'"

definition rr_steps :: "int \<Rightarrow> (sim \<times> Queue) rel" where
  "rr_steps tq = {(sq, sq'). rr_body tq sq = Inr (Inr sq')}"

lemma rr_visits_start:
  assumes "rr_visits tq ps sq"
  obtains Q where "enqueue_if (\<lambda>p. of_int (arrival p) \<le> dadd (now (rr_start (sim_init ps))) EPS) ps q_init = Inr Q"
    and "((rr_start (sim_init ps), Q), sq) \<in> (rr_steps tq)\<^sup>*"
  using assms by induction (auto simp: rr_steps_def intro: rtrancl.rtrancl_into_rtrancl)

text \<open>The loop is deterministic: of two states of a run one comes after the other.\<close>

lemma rr_visits_compare:
  assumes "rr_visits tq ps sq" and "rr_visits tq ps sq'"
  shows "(sq, sq') \<in> (rr_steps tq)\<^sup>* \<or> (sq', sq) \<in> (rr_steps tq)\<^sup>*"
proof -
  have "single_valued (rr_steps tq)" by (auto simp: single_valued_def rr_steps_def)
  then show ?thesis
    using rr_visits_start [OF assms(1)] rr_visits_start [OF assms(2)] single_valued_confluent
    by (metis sum.inject(2))
qed

lemma rr_visits_inv:
  assumes "rr_visits tq ps sq" and "\<forall>p \<in> set ps. fresh_task p" and "length ps \<le> MAX_TASKS" and "0 < tq"
  shows "rr_inv ps sq"
  using assms(1)
proof induction
  case (first Q)
  show ?case by (rule rr_start_ok [OF assms(2,3)]) (use first in simp)
next
  case (next_round sq sq')
  have "\<forall>p \<in> set ps. is_int32 (arrival p)" using assms(2) by (auto simp: fresh_task_def)
  then show ?case
    using rr_body_step [OF _ _ assms(4), of ps "fst sq" "snd sq"] next_round by (cases sq') simp
qed

text \<open>A round leaves a process alone that is not in the queue and has not arrived by its end.\<close>

lemma rr_body_later:
  assumes inv: "rr_inv ps0 (s, Q)" and arr: "\<forall>p \<in> set ps0. is_int32 (arrival p)" and tq: "0 < tq"
    and step: "rr_body tq (s, Q) = Inr (Inr (s', Q'))"
  shows "now s \<le> now s'"
    and "i < length ps0 \<Longrightarrow> i \<notin> waiting Q \<Longrightarrow> dadd (now s') EPS < of_int (arrival (ps0 ! i)) \<Longrightarrow>
      procs s' ! i = procs s ! i \<and> i \<notin> waiting Q'"
proof -
  have len: "length (procs s) = length ps0" and qok: "queue_ok (length ps0) Q"
    and same: "\<And>j. j < length ps0 \<Longrightarrow> arrival (procs s ! j) = arrival (ps0 ! j)"
    using inv by (auto simp: rr_inv_def rr_proc_def)
  have nd: "\<not> all_done (procs s)" using step by (auto simp: rr_body_def)
  have "now s \<le> now s' \<and> (i < length ps0 \<and> i \<notin> waiting Q \<and> dadd (now s') EPS < of_int (arrival (ps0 ! i)) \<longrightarrow>
      procs s' ! i = procs s ! i \<and> i \<notin> waiting Q')"
  proof (cases "q_empty Q")
    case True
    then obtain j where j: "next_arrival_after (now s) (procs s) = Some j"
      using step nd by (auto simp: rr_body_def split: option.splits)
    note id = rr_idle [OF inv arr j]
    let ?s = "(idle_until j s)\<lparr>cur := PID_IDLE\<rparr>"
    have s': "s' = ?s" and enq: "enqueue_if (ready (now ?s)) (procs ?s) Q = Inr Q'"
      using step nd True j by (auto simp: rr_body_def bind_outcome_Inr)
    have "queue_ok (length (procs ?s)) Q" using qok len id(4) by simp
    then have "waiting Q' = waiting Q \<union> {k. k < length (procs ?s) \<and> ready (now ?s) (procs ?s ! k)}"
      by (rule enqueue_if_ok(3) [OF enq])
    then show ?thesis unfolding s' using id(3,4) same by (auto simp: ready_def)
  next
    case False
    obtain k Q1 where k: "q_pop Q = Inr (k, Q1)" "k < length ps0" "queue_ok (length ps0) Q1"
      "waiting Q = insert k (waiting Q1)"
      by (rule q_pop_ok [OF qok False])
    have inv1: "rr_inv ps0 (s, Q1)" using inv k(3) by (simp add: rr_inv_def)
    show ?thesis
    proof (cases "is_done (procs s ! k)")
      case True
      then show ?thesis using step nd False k by (auto simp: rr_body_def)
    next
      case nk: False
      let ?s = "note_start k (context_switch k s)"
      note sw = rr_switch [OF inv1 k(2) nk]
      have "rr_quantum tq k Q1 ?s = Inr (s', Q')"
        using step nd False k(1) nk by (auto simp: rr_body_def bind_outcome_Inr)
      then have q: "\<forall>j. j \<noteq> k \<longrightarrow> procs s' ! j = procs ?s ! j"
        and le: "now ?s \<le> now s'" and w: "waiting Q' \<subseteq> insert k (waiting Q1) \<union>
          {j. j < length ps0 \<and> of_int (arrival (ps0 ! j)) \<le> dadd (now s') EPS}"
        using rr_quantum_ok [OF sw(1) tq k(2) sw(2,3)] by auto
      have "is_double (now s)" using inv by (simp add: rr_inv_def)
      then have "now s \<le> now s'" using le context_switch_time [of s k] by simp
      moreover have "procs ?s ! i = procs s ! i" if "i \<noteq> k" for i using that by (simp add: note_start_def)
      ultimately show ?thesis using q w k(4) by auto
    qed
  qed
  then show "now s \<le> now s'" and "i < length ps0 \<Longrightarrow> i \<notin> waiting Q \<Longrightarrow>
      dadd (now s') EPS < of_int (arrival (ps0 ! i)) \<Longrightarrow> procs s' ! i = procs s ! i \<and> i \<notin> waiting Q'" by auto
qed

subsection \<open>A process that is lost\<close>

text \<open>
  Once everything has arrived, a process that has not run and is not in the queue stays out of it.
\<close>

definition rr_lost :: "Proc list \<Rightarrow> nat \<Rightarrow> sim \<times> Queue \<Rightarrow> bool" where
  "rr_lost ps0 i = (\<lambda>(s, Q).
     i < length ps0 \<and> procs s ! i = ps0 ! i \<and> i \<notin> waiting Q \<and>
     (\<forall>p \<in> set ps0. of_int (arrival p) \<le> dadd (now s) EPS))"

lemma rr_pop_lost:
  assumes inv: "rr_inv ps0 (s, Q)" and tq: "0 < tq" and q: "\<not> q_empty Q" "\<not> all_done (procs s)"
    and i: "i < length ps0" "procs s ! i = ps0 ! i" "i \<notin> waiting Q"
    and now1: "\<And>k. q_pop Q = Inr (k, Q\<lparr>q_f := q_f Q + 1\<rparr>) \<Longrightarrow> is_done (procs s ! k) \<Longrightarrow>
      \<forall>p \<in> set ps0. of_int (arrival p) \<le> dadd (now s) EPS"
    and now2: "\<And>k. q_pop Q = Inr (k, Q\<lparr>q_f := q_f Q + 1\<rparr>) \<Longrightarrow> \<not> is_done (procs s ! k) \<Longrightarrow>
      \<forall>p \<in> set ps0. of_int (arrival p) \<le> dadd (now (context_switch k s)) EPS"
    and step: "rr_body tq (s, Q) = Inr (Inr sq')"
  shows "rr_lost ps0 i sq'"
proof -
  have qok: "queue_ok (length ps0) Q" using inv by (simp add: rr_inv_def)
  obtain k Q1 where k: "q_pop Q = Inr (k, Q1)" "k < length ps0" "queue_ok (length ps0) Q1"
    "waiting Q = insert k (waiting Q1)"
    by (rule q_pop_ok [OF qok q(1)])
  have Q1: "Q1 = Q\<lparr>q_f := q_f Q + 1\<rparr>" using k(1) by (auto simp: q_pop_def split: if_splits)
  have ik: "i \<noteq> k" "i \<notin> waiting Q1" using i(3) k(4) by auto
  have inv1: "rr_inv ps0 (s, Q1)" using inv k(3) by (simp add: rr_inv_def)
  show ?thesis
  proof (cases "is_done (procs s ! k)")
    case True
    then show ?thesis using step q k(1) i ik now1 [of k] by (auto simp: rr_body_def rr_lost_def Q1)
  next
    case False
    let ?s = "note_start k (context_switch k s)"
    note sw = rr_switch [OF inv1 k(2) False]
    obtain s' Q' where res: "rr_quantum tq k Q1 ?s = Inr (s', Q')" "sq' = (s', Q')"
      using step q k(1) False by (cases "rr_quantum tq k Q1 ?s") (auto simp: rr_body_def)
    have arr: "of_int (arrival p) \<le> dadd (now ?s) EPS" if "p \<in> set ps0" for p
      using now2 [of k] k(1) False that by (simp add: Q1)
    have "now ?s \<le> now s'" "waiting Q' \<subseteq> insert k (waiting Q1) \<union>
        {j. j < length ps0 \<and> dadd (now ?s) EPS < of_int (arrival (ps0 ! j))}"
      "procs s' ! i = procs ?s ! i"
      using rr_quantum_ok [OF sw(1) tq k(2) sw(2,3)] res(1) ik(1) by auto
    moreover have "\<not> dadd (now ?s) EPS < of_int (arrival (ps0 ! j))" if "j < length ps0" for j
      using arr [of "ps0 ! j"] that by (simp add: not_less)
    moreover have "procs ?s ! i = procs s ! i" using ik(1) by (simp add: note_start_def)
    ultimately show ?thesis
      using i(1,2) ik arr dadd_mono [of "now ?s" "now s'" EPS]
      by (force simp: rr_lost_def res(2))
  qed
qed

lemma rr_lost_step:
  assumes inv: "rr_inv ps0 (s, Q)" and tq: "0 < tq"
    and lost: "rr_lost ps0 i (s, Q)" and step: "rr_body tq (s, Q) = Inr (Inr sq')"
  shows "rr_lost ps0 i sq'"
proof -
  have L: "i < length ps0" "procs s ! i = ps0 ! i" "i \<notin> waiting Q"
    "\<forall>p \<in> set ps0. of_int (arrival p) \<le> dadd (now s) EPS" using lost by (auto simp: rr_lost_def)
  have nd: "\<not> all_done (procs s)" using step by (auto simp: rr_body_def)
  have "of_int (arrival (procs s ! j)) \<le> dadd (now s) EPS" if "j < length ps0" for j
    using L(4) inv that by (auto simp: rr_inv_def rr_proc_def)
  then have "next_arrival_after (now s) (procs s) = None"
    using inv by (auto simp: next_arrival_None in_set_conv_nth rr_inv_def)
  then have ne: "\<not> q_empty Q" using step nd by (auto simp: rr_body_def)
  have "\<forall>p \<in> set ps0. of_int (arrival p) \<le> dadd (now (context_switch k s)) EPS" for k
    using L(4) context_switch_time [of s k] dadd_mono [of "now s" "now (context_switch k s)" EPS] inv
    by (force simp: rr_inv_def)
  then show ?thesis using rr_pop_lost [OF inv tq ne nd L(1-3) _ _ step] L(4) by simp
qed

text \<open>
  Over a whole run: before its arrival a process is as it was read, and once lost it stays so.
\<close>

lemma rr_visits_unarrived:
  assumes "rr_visits tq ps (s, Q)" and "\<forall>p \<in> set ps. fresh_task p" and "length ps \<le> MAX_TASKS" and "0 < tq"
    and "i < length ps" and "dadd (now s) EPS < of_int (arrival (ps ! i))"
  shows "procs s ! i = ps ! i \<and> i \<notin> waiting Q"
  using assms(1,6)
proof (induction "(s, Q)" arbitrary: s Q)
  case (first Q)
  have "waiting Q = {j. j < length ps \<and> of_int (arrival (ps ! j)) \<le> dadd (now (rr_start (sim_init ps))) EPS}"
    "procs (rr_start (sim_init ps)) = ps"
    by (rule rr_start_ok [OF assms(2,3)]; use first in \<open>auto simp: waiting_def\<close>)+
  then show ?case using first.prems by simp
next
  case (next_round sq s' Q')
  obtain s Q where sq: "sq = (s, Q)" by (cases sq)
  have inv: "rr_inv ps (s, Q)" using rr_visits_inv next_round.hyps(1) assms(2-4) sq by blast
  have arr: "\<forall>p \<in> set ps. is_int32 (arrival p)" using assms(2) by (auto simp: fresh_task_def)
  note later = rr_body_later [OF inv arr assms(4) next_round.hyps(3) [unfolded sq]]
  have "dadd (now s) EPS \<le> dadd (now s') EPS" by (rule dadd_mono) (rule later(1))
  then have "procs s ! i = ps ! i \<and> i \<notin> waiting Q"
    using next_round.hyps(2) [OF sq] next_round.prems by simp
  then show ?case using later(2) [OF assms(5)] next_round.prems by simp
qed

lemma rr_steps_visits: "(sq, sq') \<in> (rr_steps tq)\<^sup>* \<Longrightarrow> rr_visits tq ps sq \<Longrightarrow> rr_visits tq ps sq'"
  by (induction rule: rtrancl_induct) (auto simp: rr_steps_def intro: rr_visits.next_round)

lemma rr_steps_later:
  assumes "(sq, sq') \<in> (rr_steps tq)\<^sup>*" and "rr_visits tq ps sq" and "\<forall>p \<in> set ps. fresh_task p"
    and "length ps \<le> MAX_TASKS" and "0 < tq"
  shows "now (fst sq) \<le> now (fst sq')" and "rr_lost ps i sq \<Longrightarrow> rr_lost ps i sq'"
proof -
  have arr: "\<forall>p \<in> set ps. is_int32 (arrival p)" using assms(3) by (auto simp: fresh_task_def)
  have "now (fst sq) \<le> now (fst sq') \<and> (rr_lost ps i sq \<longrightarrow> rr_lost ps i sq')"
    using assms(1)
  proof (induction rule: rtrancl_induct)
    case (step y z)
    have "rr_inv ps (fst y, snd y)"
      using rr_visits_inv [OF rr_steps_visits [OF step.hyps(1) assms(2)] assms(3-5)] by simp
    moreover have body: "rr_body tq (fst y, snd y) = Inr (Inr z)" using step.hyps(2) by (simp add: rr_steps_def)
    ultimately show ?case
      using step.IH rr_body_later(1) [OF _ arr assms(5), of "fst y" "snd y" "fst z" "snd z"]
        rr_lost_step [OF _ assms(5) _ body, of ps i] by auto
  qed simp
  then show "now (fst sq) \<le> now (fst sq')" and "rr_lost ps i sq \<Longrightarrow> rr_lost ps i sq'" by auto
qed

text \<open>A process whose arrival falls into a switch, as the last one, is lost.\<close>

lemma rr_switch_loses:
  assumes fresh: "\<forall>p \<in> set ps. fresh_task p" and len: "length ps \<le> MAX_TASKS" and tq: "0 < tq"
    and v: "rr_visits tq ps (s, Q)" and q: "q_f Q < length (q_cells Q)" and k: "q_cells Q ! q_f Q = k"
    and nd: "\<not> is_done (procs s ! k)" and switch: "cur s \<noteq> pid (procs s ! k)" "cur s \<noteq> PID_IDLE"
    and i: "i < length ps" "dadd (now s) EPS < of_int (arrival (ps ! i))"
      "of_int (arrival (ps ! i)) \<le> dadd (dadd (now s) CS_OVERHEAD) EPS"
    and last: "\<forall>p \<in> set ps. arrival p \<le> arrival (ps ! i)"
    and step: "rr_body tq (s, Q) = Inr (Inr sq)"
  shows "rr_lost ps i sq"
proof -
  have pop: "q_pop Q = Inr (k, Q\<lparr>q_f := q_f Q + 1\<rparr>)" and ne: "\<not> q_empty Q"
    using q k by (auto simp: q_pop_def q_empty_def)
  have busy: "\<not> all_done (procs s)" using step by (auto simp: rr_body_def)
  have inv: "rr_inv ps (s, Q)" by (rule rr_visits_inv [OF v fresh len tq])
  have "of_int (arrival p) \<le> dadd (dadd (now s) CS_OVERHEAD) EPS" if "p \<in> set ps" for p
  proof -
    have "(of_int (arrival p) :: rat) \<le> of_int (arrival (ps ! i))" using last that by simp
    then show ?thesis using i(3) by linarith
  qed
  then have "\<forall>p \<in> set ps. of_int (arrival p) \<le> dadd (now (context_switch k s)) EPS"
    using switch by (simp add: context_switch_def)
  then show ?thesis
    using rr_pop_lost [OF inv tq ne busy i(1) _ _ _ _ step] pop nd
      rr_visits_unarrived [OF v fresh len tq i(1,2)] by simp
qed

text \<open>The result of a simulation is a state of the run.\<close>

lemma rr_run_visits:
  assumes "\<forall>p \<in> set ps. fresh_task p" and "length ps \<le> MAX_TASKS" and "0 < tq"
    and "\<And>s Q. rr_visits tq ps (s, Q) \<Longrightarrow> P s"
  shows "case rr_run tq ps of Inl e \<Rightarrow> e = Out_Of_Bounds | Inr t \<Rightarrow> P t"
proof -
  let ?s = "rr_start (sim_init ps)"
  obtain Q where Q: "enqueue_if (\<lambda>p. of_int (arrival p) \<le> dadd (now ?s) EPS) ps q_init = Inr Q"
    by (rule rr_start_ok [OF assms(1,2)])
  have arr: "\<forall>p \<in> set ps. is_int32 (arrival p)" using assms(1) by (auto simp: fresh_task_def)
  have "case run_loop (rr_body tq) (?s, Q) of Inl e \<Rightarrow> e = Out_Of_Bounds | Inr t \<Rightarrow> P t"
  proof (rule run_loop_rule [where m = rr_measure and I = "rr_visits tq ps"])
    fix sq assume I: "rr_visits tq ps sq"
    obtain s1 Q1 where sq: "sq = (s1, Q1)" by (cases sq)
    note step = rr_body_step [OF _ arr assms(3), of s1 Q1, folded sq]
    have inv: "rr_inv ps sq" by (rule rr_visits_inv [OF I assms(1-3)])
    show "e = Out_Of_Bounds" if "rr_body tq sq = Inl e" for e using step inv that by simp
    show "P t" if "rr_body tq sq = Inr (Inl t)" for t
      using step inv that assms(4) [OF I [unfolded sq]] by auto
    show "rr_visits tq ps sq' \<and> rr_measure sq' < rr_measure sq" if "rr_body tq sq = Inr (Inr sq')" for sq'
      using step inv that rr_visits.next_round [OF I that] by (cases sq') simp
  qed (rule rr_visits.first [OF Q])
  then show ?thesis using Q by (simp add: rr_run_def Let_def)
qed

end
