(* ===== verification/Sched_Late.thy ===== *)
theory Sched_Late
  imports Sched_RR
begin

section \<open>A run of round robin that loses a process\<close>

text \<open>
  A concrete run, followed round by round: eleven processes of one unit are there from the start, and
  the last one arrives at 11, during the tenth switch.  The clock is the rounded one, so its value after
  ten rounds is bounded by the error of each addition instead of computed.
\<close>

definition late_tasks :: "Proc list" where
  "late_tasks = map (\<lambda>j. new_task (int j + 1) 0 1) [0..<11] @ [new_task 12 11 1]"

fun late_clock :: "nat \<Rightarrow> double" where
  "late_clock 0 = 0"
| "late_clock (Suc n) = dadd (if n = 0 then 0 else dadd (late_clock n) CS_OVERHEAD) 1"

declare late_clock.simps(2) [simp del]

text \<open>The state in which \<open>n\<close> processes have been served.\<close>

definition late_served :: "nat \<Rightarrow> sim \<times> Queue \<Rightarrow> bool" where
  "late_served n = (\<lambda>(s, Q). Q = \<lparr>q_cells = [0..<11], q_f = n\<rparr> \<and> length (procs s) = 12 \<and>
     now s = late_clock n \<and> cur s = (if n = 0 then PID_IDLE else int n) \<and> procs s ! 11 = new_task 12 11 1 \<and>
     (\<forall>j < 11. pid (procs s ! j) = int j + 1 \<and> arrival (procs s ! j) = 0 \<and>
        (is_done (procs s ! j) \<longleftrightarrow> j < n) \<and> (n \<le> j \<longrightarrow> remain (procs s ! j) = 1)))"

lemma small_error:
  assumes "0 \<le> x + y" and "x + y < 16"
  shows "x + y - 1 / 1000000000000 \<le> dadd x y" "dadd x y \<le> x + y + 1 / 1000000000000"
proof -
  have "\<bar>x + y\<bar> < 2 powi 4" using assms by simp
  from dround_error [OF this] have "\<bar>dadd x y - (x + y)\<bar> \<le> 1 / 1000000000000"
    unfolding dadd_def by (rule order_trans) (simp add: power_int_minus)
  then show "x + y - 1 / 1000000000000 \<le> dadd x y" "dadd x y \<le> x + y + 1 / 1000000000000" by linarith+
qed

lemma late_bounds:
  "1 / 10 - 1 / 1000000000000 \<le> CS_OVERHEAD" "CS_OVERHEAD \<le> 1 / 10 + 1 / 1000000000000"
  "9 / 10000000000 \<le> EPS" "EPS \<le> 2 / 1000000000"
proof -
  have "CS_OVERHEAD = dadd (1 / 10) 0" by (simp add: CS_OVERHEAD_def dadd_def)
  then show "1 / 10 - 1 / 1000000000000 \<le> CS_OVERHEAD" "CS_OVERHEAD \<le> 1 / 10 + 1 / 1000000000000"
    using small_error [of "1 / 10" 0] by simp_all
  show "9 / 10000000000 \<le> EPS" by (rule order_trans [OF _ EPS_bounds(1)]) (simp add: power_int_minus)
  show "EPS \<le> 2 / 1000000000" by (rule order_trans [OF EPS_bounds(2)]) (simp add: power_int_minus)
qed

lemma late_clock_error:
  assumes "n < 10"
  shows "of_nat n * (11 / 10) + 1 - of_nat n * (3 / 1000000000000) \<le> late_clock (Suc n) \<and>
    late_clock (Suc n) \<le> of_nat n * (11 / 10) + 1 + of_nat n * (3 / 1000000000000)"
  using assms
proof (induction n)
  case 0
  have "is_double 1" using is_double_of_int [of 1] by simp
  then show ?case by (simp add: late_clock.simps(2) dadd_def dround_is_double)
next
  case (Suc n)
  define t where "t = late_clock (Suc n)"
  define c where "c = (of_nat n :: rat)"
  define u where "u = dadd t CS_OVERHEAD"
  have t: "c * (11 / 10) + 1 - c * (3 / 1000000000000) \<le> t" "t \<le> c * (11 / 10) + 1 + c * (3 / 1000000000000)"
    using Suc.IH Suc.prems by (simp_all only: t_def c_def Suc_lessD)
  have "n \<le> 8" using Suc.prems by simp
  then have c: "0 \<le> c" "c \<le> 8" unfolding c_def using of_nat_mono [of n 8, where ?'a = rat] by simp_all
  have u: "t + CS_OVERHEAD - 1 / 1000000000000 \<le> u" "u \<le> t + CS_OVERHEAD + 1 / 1000000000000"
    unfolding u_def by (rule small_error; use t c late_bounds(1,2) in linarith)+
  have "u + 1 - 1 / 1000000000000 \<le> dadd u 1" "dadd u 1 \<le> u + 1 + 1 / 1000000000000"
    by (rule small_error; use t u c late_bounds(1,2) in linarith)+
  then have "(c + 1) * (11 / 10) + 1 - (c + 1) * (3 / 1000000000000) \<le> dadd u 1 \<and> dadd u 1 \<le> (c + 1) * (11 / 10) + 1 + (c + 1) * (3 / 1000000000000)"
    using t u late_bounds(1,2) unfolding distrib_right by linarith
  then show ?case by (simp only: late_clock.simps(2) [of "Suc n"] t_def u_def c_def of_nat_Suc add.commute) simp
qed

lemma late_tenth:
  "dadd (late_clock 10) EPS < 11" "11 \<le> dadd (dadd (late_clock 10) CS_OVERHEAD) EPS"
proof -
  define t where "t = late_clock 10"
  define u where "u = dadd t CS_OVERHEAD"
  have "Suc 9 = (10::nat)" by simp
  then have t: "109 / 10 - 27 / 1000000000000 \<le> t" "t \<le> 109 / 10 + 27 / 1000000000000"
    using late_clock_error [of 9] by (simp_all add: t_def)
  have "dadd t EPS \<le> t + EPS + 1 / 1000000000000"
    by (rule small_error(2); use t late_bounds in linarith)
  then show "dadd (late_clock 10) EPS < 11" unfolding t_def [symmetric] using t late_bounds by linarith
  have u: "t + CS_OVERHEAD - 1 / 1000000000000 \<le> u" "u \<le> t + CS_OVERHEAD + 1 / 1000000000000"
    unfolding u_def by (rule small_error; use t late_bounds in linarith)+
  have "u + EPS - 1 / 1000000000000 \<le> dadd u EPS"
    by (rule small_error(1); use t u late_bounds in linarith)
  then show "11 \<le> dadd (dadd (late_clock 10) CS_OVERHEAD) EPS"
    unfolding t_def [symmetric] u_def [symmetric] using t u late_bounds by linarith
qed

lemma late_clock_nonneg: "is_double (late_clock n)" "0 \<le> late_clock n" "late_clock n \<le> late_clock (Suc n)"
proof -
  have dbl: "is_double (late_clock m)" for m by (cases m) (simp_all add: late_clock.simps(2))
  have le: "late_clock m \<le> late_clock (Suc m)" for m
  proof (cases "m = 0")
    case True
    then show ?thesis using dadd_ge [of 0 1] by (simp add: late_clock.simps(2))
  next
    case False
    then show ?thesis
      using dadd_ge [OF dbl CS_nonneg, of m] dadd_ge [of "dadd (late_clock m) CS_OVERHEAD" 1]
      by (simp add: late_clock.simps(2))
  qed
  show "is_double (late_clock n)" "late_clock n \<le> late_clock (Suc n)" by (rule dbl, rule le)
  show "0 \<le> late_clock n" by (induction n) (use le order_trans in \<open>simp, blast\<close>)
qed

text \<open>No quantum sees the late arrival: it ends too early, or starts too late.\<close>

lemma late_window:
  assumes "n < 11"
  defines "t \<equiv> if n = 0 then 0 else dadd (late_clock n) CS_OVERHEAD"
  shows "\<not> (dadd t EPS < 11 \<and> 11 \<le> dadd (late_clock (Suc n)) EPS)" "0 \<le> dadd t EPS"
proof -
  have mono: "late_clock i \<le> late_clock j" if "i \<le> j" for i j
    by (rule lift_Suc_mono_le [where f = late_clock, OF late_clock_nonneg(3) that])
  show "\<not> (dadd t EPS < 11 \<and> 11 \<le> dadd (late_clock (Suc n)) EPS)"
  proof (cases "n = 10")
    case True
    then show ?thesis using late_tenth(2) by (simp add: t_def)
  next
    case False
    then have "late_clock (Suc n) \<le> late_clock 10" using assms(1) by (intro mono) simp
    then show ?thesis using dadd_mono [of _ "late_clock 10" EPS] late_tenth(1) by fastforce
  qed
  have "0 \<le> t" using late_clock_nonneg(1,2) [of n] dadd_ge [OF _ CS_nonneg, of "late_clock n"]
    by (auto simp: t_def)
  moreover have "0 \<le> dadd 0 EPS" by (rule after_EPS) simp
  ultimately show "0 \<le> dadd t EPS" using dadd_mono [of 0 t EPS] by linarith
qed

lemma late_round:
  assumes st: "late_served n (s, Q)" and n: "n < 11"
  obtains sq where "rr_body 1 (s, Q) = Inr (Inr sq)" and "late_served (Suc n) sq"
proof -
  let ?s = "note_start n (context_switch n s)" and ?Q = "\<lparr>q_cells = [0..<11], q_f = Suc n\<rparr>"
  have Q: "Q = \<lparr>q_cells = [0..<11], q_f = n\<rparr>" and len: "length (procs s) = 12"
    and last: "procs s ! 11 = new_task 12 11 1"
    and early: "\<And>j. j < 11 \<Longrightarrow> pid (procs s ! j) = int j + 1 \<and> arrival (procs s ! j) = 0 \<and>
        (is_done (procs s ! j) \<longleftrightarrow> j < n) \<and> (n \<le> j \<longrightarrow> remain (procs s ! j) = 1)"
    using st by (auto simp: late_served_def)
  have now: "now ?s = (if n = 0 then 0 else dadd (late_clock n) CS_OVERHEAD)"
    using st early [OF n] n by (auto simp: late_served_def context_switch_def PID_IDLE_def)
  then have fin: "dadd (now ?s) 1 = late_clock (Suc n)" by (simp add: late_clock.simps(2))
  have same: "j \<noteq> n \<Longrightarrow> procs ?s ! j = procs s ! j" "length (procs ?s) = 12" for j
    using len by (simp_all add: note_start_def)
  have pn: "pid (procs ?s ! n) = int n + 1" "arrival (procs ?s ! n) = 0" "remain (procs ?s ! n) = 1"
    "\<not> is_done (procs ?s ! n)" using early [OF n] len n by (simp_all add: note_start_def)
  have "arrival (procs ?s ! j) = (if j = 11 then 11 else 0)" if "j < 12" for j
    using that early [of j] last pn(2) same(1) [of j] n by (cases "j = n"; cases "j = 11") (auto simp: new_task_def)
  then have "filter (\<lambda>i. \<not> is_done (procs ?s ! i) \<and> dadd (now ?s) EPS < of_int (arrival (procs ?s ! i)) \<and>
      of_int (arrival (procs ?s ! i)) \<le> dadd (late_clock (Suc n)) EPS) [0..<length (procs ?s)] = []"
    using late_window [OF n] unfolding now same(2) by (auto simp: filter_empty_conv)
  then have enq: "enqueue_arrivals (now ?s) (late_clock (Suc n)) (procs ?s) ?Q = Inr ?Q"
    by (simp add: enqueue_arrivals_def enqueue_if_def)
  define s' where "s' = (advance (late_clock (Suc n)) (int n + 1) ?s)\<lparr>procs := (procs ?s)[n :=
      (procs ?s ! n)\<lparr>remain := 0, is_done := True, finish := late_clock (Suc n)\<rparr>], cur := int n + 1\<rparr>"
  have "rr_quantum 1 n ?Q ?s = Inr (s', ?Q)"
    using pn enq fin EPS_bounds(3)
    by (simp add: rr_quantum_def Let_def dsub_def s'_def)
  moreover have "\<not> all_done (procs s)" using last len nth_mem [of 11 "procs s"] by (force simp: all_done_iff new_task_def)
  moreover have "q_pop Q = Inr (n, ?Q)" "\<not> q_empty Q" using n by (simp_all add: Q q_pop_def q_empty_def)
  ultimately have "rr_body 1 (s, Q) = Inr (Inr (s', ?Q))" using early [OF n] by (simp add: rr_body_def)
  moreover have "procs s' ! j = procs s ! j" if "j \<noteq> n" for j using that same(1) by (simp add: s'_def)
  then have "late_served (Suc n) (s', ?Q)"
    using early last same(2) n pn by (auto simp: late_served_def s'_def advance_def less_Suc_eq nth_list_update)
  ultimately show ?thesis using that by blast
qed

lemma late_tasks_nth: "j < 11 \<Longrightarrow> late_tasks ! j = new_task (int j + 1) 0 1" "late_tasks ! 11 = new_task 12 11 1"
  "length late_tasks = 12"
  by (simp_all add: late_tasks_def nth_append)

lemma late_start:
  obtains Q where "rr_visits 1 late_tasks (sim_init late_tasks, Q)"
    and "rr_run 1 late_tasks = run_loop (rr_body 1) (sim_init late_tasks, Q)"
    and "late_served 0 (sim_init late_tasks, Q)"
proof -
  have "is_double (- 1)" using is_double_of_int [of "- 1"] by simp
  then have "dround (- 1 + EPS) \<le> dround (- 1 / 2)" using EPS_bounds(2)
    by (intro dround_mono) (simp add: power_int_minus)
  moreover have "is_double (- 1 / 2)" unfolding is_double_def
    by (rule exI [of _ "- 1"], rule exI [of _ "- 1"]) (simp add: power_int_minus)
  ultimately have neg: "dadd (- 1) EPS < 0" by (simp add: dadd_def dround_is_double)
  have "arrival (late_tasks ! k) \<le> 0" if "next_arrival_after (- 1) late_tasks = Some k" for k
    using by_arrival.select_best_Some(1) [OF that [unfolded next_arrival_after_def], of 0] neg late_tasks_nth
    by (simp add: new_task_def)
  then have start: "rr_start (sim_init late_tasks) = sim_init late_tasks"
    by (auto simp: rr_start_def sim_init_def not_less split: option.splits)
  have "0 \<le> dadd 0 EPS" using late_window(2) [of 0] by simp
  moreover have "dadd 0 EPS < 11"
    using dadd_mono [OF late_clock_nonneg(2) [of 10], of EPS] late_tenth(1) by linarith
  moreover have "[0..<12] = [0..<11] @ [11]" using upt_Suc_append [of 0 11] by simp
  ultimately have "filter (\<lambda>i. of_int (arrival (late_tasks ! i)) \<le> dadd 0 EPS) [0..<12] = [0..<11]"
    by (simp only: filter_append) (simp add: late_tasks_nth new_task_def filter_id_conv del: upt_rec_numeral)
  moreover have "now (sim_init late_tasks) = 0" by (simp add: sim_init_def)
  ultimately have enq: "enqueue_if (\<lambda>p. of_int (arrival p) \<le> dadd (now (rr_start (sim_init late_tasks))) EPS) late_tasks q_init =
      Inr \<lparr>q_cells = [0..<11], q_f = 0\<rparr>"
    unfolding start by (simp add: enqueue_if_def q_push_all_result q_init_def MAX_TASKS_def late_tasks_nth)
  show ?thesis
  proof (rule that)
    show "rr_visits 1 late_tasks (sim_init late_tasks, \<lparr>q_cells = [0..<11], q_f = 0\<rparr>)"
      using rr_visits.first [OF enq] by (simp add: start)
    show "rr_run 1 late_tasks = run_loop (rr_body 1) (sim_init late_tasks, \<lparr>q_cells = [0..<11], q_f = 0\<rparr>)"
      using enq by (simp add: rr_run_def start Let_def)
    show "late_served 0 (sim_init late_tasks, \<lparr>q_cells = [0..<11], q_f = 0\<rparr>)"
      using late_tasks_nth by (auto simp: late_served_def sim_init_def new_task_def)
  qed
qed

lemma late_visits: "n \<le> 11 \<Longrightarrow> \<exists>s Q. rr_visits 1 late_tasks (s, Q) \<and> late_served n (s, Q)"
proof (induction n)
  case 0
  then show ?case using late_start by blast
next
  case (Suc n)
  then obtain s Q where "rr_visits 1 late_tasks (s, Q)" "late_served n (s, Q)" by auto
  then show ?case using late_round [of n s Q] Suc.prems rr_visits.next_round by (metis Suc_le_lessD surj_pair)
qed

lemma late_returns: "late_served n (s, Q) \<Longrightarrow> n \<le> 11 \<Longrightarrow> \<exists>t. run_loop (rr_body 1) (s, Q) = Inr t"
proof (induction "11 - n" arbitrary: n s Q)
  case 0
  then have n: "n = 11" by simp
  have "dadd (late_clock 10) CS_OVERHEAD \<le> late_clock (Suc 10)"
    unfolding late_clock.simps(2) using dadd_ge [of "dadd (late_clock 10) CS_OVERHEAD" 1] by simp
  then have clock: "11 \<le> dadd (late_clock 11) EPS"
    using order_trans [OF late_tenth(2) dadd_mono, of "late_clock (Suc 10)"] by simp
  have st: "now s = late_clock 11" "length (procs s) = 12" "arrival (procs s ! 11) = 11"
    "\<forall>j < 11. is_done (procs s ! j)" "q_empty Q"
    using 0(2) unfolding n late_served_def prod.case by (simp_all add: new_task_def q_empty_def)
  have "is_done p \<or> of_int (arrival p) \<le> dadd (now s) EPS" if p: "p \<in> set (procs s)" for p
  proof -
    obtain j where "j < 12" "p = procs s ! j" using p st(2) unfolding in_set_conv_nth by metis
    then show ?thesis using st(3,4) clock unfolding st(1) by (cases "j = 11") simp_all
  qed
  then have "next_arrival_after (now s) (procs s) = None" unfolding next_arrival_None by blast
  then show ?case using st(5) by (subst run_loop_unfold) (simp add: rr_body_def)
next
  case (Suc m)
  then obtain s' Q' where "rr_body 1 (s, Q) = Inr (Inr (s', Q'))" "late_served (Suc n) (s', Q')"
    using late_round [of n s Q] by (metis surj_pair zero_less_Suc zero_less_diff)
  then show ?case using Suc.hyps(1) [of "Suc n" s' Q'] Suc.hyps(2) by (subst run_loop_unfold) simp
qed

end
