(* ===== verification/Sched_SRTF.thy ===== *)
theory Sched_SRTF
  imports Sched_NP
begin

section \<open>Shortest remaining time first\<close>

text \<open>
  The preemptive loop ends because every round finishes a process or passes an arrival.  That a
  process is finished when its remaining time has run depends on rounding: the clock must stay small
  enough for three roundings to be below the tolerance \<^const>\<open>EPS\<close>.  The potential \<open>srtf_bound\<close>
  bounds the clock from the input.
\<close>

definition CLOCK_LIMIT :: rat where "CLOCK_LIMIT = 2 ^ 22"

lemma round_error:
  assumes "\<bar>x\<bar> < CLOCK_LIMIT"
  shows "\<bar>dround x - x\<bar> \<le> EPS / 4"
proof -
  have "\<bar>x\<bar> < 2 powi 22" using assms by (simp add: CLOCK_LIMIT_def)
  then have "\<bar>dround x - x\<bar> \<le> 2 powi (22 - 54)" by (rule dround_error)
  also have "\<dots> = 2 powi (- 30) / 4" by (simp add: power_int_minus)
  also have "\<dots> \<le> EPS / 4" using EPS_bounds(1) by simp
  finally show ?thesis .
qed

lemma EPS_small: "EPS < 1 / 8"
  using EPS_bounds(2) powi2_mono [of "- 29" "- 4"] by (simp add: power_int_minus)

lemma CS_small: "CS_OVERHEAD \<le> 1 / 8"
proof -
  have "is_double (1 / 8)" unfolding is_double_def
    by (rule exI [of _ 1], rule exI [of _ "- 3"]) (simp add: power_int_minus)
  then show ?thesis unfolding CS_OVERHEAD_def by (rule dbl.rnd_le) simp
qed

text \<open>The processes that have not arrived yet, and the rounds left.\<close>

definition pending :: "double \<Rightarrow> Proc list \<Rightarrow> nat set" where
  "pending t ps = {i. i < length ps \<and> \<not> is_done (ps ! i) \<and> dadd t EPS < of_int (arrival (ps ! i))}"

definition rounds :: "sim \<Rightarrow> nat" where
  "rounds s = undone (procs s) + card (pending (now s) (procs s))"

definition work :: "Proc list \<Rightarrow> rat" where
  "work ps = sum_list (map remain ps)"

definition srtf_bound :: "rat \<Rightarrow> sim \<Rightarrow> rat" where
  "srtf_bound a s = max (now s) a + work (procs s) + of_nat (rounds s)"

definition srtf_proc :: "Proc \<Rightarrow> Proc \<Rightarrow> double \<Rightarrow> bool" where
  "srtf_proc p0 p t \<longleftrightarrow>
     pid p = pid p0 \<and> arrival p = arrival p0 \<and> burst p = burst p0 \<and> 0 \<le> remain p \<and>
     (is_done p \<longrightarrow> remain p = 0 \<and> finish p \<le> t)"

definition srtf_inv :: "Proc list \<Rightarrow> rat \<Rightarrow> sim \<Rightarrow> bool" where
  "srtf_inv ps0 a s \<longleftrightarrow>
     tiled 0 (segs s) (now s) \<and> is_double (now s) \<and> length (procs s) = length ps0 \<and>
     (\<forall>i < length ps0. srtf_proc (ps0 ! i) (procs s ! i) (now s)) \<and> srtf_bound a s < CLOCK_LIMIT"

definition tasks_within :: "rat \<Rightarrow> Proc list \<Rightarrow> bool" where
  "tasks_within a ps \<longleftrightarrow> 0 \<le> a \<and> (\<forall>p \<in> set ps. is_int32 (arrival p) \<and> of_int (arrival p) \<le> a)"

lemma sum_list_replace:
  "k < length xs \<Longrightarrow> sum_list (xs[k := x]) = sum_list xs - xs ! k + (x :: rat)"
  by (induction xs arbitrary: k) (auto split: nat.split)

lemma work_update:
  "k < length ps \<Longrightarrow> work (ps[k := p]) = work ps - remain (ps ! k) + remain p"
  by (simp add: work_def map_update sum_list_replace)

lemma work_ge:
  assumes "\<forall>p \<in> set ps. 0 \<le> remain p" and "k < length ps"
  shows "remain (ps ! k) \<le> work ps" and "0 \<le> work ps"
proof -
  show "0 \<le> work ps" unfolding work_def using assms(1) by (intro sum_list_nonneg) auto
  show "remain (ps ! k) \<le> work ps" unfolding work_def
    using assms nth_mem by (intro member_le_sum_list) auto
qed

lemma finite_pending [simp]: "finite (pending t ps)"
  by (simp add: pending_def)

lemma pending_later: "t \<le> t' \<Longrightarrow> pending t' ps \<subseteq> pending t ps"
  using dadd_mono [of t t' EPS] by (auto simp: pending_def)

lemma card_pending_later: "t \<le> t' \<Longrightarrow> card (pending t' ps) \<le> card (pending t ps)"
  by (rule card_mono) (simp_all add: pending_later)

lemma srtf_proc_mono: "srtf_proc p0 p t \<Longrightarrow> t \<le> t' \<Longrightarrow> srtf_proc p0 p t'"
  by (auto simp: srtf_proc_def)

subsection \<open>One round\<close>

definition same_progress :: "Proc list \<Rightarrow> Proc list \<Rightarrow> bool" where
  "same_progress ps qs \<longleftrightarrow> length qs = length ps \<and>
     (\<forall>i. pid (qs ! i) = pid (ps ! i) \<and> arrival (qs ! i) = arrival (ps ! i) \<and> burst (qs ! i) = burst (ps ! i) \<and>
        remain (qs ! i) = remain (ps ! i) \<and> finish (qs ! i) = finish (ps ! i) \<and>
        is_done (qs ! i) = is_done (ps ! i))"

lemma note_start_progress: "same_progress (procs s) (procs (note_start k s))"
proof (cases "k < length (procs s)")
  case True
  have "same_progress ps (ps[k := (ps ! k)\<lparr>first_start := t, started := True\<rparr>])" if "k < length ps" for ps t
    unfolding same_progress_def
  proof (intro conjI allI)
    fix i
    show "pid (ps[k := (ps ! k)\<lparr>first_start := t, started := True\<rparr>] ! i) = pid (ps ! i)"
      "arrival (ps[k := (ps ! k)\<lparr>first_start := t, started := True\<rparr>] ! i) = arrival (ps ! i)"
      "burst (ps[k := (ps ! k)\<lparr>first_start := t, started := True\<rparr>] ! i) = burst (ps ! i)"
      "remain (ps[k := (ps ! k)\<lparr>first_start := t, started := True\<rparr>] ! i) = remain (ps ! i)"
      "finish (ps[k := (ps ! k)\<lparr>first_start := t, started := True\<rparr>] ! i) = finish (ps ! i)"
      "is_done (ps[k := (ps ! k)\<lparr>first_start := t, started := True\<rparr>] ! i) = is_done (ps ! i)"
      using that by (cases "i = k"; simp)+
  qed simp
  then show ?thesis using True by (simp add: note_start_def) (simp add: same_progress_def)
qed (simp add: note_start_def same_progress_def list_update_beyond)

lemma srtf_switch_progress: "same_progress (procs s) (procs (srtf_switch k s))"
  using note_start_progress [of "context_switch k s" k]
  by (simp add: srtf_switch_def) (simp add: same_progress_def)

lemma srtf_switch_time:
  assumes "tiled 0 (segs s) (now s)" and "is_double (now s)" and "now s + 1 < CLOCK_LIMIT"
  shows "tiled 0 (segs (srtf_switch k s)) (now (srtf_switch k s))" "is_double (now (srtf_switch k s))"
    and "now s \<le> now (srtf_switch k s)" "now (srtf_switch k s) \<le> now s + 1 / 4"
proof -
  show "tiled 0 (segs (srtf_switch k s)) (now (srtf_switch k s))" "is_double (now (srtf_switch k s))"
    "now s \<le> now (srtf_switch k s)"
    using context_switch_tiled [OF assms(1,2)] context_switch_double [OF assms(2)]
      context_switch_time [OF assms(2)] assms(1,2) by (simp_all add: srtf_switch_def)
  have "\<bar>now s + CS_OVERHEAD\<bar> < CLOCK_LIMIT"
    using tiled_le [OF assms(1)] assms(3) CS_small CS_nonneg by linarith
  then have "dadd (now s) CS_OVERHEAD \<le> now s + 1 / 4"
    using round_error [of "now s + CS_OVERHEAD"] CS_small EPS_small unfolding dadd_def by linarith
  then show "now (srtf_switch k s) \<le> now s + 1 / 4"
    by (simp add: srtf_switch_def context_switch_def)
qed

text \<open>The arithmetic of running process \<open>k\<close> until the next event.\<close>

lemma srtf_event:
  assumes dbl: "is_double (now s)" and pos: "0 \<le> now s" "0 \<le> remain (procs s ! k)"
    and lim: "now s + remain (procs s ! k) + 1 / 2 < CLOCK_LIMIT"
    and arr: "\<forall>p \<in> set (procs s). is_int32 (arrival p)"
  defines "e \<equiv> srtf_next_event k s" and "r \<equiv> remain (procs s ! k)"
  defines "left \<equiv> dsub r (dsub e (now s))"
  shows "now s \<le> e" "is_double e" "e \<le> now s + r + 1 / 4" "left \<le> r + 1 / 4"
    and "left \<le> EPS \<or> (\<exists>nx. next_arrival_after (now s) (procs s) = Some nx \<and>
           e = of_int (arrival (procs s ! nx)))"
proof -
  define t where "t = dadd (now s) r"
  have err: "\<bar>t - (now s + r)\<bar> \<le> EPS / 4"
    using round_error [of "now s + r"] pos lim EPS_small unfolding t_def dadd_def r_def by simp
  have t: "now s \<le> t" "is_double t" using dadd_ge [OF dbl] pos(2) by (simp_all add: t_def r_def)
  have e: "e = t \<or> (\<exists>nx. next_arrival_after (now s) (procs s) = Some nx \<and>
      e = of_int (arrival (procs s ! nx)) \<and> e \<le> t)"
    by (auto simp: e_def srtf_next_event_def Let_def t_def r_def min_def split: option.splits)
  have ahead: "now s \<le> of_int (arrival (procs s ! nx))" "is_double (of_int (arrival (procs s ! nx)))"
    if "next_arrival_after (now s) (procs s) = Some nx" for nx
    using next_arrival_Some [OF that] after_EPS [OF dbl] arr is_double_int32 by force+
  show le: "now s \<le> e" and "is_double e" using e t ahead by auto
  have "e \<le> t" using e by auto
  then show up: "e \<le> now s + r + 1 / 4" using err EPS_small by linarith
  define ran where "ran = dsub e (now s)"
  have e_ran: "\<bar>ran - (e - now s)\<bar> \<le> EPS / 4"
    unfolding ran_def dsub_def by (rule round_error) (use le up lim pos EPS_small in \<open>simp add: r_def\<close>)
  have "\<bar>r - ran\<bar> < CLOCK_LIMIT"
    using e_ran le up lim pos EPS_small unfolding r_def by linarith
  then have e_left: "\<bar>left - (r - ran)\<bar> \<le> EPS / 4"
    unfolding left_def ran_def [symmetric] dsub_def [of r] by (rule round_error)
  show "left \<le> r + 1 / 4" using e_left e_ran le EPS_small by linarith
  have "left \<le> EPS" if "e = t" using e_left e_ran err EPS_bounds(3) that by linarith
  then show "left \<le> EPS \<or> (\<exists>nx. next_arrival_after (now s) (procs s) = Some nx \<and>
      e = of_int (arrival (procs s ! nx)))" using e by auto
qed

lemma srtf_inv_facts:
  assumes "srtf_inv ps0 a s"
  shows "tiled 0 (segs s) (now s)" "is_double (now s)" "length (procs s) = length ps0" "0 \<le> now s"
    "srtf_bound a s < CLOCK_LIMIT" "\<forall>p \<in> set (procs s). 0 \<le> remain p"
    and "\<And>i. i < length ps0 \<Longrightarrow> srtf_proc (ps0 ! i) (procs s ! i) (now s)"
  using assms tiled_le by (auto simp: srtf_inv_def srtf_proc_def in_set_conv_nth)

lemma srtf_inv_arrivals:
  assumes "srtf_inv ps0 a s" and "tasks_within a ps0" and "i < length (procs s)"
  shows "is_int32 (arrival (procs s ! i))" "of_int (arrival (procs s ! i)) \<le> a"
  using srtf_inv_facts(3,7) [OF assms(1)] assms(2,3) by (auto simp: tasks_within_def srtf_proc_def)

lemma srtf_idle:
  assumes inv: "srtf_inv ps0 a s" and arr: "tasks_within a ps0"
    and nx: "next_arrival_after (now s) (procs s) = Some nx"
  shows "srtf_inv ps0 a (idle_until nx s)" and "rounds (idle_until nx s) \<le> rounds s"
    and "any_ready (now (idle_until nx s)) (procs (idle_until nx s))"
proof -
  note I = srtf_inv_facts [OF inv]
  have nx': "nx < length (procs s)" "\<not> is_done (procs s ! nx)"
    "dadd (now s) EPS < of_int (arrival (procs s ! nx))" using next_arrival_Some [OF nx] by auto
  let ?t = "of_int (arrival (procs s ! nx)) :: rat"
  have dbl: "is_double ?t" and le: "?t \<le> a"
    using srtf_inv_arrivals [OF inv arr nx'(1)] by (simp_all add: is_double_int32)
  have later: "now s \<le> ?t" using nx'(3) after_EPS [OF I(2)] by linarith
  have s': "now (idle_until nx s) = ?t" "procs (idle_until nx s) = procs s"
    "segs (idle_until nx s) = add_seg (now s) ?t PID_IDLE (segs s)" by (simp_all add: idle_until_def)
  show rnd: "rounds (idle_until nx s) \<le> rounds s"
    using card_pending_later [OF later] by (simp add: rounds_def s')
  have "srtf_bound a (idle_until nx s) \<le> srtf_bound a s"
    using le rnd by (simp add: srtf_bound_def s' max_def)
  then show "srtf_inv ps0 a (idle_until nx s)"
    using I add_seg_tiled [OF I(1) later] dbl srtf_proc_mono [OF _ later] by (simp add: srtf_inv_def s')
  have "ready ?t (procs s ! nx)" using nx'(2) after_EPS [OF dbl] by (simp add: ready_def)
  then show "any_ready (now (idle_until nx s)) (procs (idle_until nx s))"
    using nx'(1) nth_mem by (auto simp: any_ready_iff s')
qed

text \<open>The rounds left after process \<open>k\<close> has run until the next event \<open>e\<close>.\<close>

lemma rounds_done:
  assumes "k < length ps" and "\<not> is_done (ps ! k)" and "is_done p" and "t \<le> e"
  shows "undone (ps[k := p]) + card (pending e (ps[k := p])) < undone ps + card (pending t ps)"
proof -
  have "pending e (ps[k := p]) \<subseteq> pending e ps" using assms(1,3) by (auto simp: pending_def nth_list_update)
  then have "card (pending e (ps[k := p])) \<le> card (pending t ps)"
    using pending_later [OF assms(4)] by (intro card_mono) auto
  then show ?thesis using undone_update [OF assms(1-3)] by simp
qed

lemma rounds_arrival:
  assumes k: "k < length ps" "\<not> is_done (ps ! k)" "\<not> is_done p" "arrival p = arrival (ps ! k)" and "t \<le> e"
    and nx: "nx < length ps" "\<not> is_done (ps ! nx)" "dadd t EPS < of_int (arrival (ps ! nx))"
      "e = of_int (arrival (ps ! nx))" "is_double e"
  shows "undone (ps[k := p]) + card (pending e (ps[k := p])) < undone ps + card (pending t ps)"
proof -
  have same: "is_done (ps[k := p] ! i) = is_done (ps ! i) \<and> arrival (ps[k := p] ! i) = arrival (ps ! i)" for i
    using k by (cases "i = k") auto
  have eq: "undone (ps[k := p]) = undone ps" "pending e (ps[k := p]) = pending e ps"
    by (simp_all only: undone_def pending_def length_list_update same)
  have "nx \<in> pending t ps" using nx by (simp add: pending_def)
  moreover have "nx \<notin> pending e ps" using nx(4) after_EPS [OF nx(5)] by (simp add: pending_def)
  moreover have "pending e ps \<subseteq> pending t ps" using pending_later [OF assms(5)] .
  ultimately have "card (pending e ps) < card (pending t ps)" by (intro psubset_card_mono) auto
  then show ?thesis using eq by simp
qed

lemma srtf_round:
  assumes inv: "srtf_inv ps0 a s" and arr: "tasks_within a ps0"
    and k: "k < length (procs s)" "\<not> is_done (procs s ! k)"
  defines "s' \<equiv> srtf_run k (srtf_switch k s)"
  shows "srtf_inv ps0 a s'" and "rounds s' < rounds s"
proof -
  note I = srtf_inv_facts [OF inv]
  define s1 where "s1 = srtf_switch k s"
  have prog: "same_progress (procs s) (procs s1)" unfolding s1_def by (rule srtf_switch_progress)
  have len: "length (procs s1) = length (procs s)" "length (procs s1) = length ps0"
    using prog I(3) by (simp_all add: same_progress_def)
  have k1: "k < length (procs s1)" "\<not> is_done (procs s1 ! k)" using k prog by (simp_all add: same_progress_def)
  have "0 < undone (procs s)" using k by (auto simp: undone_def card_gt_0_iff)
  then have one: "1 \<le> (of_nat (rounds s) :: rat)" by (simp add: rounds_def)
  define r where "r = remain (procs s1 ! k)"
  have r: "r = remain (procs s ! k)" "0 \<le> r" "r \<le> work (procs s)"
    using prog I(6) k(1) work_ge [OF I(6) k(1)] by (simp_all add: r_def same_progress_def)
  have lim: "now s + r + 1 < CLOCK_LIMIT"
    using I(5) r(3) one unfolding srtf_bound_def by linarith
  have "now s + 1 < CLOCK_LIMIT" using lim r(2) by linarith
  note sw = srtf_switch_time [OF I(1,2) this, of k, folded s1_def]
  have pos1: "0 \<le> now s1" using sw(3) I(4) by simp
  have arr1: "is_int32 (arrival (procs s1 ! i))" "of_int (arrival (procs s1 ! i)) \<le> a"
    if "i < length (procs s1)" for i
    using srtf_inv_arrivals [OF inv arr] that len prog by (simp_all add: same_progress_def)
  define e left p where "e = srtf_next_event k s1" and "left = dsub r (dsub e (now s1))"
    and "p = procs s1 ! k"
  have "now s1 + r + 1 / 2 < CLOCK_LIMIT" using lim sw(4) by linarith
  moreover have "\<forall>q \<in> set (procs s1). is_int32 (arrival q)" using arr1(1) by (auto simp: in_set_conv_nth)
  ultimately have ev: "now s1 \<le> e" "is_double e" "e \<le> now s1 + r + 1 / 4" "left \<le> r + 1 / 4"
    "left \<le> EPS \<or> (\<exists>nx. next_arrival_after (now s1) (procs s1) = Some nx \<and> e = of_int (arrival (procs s1 ! nx)))"
    using srtf_event [OF sw(2) pos1, of k] r(2) unfolding e_def left_def r_def by auto
  define p' where "p' = (if left \<le> EPS then p\<lparr>remain := 0, is_done := True, finish := e\<rparr> else p\<lparr>remain := left\<rparr>)"
  have s': "procs s' = (procs s1)[k := p']" "now s' = e" "segs s' = add_seg (now s1) e (pid p) (segs s1)"
    by (simp_all add: s'_def s1_def [symmetric] srtf_run_def Let_def e_def left_def p_def p'_def r_def)
  have later: "now s \<le> e" using sw(3) ev(1) by simp
  have rem': "remain p' = (if left \<le> EPS then 0 else left)" "0 \<le> remain p'"
    using EPS_bounds(3) by (auto simp: p'_def)
  have work: "work (procs s') = work (procs s) - r + remain p'"
  proof -
    have "map remain (procs s1) = map remain (procs s)"
      using prog by (intro nth_equalityI) (auto simp: same_progress_def)
    then have "work (procs s1) = work (procs s)" by (simp add: work_def)
    then show ?thesis unfolding s' by (simp add: work_update [OF k1(1)] r_def)
  qed
  have "rounds s' < undone (procs s1) + card (pending (now s1) (procs s1))"
  proof (cases "left \<le> EPS")
    case True
    then show ?thesis using rounds_done [OF k1 _ ev(1), of p'] by (simp add: rounds_def s' p'_def)
  next
    case False
    then obtain nx where nx: "next_arrival_after (now s1) (procs s1) = Some nx" "e = of_int (arrival (procs s1 ! nx))"
      using ev(5) by blast
    then show ?thesis
      using rounds_arrival [OF k1, of p' "now s1" e nx] next_arrival_Some [OF nx(1)] ev(1,2) k1(2) False
      by (simp add: rounds_def s' p'_def p_def)
  qed
  also have "undone (procs s1) + card (pending (now s1) (procs s1)) \<le> rounds s"
  proof -
    have "undone (procs s1) = undone (procs s)" "pending t (procs s1) = pending t (procs s)" for t
      using prog by (simp_all add: same_progress_def undone_def pending_def)
    then show ?thesis using card_pending_later [OF sw(3), of "procs s"] by (simp add: rounds_def)
  qed
  finally show less: "rounds s' < rounds s" .
  then have fewer: "of_nat (rounds s') + 1 \<le> (of_nat (rounds s) :: rat)"
    by (metis Suc_leI add.commute of_nat_Suc of_nat_le_iff)
  have "max e a + work (procs s') \<le> max (now s) a + work (procs s) + 1"
  proof (cases "left \<le> EPS")
    case True
    then have "e + work (procs s') \<le> now s + work (procs s) + 1"
      using work rem'(1) ev(3) sw(4) by simp
    moreover have "work (procs s') \<le> work (procs s)" using True work rem'(1) r(2) by simp
    ultimately show ?thesis by (simp add: max_def)
  next
    case False
    then have "e \<le> a" using ev(5) arr1(2) next_arrival_Some by blast
    moreover have "work (procs s') \<le> work (procs s) + 1" using False work rem'(1) ev(4) by simp
    ultimately show ?thesis by (simp add: max_def)
  qed
  then have bound: "srtf_bound a s' < CLOCK_LIMIT"
    using I(5) fewer unfolding srtf_bound_def s'(2) by linarith
  have "srtf_proc (ps0 ! i) (procs s' ! i) e" if "i < length ps0" for i
  proof (cases "i = k")
    case True
    then show ?thesis
      using I(7) [OF that] prog k1 rem' unfolding s'(1)
      by (auto simp: srtf_proc_def same_progress_def p'_def p_def)
  next
    case False
    then show ?thesis
      using srtf_proc_mono [OF I(7) [OF that] later] prog unfolding s'(1)
      by (simp add: srtf_proc_def same_progress_def)
  qed
  then show "srtf_inv ps0 a s'"
    using bound ev(2) add_seg_tiled [OF sw(1) ev(1)] len(2) by (simp add: srtf_inv_def s')
qed

subsection \<open>The loop\<close>

lemma srtf_dispatch_step:
  assumes inv: "srtf_inv ps0 a s" and arr: "tasks_within a ps0" and rdy: "any_ready (now s) (procs s)"
  shows "\<exists>s'. srtf_dispatch s = Inr (Inr s') \<and> srtf_inv ps0 a s' \<and> rounds s' < rounds s"
proof -
  obtain k where k: "pick_SRTF (now s) (procs s) = Some k" using SRTF.pick_some [OF rdy] by blast
  then have "k < length (procs s)" "\<not> is_done (procs s ! k)"
    using SRTF.pick_ready [OF k] by (auto simp: ready_def)
  then show ?thesis using srtf_round [OF inv arr] k by (simp add: srtf_dispatch_def)
qed

lemma srtf_loop:
  assumes init: "srtf_inv ps0 a s" and arr: "tasks_within a ps0"
  obtains t where "run_loop srtf_body s = Inr t" and "srtf_inv ps0 a t" and "all_done (procs t)"
proof -
  have step: "(\<exists>t. srtf_body s = Inr (Inl t) \<and> srtf_inv ps0 a t \<and> all_done (procs t)) \<or>
      (\<exists>s'. srtf_body s = Inr (Inr s') \<and> srtf_inv ps0 a s' \<and> rounds s' < rounds s)"
    if inv: "srtf_inv ps0 a s" for s
  proof (cases "all_done (procs s) \<or> any_ready (now s) (procs s)")
    case True
    then show ?thesis using inv srtf_dispatch_step [OF inv arr] by (auto simp: srtf_body_def)
  next
    case False
    then obtain nx where nx: "next_arrival_after (now s) (procs s) = Some nx"
      using next_arrival_exists by blast
    note idle = srtf_idle [OF inv arr nx]
    show ?thesis using False nx srtf_dispatch_step [OF idle(1) arr idle(3)] idle(2)
      by (auto simp: srtf_body_def)
  qed
  show ?thesis
    by (rule run_loop_returns [where I = "srtf_inv ps0 a" and body = srtf_body and s = s
          and Q = "\<lambda>t. srtf_inv ps0 a t \<and> all_done (procs t)" and m = rounds])
      (use init step that in auto)
qed

end
