(* ===== verification/Sched_Properties.thy ===== *)
theory Sched_Properties
  imports Sched_FCFS Sched_Late Sched_SRTF "HOL-Library.Multiset"
begin

section \<open>Properties of the CPU scheduling simulator\<close>

text \<open>
  The statements about the selection rules, the four simulations and \<open>main\<close>, and the inputs on
  which round robin goes wrong.
\<close>

lemma card_below: "card {i. i < n \<and> P i} \<le> (n :: nat)"
  using card_mono [of "{..<n}" "{i. i < n \<and> P i}"] by auto

lemma fresh_new_task:
  "fresh_task (new_task p a b) \<longleftrightarrow> 0 \<le> b \<and> is_int32 b \<and> is_int32 a"
  by (simp add: fresh_task_def new_task_def)

text \<open>
  C13. The selection rules pick what they promise, on a table sorted by arrival: FCFS the ready process
  that arrived first, SJF a ready process of shortest burst, SRTF a ready process of shortest
  remaining time, and among equals the first in the table; they pick nothing exactly when nothing is
  ready.
\<close>

theorem picks_best:
  assumes "sorted_table ps"
  shows "best_upto (ready t) (\<lambda>p b. arrival p < arrival b \<or> arrival p = arrival b \<and> pid p < pid b)
      ps (length ps) (pick_FCFS t ps) \<and>
    best_upto (ready t) (\<lambda>p b. burst p < burst b \<or> burst p = burst b \<and>
      (arrival p < arrival b \<or> arrival p = arrival b \<and> pid p < pid b)) ps (length ps) (pick_SJF t ps) \<and>
    best_upto (ready t) (\<lambda>p b. remain p < remain b) ps (length ps) (pick_SRTF t ps)"
  unfolding pick_FCFS_def pick_SJF_def pick_SRTF_sorted [OF assms]
  by (intro conjI by_fcfs.select_best by_sjf.select_best by_remain.select_best)

abbreviation three_tasks :: "Proc list" where
  "three_tasks \<equiv> [new_task 1 0 3, new_task 2 0 1, new_task 3 1 1]"

theorem picks_best_witness:
  "sorted_table three_tasks \<and>
   best_upto (ready 1) (\<lambda>p b. remain p < remain b) three_tasks 3 (pick_SRTF 1 three_tasks)"
proof -
  have "sorted_table three_tasks"
    unfolding sorted_table_def by (auto simp: less_Suc_eq cmp_arrival_def new_task_def)
  then show ?thesis using picks_best [of three_tasks 1] by (simp add: eval_nat_numeral)
qed

text \<open>
  C12. The non-preemptive simulations, FCFS and SJF, end for every table of tasks with bursts that are
  not negative.  Every process is served exactly once, without interruption, for its burst and not
  before it arrived (up to the tolerance 1e-9), and the chart tiles the time from 0 to the end: no gap,
  no overlap.
\<close>

theorem non_preemptive_service:
  assumes "\<forall>p \<in> set ps. fresh_task p" and "pick = pick_FCFS \<or> pick = pick_SJF"
  shows "\<exists>s. run_loop (np_body pick) (sim_init ps) = Inr s \<and> tiled 0 (segs s) (now s) \<and>
    length (procs s) = length ps \<and> (\<forall>i < length ps. served (ps ! i) (procs s ! i) (now s))"
proof -
  have fin: "tiled 0 (segs s) (now s) \<and> length (procs s) = length ps \<and>
      (\<forall>i < length ps. served (ps ! i) (procs s ! i) (now s))"
    if "np_inv ps s" "all_done (procs s)" for s
    using that by (auto simp: np_inv_def all_done_iff)
  from assms(2) show ?thesis
    using FCFS.np_loop [OF assms(1)] SJF.np_loop [OF assms(1)] fin by metis
qed

lemma three_tasks_fresh: "\<forall>p \<in> set three_tasks. fresh_task p"
  by (simp add: fresh_new_task is_int32_def int_min_def int_max_def)

theorem non_preemptive_service_witness:
  "\<exists>s. run_loop (np_body pick_SJF) (sim_init three_tasks) = Inr s \<and> tiled 0 (segs s) (now s) \<and>
     (\<forall>i < 3. served (three_tasks ! i) (procs s ! i) (now s))"
  using non_preemptive_service [of three_tasks pick_SJF] three_tasks_fresh by (auto simp: eval_nat_numeral)

text \<open>
  C8. FCFS, which searches the table for every decision, computes on a sorted table exactly the start
  and finish times of a single pass over it.
\<close>

theorem fcfs_single_pass:
  assumes "sorted_table ps" and "\<forall>p \<in> set ps. fresh_task p"
  shows "\<exists>s. run_loop (np_body pick_FCFS) (sim_init ps) = Inr s \<and>
    procs s = map2 serve_at ps (fcfs_times 0 PID_IDLE ps)"
  using fcfs_loop [of "sim_init ps" "[]" ps] assms by (simp add: sim_init_def)

theorem fcfs_single_pass_witness:
  "\<exists>s. run_loop (np_body pick_FCFS) (sim_init three_tasks) = Inr s \<and>
     procs s = map2 serve_at three_tasks (fcfs_times 0 PID_IDLE three_tasks)"
proof (rule fcfs_single_pass [OF _ three_tasks_fresh])
  show "sorted_table three_tasks"
    unfolding sorted_table_def by (auto simp: less_Suc_eq cmp_arrival_def new_task_def)
qed

text \<open>
  C6. The preemptive SRTF simulation ends with every process done, provided the latest arrival, the
  total burst and twice the number of tasks stay below \<open>2 ^ 22\<close> milliseconds together; up to there the
  rounding of the clock cannot keep a finished process from being recognised as finished.  The chart
  tiles the time line.
\<close>

theorem srtf_terminates:
  assumes "\<forall>p \<in> set ps. fresh_task p" and "\<forall>p \<in> set ps. arrival p \<le> a" and "0 \<le> a"
    and "of_int a + of_int (sum_list (map burst ps)) + 2 * of_nat (length ps) < CLOCK_LIMIT"
  shows "\<exists>s. run_loop srtf_body (sim_init ps) = Inr s \<and> all_done (procs s) \<and>
    tiled 0 (segs s) (now s) \<and> (\<forall>i < length ps. srtf_proc (ps ! i) (procs s ! i) (now s))"
proof -
  have within: "tasks_within (of_int a) ps" using assms(1-3) by (auto simp: tasks_within_def fresh_task_def)
  have "undone ps \<le> length ps" "card (pending 0 ps) \<le> length ps"
    unfolding undone_def pending_def by (rule card_below)+
  then have "of_nat (rounds (sim_init ps)) \<le> (2 * of_nat (length ps) :: rat)"
    by (simp add: rounds_def sim_init_def flip: of_nat_add)
  moreover have "work ps = of_int (sum_list (map burst ps))"
    using assms(1) unfolding work_def by (induction ps) (auto simp: fresh_task_def)
  ultimately have "srtf_bound (of_int a) (sim_init ps) < CLOCK_LIMIT"
    using assms(3,4) by (simp add: srtf_bound_def sim_init_def)
  then have "srtf_inv ps (of_int a) (sim_init ps)"
    using assms(1) by (auto simp: srtf_inv_def sim_init_def srtf_proc_def fresh_task_def)
  from srtf_loop [OF this within] show ?thesis unfolding srtf_inv_def by metis
qed

theorem srtf_terminates_witness:
  "\<exists>s. run_loop srtf_body (sim_init three_tasks) = Inr s \<and> all_done (procs s)"
  using srtf_terminates [OF three_tasks_fresh, of 1] by (auto simp: new_task_def CLOCK_LIMIT_def)

text \<open>
  C15. Round robin never runs for ever: it ends with a result whose chart tiles the time line and whose
  finished processes have no time left, or with an access beyond the queue.
\<close>

theorem rr_ends:
  assumes "\<forall>p \<in> set ps. fresh_task p" and "length ps \<le> MAX_TASKS" and "0 < tq"
  shows "case rr_run tq ps of
      Inl e \<Rightarrow> e = Out_Of_Bounds
    | Inr s \<Rightarrow> tiled 0 (segs s) (now s) \<and> length (procs s) = length ps \<and>
        (\<forall>i < length ps. rr_proc (ps ! i) (procs s ! i) (now s))"
  using rr_run_ok [OF assms] by (auto simp: rr_inv_def split: sum.splits)

theorem rr_ends_witness:
  "case rr_run 1 three_tasks of
      Inl e \<Rightarrow> e = Out_Of_Bounds
    | Inr s \<Rightarrow> tiled 0 (segs s) (now s) \<and> length (procs s) = length three_tasks \<and>
        (\<forall>i < length three_tasks. rr_proc (three_tasks ! i) (procs s ! i) (now s))"
  by (rule rr_ends [OF three_tasks_fresh]) (simp_all add: MAX_TASKS_def)

text \<open>
  C31. When every task has arrived at the start, round robin serves all of them: whenever it returns, all
  processes are done.
\<close>

theorem rr_completes:
  assumes "\<forall>p \<in> set ps. fresh_task p \<and> arrival p \<le> 0" and "length ps \<le> MAX_TASKS" and "0 < tq"
  shows "case rr_run tq ps of Inl e \<Rightarrow> e = Out_Of_Bounds | Inr s \<Rightarrow> all_done (procs s)"
proof -
  have "\<forall>p \<in> set ps. fresh_task p" using assms(1) by blast
  from rr_run_ok [OF this assms(2,3)] show ?thesis using assms(1) by (auto split: sum.splits)
qed

theorem rr_completes_witness:
  "case rr_run 2 [new_task 1 0 3, new_task 2 0 1] of
     Inl e \<Rightarrow> e = Out_Of_Bounds | Inr s \<Rightarrow> all_done (procs s)"
  by (rule rr_completes)
    (simp_all add: fresh_new_task is_int32_def int_min_def int_max_def MAX_TASKS_def, simp_all add: new_task_def)

text \<open>
  C38. Round robin loses a process that arrives during a context switch.  Suppose that in some state of a
  run the process \<open>k\<close> at the front of the queue is about to be switched to, and that process \<open>i\<close> arrives
  after the current time and not after the end of the switch, as the last one.  Then \<open>i\<close> is never
  run: in every state of the run, up to its result or up to an access beyond the queue, its entry is
  still the one read from the input, not started and with its whole burst remaining.
\<close>

theorem rr_loses_arrival:
  assumes "\<forall>p \<in> set ps. fresh_task p" and "length ps \<le> MAX_TASKS" and "0 < tq" and "rr_visits tq ps (s, Q)"
    and "q_f Q < length (q_cells Q)" and "q_cells Q ! q_f Q = k" and "\<not> is_done (procs s ! k)"
    and "cur s \<noteq> pid (procs s ! k)" and "cur s \<noteq> PID_IDLE" and "i < length ps"
    and "dadd (now s) EPS < of_int (arrival (ps ! i))"
    and "of_int (arrival (ps ! i)) \<le> dadd (dadd (now s) CS_OVERHEAD) EPS"
    and "\<forall>p \<in> set ps. arrival p \<le> arrival (ps ! i)"
  shows "(\<forall>s' Q'. rr_visits tq ps (s', Q') \<longrightarrow> procs s' ! i = ps ! i) \<and>
    (case rr_run tq ps of Inl e \<Rightarrow> e = Out_Of_Bounds | Inr t \<Rightarrow> procs t ! i = ps ! i)"
proof -
  have lost: "rr_lost ps i sq" if "rr_body tq (s, Q) = Inr (Inr sq)" for sq
    by (rule rr_switch_loses [OF assms that])
  have all: "procs s' ! i = ps ! i" if v: "rr_visits tq ps (s', Q')" for s' Q'
  proof -
    consider (before) "((s', Q'), (s, Q)) \<in> (rr_steps tq)\<^sup>*"
      | (after) sq where "rr_body tq (s, Q) = Inr (Inr sq)" "(sq, (s', Q')) \<in> (rr_steps tq)\<^sup>*"
      using rr_visits_compare [OF v assms(4)] by (auto simp: rr_steps_def elim: converse_rtranclE)
    then show ?thesis
    proof cases
      case before
      then have "now s' \<le> now s" using rr_steps_later(1) [OF _ v assms(1-3)] by fastforce
      then have "dadd (now s') EPS < of_int (arrival (ps ! i))"
        using dadd_mono [of "now s'" "now s" EPS] assms(11) by linarith
      then show ?thesis using rr_visits_unarrived [OF v assms(1-3,10)] by blast
    next
      case after
      then show ?thesis
        using rr_steps_later(2) [OF after(2) rr_visits.next_round [OF assms(4) after(1)] assms(1-3)]
          lost [OF after(1)] by (simp add: rr_lost_def)
    qed
  qed
  then show ?thesis using rr_run_visits [OF assms(1-3), of "\<lambda>t. procs t ! i = ps ! i"] by blast
qed

theorem rr_loses_arrival_witness:
  "\<exists>t. rr_run 1 late_tasks = Inr t \<and> procs t ! 11 = new_task 12 11 1"
proof -
  obtain s Q where v: "rr_visits 1 late_tasks (s, Q)" and st: "late_served 10 (s, Q)" using late_visits [of 10] by auto
  have fresh: "\<forall>p \<in> set late_tasks. fresh_task p"
    by (auto simp: late_tasks_def fresh_new_task is_int32_def int_min_def int_max_def)
  have last: "\<forall>p \<in> set late_tasks. arrival p \<le> arrival (late_tasks ! 11)"
    unfolding late_tasks_nth by (auto simp: late_tasks_def new_task_def)
  have now: "q_f Q < length (q_cells Q)" "q_cells Q ! q_f Q = 10" "\<not> is_done (procs s ! 10)"
    "cur s \<noteq> pid (procs s ! 10)" "cur s \<noteq> PID_IDLE" "now s = late_clock 10"
    using st by (auto simp: late_served_def PID_IDLE_def)
  have "arrival (late_tasks ! 11) = 11" by (simp add: late_tasks_nth new_task_def)
  then have "case rr_run 1 late_tasks of Inl e \<Rightarrow> e = Out_Of_Bounds | Inr t \<Rightarrow> procs t ! 11 = late_tasks ! 11"
    using rr_loses_arrival [OF fresh _ _ v now(1-5), of 11] last late_tenth
    by (simp add: late_tasks_nth(3) MAX_TASKS_def now(6))
  moreover obtain t where "rr_run 1 late_tasks = Inr t" using late_start late_returns by (metis le0)
  ultimately show ?thesis by (simp add: late_tasks_nth)
qed

subsection \<open>\<open>main\<close>\<close>

lemma c_insert_set: "set (c_insert cmp x ys) = insert x (set ys)"
  by (induction ys) auto

lemma c_qsort_mset: "mset (c_qsort cmp xs) = mset xs"
proof -
  have "mset (c_insert cmp x ys) = add_mset x (mset ys)" for x ys by (induction ys) auto
  then show ?thesis by (induction xs) auto
qed

lemma cmp_arrival_order:
  "cmp_arrival x y \<le> 0 \<or> cmp_arrival y x \<le> 0"
  "cmp_arrival x y \<le> 0 \<Longrightarrow> cmp_arrival y z \<le> 0 \<Longrightarrow> cmp_arrival x z \<le> 0"
  by (auto simp: cmp_arrival_def split: if_splits)

lemma c_qsort_sorted: "sorted_table (c_qsort cmp_arrival ps)"
proof -
  let ?R = "\<lambda>x y. cmp_arrival x y \<le> 0"
  have "sorted_wrt ?R (c_insert cmp_arrival x ys)" if "sorted_wrt ?R ys" for x ys
    using that
  proof (induction ys)
    case (Cons y ys)
    then show ?case
      using cmp_arrival_order(1) [of x y] cmp_arrival_order(2) [of x y] by (auto simp: c_insert_set)
  qed simp
  then have "sorted_wrt ?R (c_qsort cmp_arrival ps)" by (induction ps) auto
  then show ?thesis by (simp add: sorted_table_def sorted_wrt_iff_nth_less)
qed

text \<open>The text of an input file: one line \<open>pid arrival burst\<close> for each task.\<close>

definition task_line :: "int \<times> int \<times> int \<Rightarrow> string" where
  "task_line t = show_d (fst t) @ '' '' @ show_d (fst (snd t)) @ '' '' @ show_d (snd (snd t)) @ [newline]"

definition task_int32 :: "int \<times> int \<times> int \<Rightarrow> bool" where
  "task_int32 t \<longleftrightarrow> is_int32 (fst t) \<and> is_int32 (fst (snd t)) \<and> is_int32 (snd (snd t))"

abbreviation task_of :: "int \<times> int \<times> int \<Rightarrow> Proc" where
  "task_of t \<equiv> new_task (fst t) (fst (snd t)) (snd (snd t))"

lemma scan_task_line:
  assumes "task_int32 t"
  shows "scan_task (task_line t @ r) = Some (task_of t, newline # r)"
proof -
  have space: "is_space CHR '' ''" "\<not> is_digit CHR '' ''" by (simp_all add: is_space_def is_digit_def)
  note scan = scan_d_show_d [of "fst t"] scan_d_show_d [of "fst (snd t)"] scan_d_show_d [of "snd (snd t)"]
  show ?thesis using assms space
    by (simp add: task_line_def scan_task_def task_int32_def scan scan_d_skip_space)
qed

lemma scan_task_newline: "scan_task (newline # s) = scan_task s"
  by (simp add: scan_task_def scan_d_skip_space)

lemma scan_task_Nil: "scan_task [] = None"
  by (simp add: scan_task_def scan_d_def scan_sign_def)

lemma read_tasks_lines:
  assumes "\<forall>t \<in> set ts. task_int32 t" and "length ps + length ts \<le> MAX_TASKS"
  shows "read_tasks ps (concat (map task_line ts)) = ps @ map task_of ts"
  using assms
proof (induction ts arbitrary: ps)
  case Nil
  then show ?case by (simp add: read_tasks.simps scan_task_Nil)
next
  case (Cons t ts)
  let ?rest = "concat (map task_line ts)"
  have scan: "scan_task (task_line t @ ?rest) = Some (task_of t, newline # ?rest)"
    using Cons.prems(1) by (intro scan_task_line) simp
  have skip: "read_tasks qs (newline # s) = read_tasks qs s" for qs s
    by (subst (1 2) read_tasks.simps) (simp add: scan_task_newline)
  show ?case
  proof (cases "ts = []")
    case True
    then show ?thesis
      using scan by (simp add: read_tasks.simps [of ps] read_tasks.simps [of _ "[]"] skip scan_task_Nil)
  next
    case False
    then have "\<not> MAX_TASKS \<le> length ps + 1" using Cons.prems(2) by (cases ts) auto
    then show ?thesis
      using scan Cons.IH [of "ps @ [task_of t]"] Cons.prems by (simp add: read_tasks.simps [of ps] skip)
  qed
qed

text \<open>
  C32. The program reads back every task list of at most \<open>MAX_TASKS\<close> tasks written one per line, hands
  the chosen simulation the same tasks sorted by arrival and pid, prints what it prints and exits 0.
\<close>

theorem sched_main_runs:
  assumes "files path = Inr (concat (map task_line ts))" and "ts \<noteq> []" and "length ts \<le> MAX_TASKS"
    and "\<forall>t \<in> set ts. task_int32 t" and "\<not> cmp_overflow (map task_of ts)"
  shows "\<exists>ps. mset ps = mset (map task_of ts) \<and> sorted_table ps \<and>
    sched_main [prog, path, ''FCFS''] files = stdout_exit (simulate_FCFS ps) \<and>
    sched_main [prog, path, ''SJF''] files = stdout_exit (simulate_SJF ps) \<and>
    sched_main [prog, path, ''SRTF''] files = stdout_exit (simulate_SRTF ps) \<and>
    (0 < atoi q \<longrightarrow> sched_main [prog, path, ''RR'', q] files = stdout_exit (simulate_RR (atoi q) ps))"
proof -
  have read: "read_tasks [] (concat (map task_line ts)) = map task_of ts"
    using read_tasks_lines [OF assms(4), of "[]"] assms(3) by simp
  show ?thesis
    using c_qsort_mset [of cmp_arrival "map task_of ts"] c_qsort_sorted [of "map task_of ts"] assms(1,2,5) read
    by (intro exI [of _ "c_qsort cmp_arrival (map task_of ts)"])
      (simp add: sched_main_def Let_def eval_nat_numeral)
qed

theorem sched_main_runs_witness:
  "\<exists>ps. mset ps = mset [new_task 2 1 1, new_task 1 0 3] \<and> sorted_table ps \<and>
    sched_main [''sched'', ''in'', ''FCFS''] (\<lambda>_. Inr (task_line (2, 1, 1) @ task_line (1, 0, 3))) =
      stdout_exit (simulate_FCFS ps)"
  using sched_main_runs [of "\<lambda>_. Inr (task_line (2, 1, 1) @ task_line (1, 0, 3))" "''in''"
      "[(2, 1, 1), (1, 0, 3)]" "''sched''" "''1''"]
  by (simp add: MAX_TASKS_def task_int32_def is_int32_def int_min_def int_max_def cmp_overflow_def
      cmp_arrival_def new_task_def) blast

text \<open>
  Every misuse ends with exit status 1, nothing on standard output and a message: too few
  arguments, round robin without a positive quantum, a file that cannot be opened, a file without
  tasks.
\<close>

lemma sched_main_errors:
  assumes "length argv < 3 \<or> argv ! 2 = ''RR'' \<and> (length argv < 4 \<or> atoi (argv ! 3) \<le> 0) \<or>
    (\<exists>why. files (argv ! 1) = Inl why) \<or> (\<exists>text. files (argv ! 1) = Inr text \<and> read_tasks [] text = [])"
  shows "\<exists>msg. sched_main argv files = Inr \<lparr>exit_status = 1, stdout = [], stderr = msg\<rparr>"
  using assms by (auto simp: sched_main_def stderr_exit_def Let_def)

end
