(* ===== verification/Workers.thy ===== *)
theory Workers
  imports C_Stdio "HOL-Library.Word"
begin

section \<open>Parallel sums with processes and threads (Assignment2-2)\<close>

text \<open>
  \<^verbatim>\<open>numgen.c\<close>, \<^verbatim>\<open>fork.c\<close> and \<^verbatim>\<open>thread.c\<close>.  The number of workers, a compile-time
  constant of the programs, is the argument \<open>n\<close>.  The parent and its workers run concurrently: a
  step relation on the state \<open>pool\<close> lets any of them move, and the parent's call that waits for
  worker \<open>i\<close> can only return after that worker has finished.
\<close>

unbundle bit_operations_syntax

subsection \<open>Input\<close>

text \<open>\<^verbatim>\<open>numgen.c\<close>: exit status, standard error and the file it leaves.\<close>

definition numgen_main :: "nat \<Rightarrow> string option \<Rightarrow> int \<times> string \<times> string option" where
  "numgen_main n why =
     (case why of
        Some reason \<Rightarrow> (1, ''fopen: '' @ reason @ [newline], None)
      | None \<Rightarrow> (0, [], Some (concat (map (\<lambda>i. show_d (int i) @ [newline]) [1..<2 * n + 1]))))"

text \<open>The reading loop: \<open>k\<close> numbers, or \<^term>\<open>None\<close>.\<close>

primrec read_numbers :: "nat \<Rightarrow> string \<Rightarrow> int list option" where
  "read_numbers 0 s = Some []"
| "read_numbers (Suc k) s =
     (case scan_d s of
        None \<Rightarrow> None
      | Some (x, r) \<Rightarrow> (case read_numbers k r of None \<Rightarrow> None | Some xs \<Rightarrow> Some (x # xs)))"

text \<open>\<open>read_input\<close>: what it stores, if it returns 0, and what it writes to standard error.\<close>

definition workers_read_input :: "nat \<Rightarrow> string + string \<Rightarrow> int list option \<times> string" where
  "workers_read_input n file =
     (case file of
        Inl reason \<Rightarrow> (None, ''can't open temp.txt: '' @ reason @ [newline])
      | Inr text \<Rightarrow> (read_numbers (2 * n) text, []))"

text \<open>The start of both \<open>main\<close> functions: the numbers, or exit status 1 with the messages.\<close>

definition workers_start :: "nat \<Rightarrow> string + string \<Rightarrow> run_result + int list" where
  "workers_start n file =
     (case workers_read_input n file of
        (None, err) \<Rightarrow> Inl \<lparr>exit_status = 1, stdout = [],
                          stderr = err @ ''input read error(pos : main() )'' @ [newline]\<rparr>
      | (Some nums, _) \<Rightarrow> Inr nums)"

subsection \<open>The pool\<close>

datatype slot = Absent | Working | Finished int | Dead | Collected

datatype phase = Creating nat | Joining nat | Returned int | Faulted fault

record pool =
  phase :: phase
  slots :: "slot list"
  total :: int

text \<open>
  \<open>work i\<close> is what worker \<open>i\<close> hands over, if computing it does not overflow.  \<open>mortal\<close> says whether a
  worker can end in another way than by handing over its result, as a process can that is killed.
\<close>

inductive pool_step :: "bool \<Rightarrow> nat \<Rightarrow> (nat \<Rightarrow> int outcome) \<Rightarrow> pool \<Rightarrow> pool \<Rightarrow> bool"
  for mortal n work where
  create: "phase p = Creating i \<Longrightarrow> i < n \<Longrightarrow>
     pool_step mortal n work p (p\<lparr>phase := Creating (Suc i), slots := (slots p)[i := Working]\<rparr>)"
| create_fails: "phase p = Creating i \<Longrightarrow> i < n \<Longrightarrow>
     pool_step mortal n work p (p\<lparr>phase := Returned 1\<rparr>)"
| created: "phase p = Creating n \<Longrightarrow> pool_step mortal n work p (p\<lparr>phase := Joining 0\<rparr>)"
| finish: "i < length (slots p) \<Longrightarrow> slots p ! i = Working \<Longrightarrow> work i = Inr v \<Longrightarrow>
     pool_step mortal n work p (p\<lparr>slots := (slots p)[i := Finished v]\<rparr>)"
| overflow: "\<forall>f. phase p \<noteq> Faulted f \<Longrightarrow> i < length (slots p) \<Longrightarrow> slots p ! i = Working \<Longrightarrow> work i = Inl e \<Longrightarrow>
     pool_step mortal n work p (p\<lparr>phase := Faulted e\<rparr>)"
| die: "mortal \<Longrightarrow> i < length (slots p) \<Longrightarrow> slots p ! i = Working \<Longrightarrow>
     pool_step mortal n work p (p\<lparr>slots := (slots p)[i := Dead]\<rparr>)"
| join: "phase p = Joining i \<Longrightarrow> i < n \<Longrightarrow> slots p ! i = Finished v \<Longrightarrow> is_int32 (total p + v) \<Longrightarrow>
     pool_step mortal n work p
       (p\<lparr>phase := Joining (Suc i), slots := (slots p)[i := Collected], total := total p + v\<rparr>)"
| join_overflow: "phase p = Joining i \<Longrightarrow> i < n \<Longrightarrow> slots p ! i = Finished v \<Longrightarrow> \<not> is_int32 (total p + v) \<Longrightarrow>
     pool_step mortal n work p (p\<lparr>phase := Faulted Overflow\<rparr>)"
| join_dead: "phase p = Joining i \<Longrightarrow> i < n \<Longrightarrow> slots p ! i = Dead \<Longrightarrow>
     pool_step mortal n work p (p\<lparr>phase := Returned 1, slots := (slots p)[i := Collected]\<rparr>)"
| joined: "phase p = Joining n \<Longrightarrow> pool_step mortal n work p (p\<lparr>phase := Returned 0\<rparr>)"

definition pool_init :: "nat \<Rightarrow> pool" where
  "pool_init n = \<lparr>phase = Creating 0, slots = replicate n Absent, total = 0\<rparr>"

text \<open>The child of \<^verbatim>\<open>fork.c\<close>: \<open>_exit (part_sum & 0xFF)\<close>, read by \<open>WEXITSTATUS\<close>.\<close>

definition fork_child :: "int list \<Rightarrow> nat \<Rightarrow> int outcome" where
  "fork_child nums i =
     (let part_sum = nums ! (2 * i) + nums ! (2 * i + 1) in
      if is_int32 part_sum then Inr (part_sum AND 255) else Inl Overflow)"

text \<open>The worker of \<^verbatim>\<open>thread.c\<close>, whose result is read through the pointer \<open>pthread_join\<close> stores.\<close>

definition thread_worker :: "int list \<Rightarrow> nat \<Rightarrow> int outcome" where
  "thread_worker nums i =
     (let v = nums ! (2 * i) + nums ! (2 * i + 1) in
      if is_int32 v then Inr v else Inl Overflow)"

definition fork_step :: "nat \<Rightarrow> int list \<Rightarrow> pool \<Rightarrow> pool \<Rightarrow> bool" where
  "fork_step n nums = pool_step True n (fork_child nums)"

definition thread_step :: "nat \<Rightarrow> int list \<Rightarrow> pool \<Rightarrow> pool \<Rightarrow> bool" where
  "thread_step n nums = pool_step False n (thread_worker nums)"

subsection \<open>The report\<close>

record timespec =
  tv_sec :: int
  tv_nsec :: int

definition ns :: "timespec \<Rightarrow> int" where
  "ns ts = tv_sec ts * 1000000000 + tv_nsec ts"

text \<open>\<open>elapsed / 1000.0\<close>, in seconds; the difference is converted to \<open>double\<close> first.\<close>

definition elapsed_seconds :: "timespec \<Rightarrow> timespec \<Rightarrow> double" where
  "elapsed_seconds t0 t1 = ddiv (ddiv (dround (of_int (ns t1 - ns t0))) 1000000) 1000"

text \<open>\<open>printf ("%.6f", x)\<close>\<close>

definition show_f6 :: "double \<Rightarrow> string" where
  "show_f6 x =
     (let h = round_half_even (\<bar>x\<bar> * 1000000) in
      (if x < 0 then ''-'' else '''') @ show_nat (h div 1000000) @ ''.'' @
      map (\<lambda>d. digit_char (h div d mod 10)) [100000, 10000, 1000, 100, 10, 1])"

definition workers_report :: "string \<Rightarrow> int \<Rightarrow> timespec \<Rightarrow> timespec \<Rightarrow> string" where
  "workers_report what v t0 t1 =
     ''value of '' @ what @ '' : '' @ show_d v @ [newline] @ show_f6 (elapsed_seconds t0 t1) @ [newline]"

text \<open>What \<open>main\<close> prints at the end of a run that returns 0.\<close>

definition fork_output :: "pool \<Rightarrow> timespec \<Rightarrow> timespec \<Rightarrow> string" where
  "fork_output p = workers_report ''fork'' (total p)"

definition thread_output :: "pool \<Rightarrow> timespec \<Rightarrow> timespec \<Rightarrow> string" where
  "thread_output p = workers_report ''thread'' (total p)"

subsection \<open>Every schedule\<close>

inductive_cases pool_stepE: "pool_step mortal n work p q"

text \<open>
  The state of the slots in each phase, and the sum collected so far.
\<close>

definition value_of :: "int outcome \<Rightarrow> int" where
  "value_of r = (case r of Inl _ \<Rightarrow> 0 | Inr v \<Rightarrow> v)"

definition slot_ok :: "(nat \<Rightarrow> int outcome) \<Rightarrow> nat \<Rightarrow> slot \<Rightarrow> bool" where
  "slot_ok work i s \<longleftrightarrow> (case s of Finished v \<Rightarrow> work i = Inr v | _ \<Rightarrow> True)"

fun pool_inv :: "bool \<Rightarrow> nat \<Rightarrow> (nat \<Rightarrow> int outcome) \<Rightarrow> pool \<Rightarrow> bool" where
  "pool_inv mortal n work p \<longleftrightarrow>
     length (slots p) = n \<and> (\<forall>i < n. slot_ok work i (slots p ! i)) \<and>
     (\<not> mortal \<longrightarrow> Dead \<notin> set (slots p)) \<and>
     (case phase p of
        Creating k \<Rightarrow> k \<le> n \<and> total p = 0 \<and>
          (\<forall>i < n. (slots p ! i = Absent \<longleftrightarrow> k \<le> i) \<and> slots p ! i \<noteq> Collected)
      | Joining k \<Rightarrow> k \<le> n \<and> total p = (\<Sum>i<k. value_of (work i)) \<and>
          (\<forall>i < n. slots p ! i \<noteq> Absent \<and> (slots p ! i = Collected \<longleftrightarrow> i < k))
      | Returned r \<Rightarrow> r = 0 \<longrightarrow> total p = (\<Sum>i<n. value_of (work i)) \<and> (\<forall>i < n. slots p ! i = Collected)
      | Faulted e \<Rightarrow> True)"

declare pool_inv.simps [simp del]

lemma pool_inv_init: "pool_inv mortal n work (pool_init n)"
  by (simp add: pool_inv.simps pool_init_def slot_ok_def)

lemma pool_inv_step:
  assumes "pool_step mortal n work p q" and "pool_inv mortal n work p"
  shows "pool_inv mortal n work q"
  using assms
proof cases
  case (create i)
  then show ?thesis using assms(2)
    by (auto simp: pool_inv.simps nth_list_update slot_ok_def dest: set_update_subset_insert [THEN subsetD])
next
  case (finish i v)
  then show ?thesis using assms(2)
    by (auto simp: pool_inv.simps nth_list_update slot_ok_def split: phase.splits
        dest: set_update_subset_insert [THEN subsetD])
next
  case (die i)
  then show ?thesis using assms(2)
    by (auto simp: pool_inv.simps nth_list_update slot_ok_def split: phase.splits)
next
  case (join i v)
  then have "work i = Inr v" using assms(2) by (auto simp: pool_inv.simps slot_ok_def)
  then show ?thesis using join assms(2)
    by (auto simp: pool_inv.simps nth_list_update slot_ok_def value_of_def less_Suc_eq
        dest: set_update_subset_insert [THEN subsetD])
qed (auto simp: pool_inv.simps nth_list_update slot_ok_def split: phase.splits
      dest: set_update_subset_insert [THEN subsetD])

lemma pool_inv_reachable:
  "(pool_step mortal n work)\<^sup>*\<^sup>* (pool_init n) p \<Longrightarrow> pool_inv mortal n work p"
  by (induction rule: rtranclp_induct) (auto intro: pool_inv_init pool_inv_step)

text \<open>No deadlock: until the parent has returned, something can move.\<close>

definition running :: "pool \<Rightarrow> bool" where
  "running p \<longleftrightarrow> (case phase p of Creating _ \<Rightarrow> True | Joining _ \<Rightarrow> True | _ \<Rightarrow> False)"

lemma pool_progress:
  assumes inv: "pool_inv mortal n work p" and run: "running p"
  shows "\<exists>q. pool_step mortal n work p q"
proof (cases "phase p")
  case (Creating k)
  then have "k < n \<or> k = n" using inv by (auto simp: pool_inv.simps)
  then show ?thesis using Creating pool_step.create pool_step.created by blast
next
  case (Joining k)
  then consider "k = n" | (slot) "k < n" "slots p ! k \<noteq> Absent" "slots p ! k \<noteq> Collected" "length (slots p) = n"
    using inv by (fastforce simp: pool_inv.simps)
  then show ?thesis
  proof cases
    case 1
    then show ?thesis using Joining pool_step.joined by blast
  next
    case slot
    show ?thesis
    proof (cases "slots p ! k")
      case Working
      then show ?thesis using slot pool_step.finish [of k p work] pool_step.overflow [of p k work] Joining
        by (cases "work k") auto
    next
      case (Finished v)
      then show ?thesis using slot Joining pool_step.join [of p k n v] pool_step.join_overflow [of p k n v] by blast
    next
      case Dead
      then show ?thesis using slot Joining pool_step.join_dead by blast
    qed (use slot in simp_all)
  qed
qed (use run in \<open>simp_all add: running_def\<close>)

text \<open>Every step brings the end nearer.\<close>

definition pool_measure :: "nat \<Rightarrow> pool \<Rightarrow> nat" where
  "pool_measure n p =
     (case phase p of Creating k \<Rightarrow> 2 * (n - k) + n + 3 | Joining k \<Rightarrow> (n - k) + 2 | Returned _ \<Rightarrow> 1
      | Faulted _ \<Rightarrow> 0) +
     length (filter (\<lambda>s. s = Working) (slots p))"

lemma filter_update:
  "i < length xs \<Longrightarrow> length (filter P (xs[i := x])) + (if P (xs ! i) then 1 else 0) =
     length (filter P xs) + (if P x then 1 else 0)"
proof (induction xs arbitrary: i)
  case (Cons y ys)
  then show ?case by (cases i) auto
qed simp

lemma pool_measure_step:
  assumes "pool_step mortal n work p q" and "pool_inv mortal n work p"
  shows "pool_measure n q < pool_measure n p"
proof -
  have len: "length (slots p) = n" using assms(2) by (simp add: pool_inv.simps)
  note upd = filter_update [of _ "slots p" "\<lambda>s. s = Working"]
  show ?thesis
    using assms(1)
  proof cases
    case (create i)
    then show ?thesis using upd [of i Working] len by (auto simp: pool_measure_def split: if_splits)
  next
    case (finish i v)
    then show ?thesis using upd [of i "Finished v"] by (simp add: pool_measure_def)
  next
    case (overflow i e)
    then show ?thesis by (auto simp: pool_measure_def split: phase.splits)
  next
    case (die i)
    then show ?thesis using upd [of i Dead] by (simp add: pool_measure_def)
  next
    case (join i v)
    then show ?thesis using upd [of i Collected] len by (simp add: pool_measure_def)
  next
    case (join_dead i)
    then show ?thesis using upd [of i Collected] len by (simp add: pool_measure_def)
  qed (auto simp: pool_measure_def)
qed

lemma pool_steps_bounded:
  "(pool_step mortal n work ^^ k) p q \<Longrightarrow> pool_inv mortal n work p \<Longrightarrow>
   pool_inv mortal n work q \<and> k + pool_measure n q \<le> pool_measure n p"
proof (induction k arbitrary: q)
  case (Suc k)
  then obtain r where r: "(pool_step mortal n work ^^ k) p r" "pool_step mortal n work r q" by auto
  then have "pool_inv mortal n work r" "k + pool_measure n r \<le> pool_measure n p" using Suc by auto
  then show ?case using pool_inv_step [OF r(2)] pool_measure_step [OF r(2)] by simp
qed simp

subsection \<open>The sums\<close>

lemma and_255: "(x :: int) AND 255 = x mod 256"
proof -
  have "x AND 255 = take_bit 8 x" by (simp add: take_bit_eq_mask mask_eq_exp_minus_1)
  then show ?thesis by (simp add: take_bit_eq_mod)
qed

definition pair_sum :: "int list \<Rightarrow> nat \<Rightarrow> int" where
  "pair_sum nums i = nums ! (2 * i) + nums ! (2 * i + 1)"

lemma worker_values:
  "is_int32 (pair_sum nums i) \<Longrightarrow> fork_child nums i = Inr (pair_sum nums i mod 256)"
  "is_int32 (pair_sum nums i) \<Longrightarrow> thread_worker nums i = Inr (pair_sum nums i)"
  by (simp_all add: fork_child_def thread_worker_def pair_sum_def and_255 Let_def)

lemma pool_total:
  assumes "(pool_step mortal n work)\<^sup>*\<^sup>* (pool_init n) p" and "phase p = Returned 0"
    and "\<And>i. i < n \<Longrightarrow> work i = Inr (f i)"
  shows "total p = (\<Sum>i<n. f i)" and "\<forall>i < n. slots p ! i = Collected"
proof -
  have inv: "pool_inv mortal n work p" using assms(1) by (rule pool_inv_reachable)
  have "(\<Sum>i<n. value_of (work i)) = (\<Sum>i<n. f i)" using assms(3) by (simp add: value_of_def)
  then show "total p = (\<Sum>i<n. f i)" using inv assms(2) by (simp add: pool_inv.simps)
  show "\<forall>i < n. slots p ! i = Collected" using inv assms(2) by (simp add: pool_inv.simps)
qed

lemma sum_pairs: "length nums = 2 * n \<Longrightarrow> (\<Sum>i<n. pair_sum nums i) = sum_list nums"
proof (induction n arbitrary: nums)
  case (Suc n)
  then obtain a b ms where nums: "nums = a # b # ms" "length ms = 2 * n"
    by (cases nums; cases "tl nums") auto
  have "(\<Sum>i<Suc n. pair_sum nums i) = pair_sum nums 0 + (\<Sum>i<n. pair_sum nums (Suc i))"
    by (simp only: sum.lessThan_Suc_shift)
  also have "(\<Sum>i<n. pair_sum nums (Suc i)) = (\<Sum>i<n. pair_sum ms i)"
    using nums(1) by (simp add: pair_sum_def)
  finally show ?case using Suc.IH [OF nums(2)] nums(1) by (simp add: pair_sum_def)
qed simp

text \<open>What \<^verbatim>\<open>numgen.c\<close> writes is read back.\<close>

lemma scan_d_newline_skip: "read_numbers k (newline # s) = read_numbers k s"
  by (cases k) (simp_all add: scan_d_skip_space)

lemma read_numbers_printed:
  "\<forall>y \<in> set ys. is_int32 y \<Longrightarrow>
   read_numbers (length ys) (concat (map (\<lambda>y. show_d y @ [newline]) ys)) = Some ys"
proof (induction ys)
  case (Cons y ys)
  have "scan_d (show_d y @ newline # concat (map (\<lambda>y. show_d y @ [newline]) ys)) =
      Some (y, newline # concat (map (\<lambda>y. show_d y @ [newline]) ys))"
    using Cons.prems by (intro scan_d_show_d) auto
  then show ?case using Cons by (simp add: scan_d_newline_skip)
qed simp

end
