(* ===== verification/Workers_Properties.thy ===== *)
theory Workers_Properties
  imports Workers
begin

section \<open>Properties of the parallel sums\<close>

text \<open>
  What every schedule of the parent and its workers leads to.
\<close>

lemma pool_init_measure: "pool_measure n (pool_init n) = 3 * n + 3"
  by (simp add: pool_measure_def pool_init_def)

text \<open>
  C33. The fork and the thread program end under every schedule: no run makes more than \<open>3 n + 3\<close> steps,
  and a run that cannot go on has returned or met an overflow; there is no deadlock.
\<close>

theorem workers_end:
  "((fork_step n nums ^^ k) (pool_init n) p \<longrightarrow>
      k \<le> 3 * n + 3 \<and> (running p \<longrightarrow> (\<exists>q. fork_step n nums p q))) \<and>
   ((thread_step n nums ^^ k) (pool_init n) p \<longrightarrow>
      k \<le> 3 * n + 3 \<and> (running p \<longrightarrow> (\<exists>q. thread_step n nums p q)))"
proof -
  have "k \<le> 3 * n + 3 \<and> (running p \<longrightarrow> (\<exists>q. pool_step mortal n work p q))"
    if "(pool_step mortal n work ^^ k) (pool_init n) p" for mortal work
    using pool_steps_bounded [OF that pool_inv_init] pool_progress pool_init_measure by (metis add_leD1)
  then show ?thesis unfolding fork_step_def thread_step_def by blast
qed

lemma fork_first_step:
  "(fork_step 1 [1, 2] ^^ 1) (pool_init 1) \<lparr>phase = Creating 1, slots = [Working], total = 0\<rparr>"
  unfolding fork_step_def using pool_step.create [of "pool_init 1" 0 1 True "fork_child [1, 2]"]
  by (simp add: pool_init_def eq_OO)

theorem workers_end_witness:
  "\<exists>q. fork_step 1 [1, 2] \<lparr>phase = Creating 1, slots = [Working], total = 0\<rparr> q"
  using workers_end [where k = 1 and n = 1 and nums = "[1, 2]" and p = "\<lparr>phase = Creating 1, slots = [Working], total = 0\<rparr>"] fork_first_step
  by (simp add: running_def)

text \<open>
  C17. Whatever the schedule, a run of the fork program that returns 0 has reaped every child and its total
  is the sum of the pair sums, each modulo 256, because an exit status has 8 bits; a run of the thread
  program has joined every thread and its total is the sum of all numbers.  With pair sums from 0 to
  255 both print the same value.
\<close>

theorem workers_total:
  assumes "length nums = 2 * n" and "\<forall>i < n. is_int32 (pair_sum nums i)"
    and "(fork_step n nums)\<^sup>*\<^sup>* (pool_init n) p" and "phase p = Returned 0"
    and "(thread_step n nums)\<^sup>*\<^sup>* (pool_init n) q" and "phase q = Returned 0"
  shows "total p = (\<Sum>i<n. pair_sum nums i mod 256) \<and> total q = sum_list nums \<and>
    (\<forall>i < n. slots p ! i = Collected \<and> slots q ! i = Collected) \<and>
    ((\<forall>i < n. 0 \<le> pair_sum nums i \<and> pair_sum nums i < 256) \<longrightarrow> total p = total q)"
proof -
  have P: "total p = (\<Sum>i<n. pair_sum nums i mod 256)" "\<forall>i < n. slots p ! i = Collected"
    using pool_total [OF assms(3) [unfolded fork_step_def] assms(4), of "\<lambda>i. pair_sum nums i mod 256"]
      worker_values(1) assms(2) by auto
  have Q: "total q = (\<Sum>i<n. pair_sum nums i)" "\<forall>i < n. slots q ! i = Collected"
    using pool_total [OF assms(5) [unfolded thread_step_def] assms(6), of "pair_sum nums"]
      worker_values(2) assms(2) by auto
  have "total p = total q" if "\<forall>i < n. 0 \<le> pair_sum nums i \<and> pair_sum nums i < 256"
    using that P(1) Q(1) by simp
  then show ?thesis using P Q sum_pairs [OF assms(1)] by simp
qed

text \<open>A complete run with one worker.\<close>

lemma one_worker_run:
  assumes "work 0 = Inr 3"
  shows "(pool_step mortal 1 work)\<^sup>*\<^sup>* (pool_init 1) \<lparr>phase = Returned 0, slots = [Collected], total = 3\<rparr>"
proof -
  let ?R = "pool_step mortal 1 work"
  let ?p1 = "\<lparr>phase = Creating 1, slots = [Working], total = 0\<rparr> :: pool"
  let ?p2 = "\<lparr>phase = Joining 0, slots = [Working], total = 0\<rparr> :: pool"
  let ?p3 = "\<lparr>phase = Joining 0, slots = [Finished 3], total = 0\<rparr> :: pool"
  let ?p4 = "\<lparr>phase = Joining 1, slots = [Collected], total = 3\<rparr> :: pool"
  have "?R (pool_init 1) ?p1" using pool_step.create [of "pool_init 1" 0 1] by (simp add: pool_init_def)
  moreover have "?R ?p1 ?p2" using pool_step.created [of ?p1 1] by simp
  moreover have "?R ?p2 ?p3" using pool_step.finish [of 0 ?p2 work 3] assms by simp
  moreover have "?R ?p3 ?p4"
    using pool_step.join [of ?p3 0 1 3] by (simp add: is_int32_def int_min_def int_max_def)
  moreover have "?R ?p4 \<lparr>phase = Returned 0, slots = [Collected], total = 3\<rparr>"
    using pool_step.joined [of ?p4 1] by simp
  ultimately show ?thesis by (meson rtranclp.rtrancl_into_rtrancl rtranclp.rtrancl_refl)
qed

theorem workers_total_witness:
  "\<exists>p q. (fork_step 1 [1, 2])\<^sup>*\<^sup>* (pool_init 1) p \<and> (thread_step 1 [1, 2])\<^sup>*\<^sup>* (pool_init 1) q \<and>
     total p = 3 \<and> total q = 3"
proof -
  let ?p = "\<lparr>phase = Returned 0, slots = [Collected], total = 3\<rparr> :: pool"
  have v: "is_int32 (pair_sum [1, 2] 0)" "pair_sum [1, 2] 0 = 3"
    by (simp_all add: pair_sum_def is_int32_def int_min_def int_max_def)
  have runs: "(fork_step 1 [1, 2])\<^sup>*\<^sup>* (pool_init 1) ?p" "(thread_step 1 [1, 2])\<^sup>*\<^sup>* (pool_init 1) ?p"
    unfolding fork_step_def thread_step_def using one_worker_run worker_values [OF v(1)] v(2) by auto
  have "total ?p = (\<Sum>i<1. pair_sum [1, 2] i mod 256) \<and> total ?p = sum_list [1, 2]"
    using workers_total [OF _ _ runs(1) _ runs(2)] v(1) by simp
  then show ?thesis using runs by (intro exI [of _ ?p]) simp
qed

text \<open>
  C34. What \<open>numgen\<close> writes, both programs read back as the numbers from 1 to \<open>2 n\<close>; then, for up to 64
  workers, every run of the fork program that returns 0 prints \<open>n (2 n + 1)\<close>.
\<close>

theorem numgen_fork:
  assumes "n \<le> 64" and "numgen_main n None = (st, err, Some body)"
  shows "st = 0 \<and> workers_start n (Inr body) = Inr (map int [1..<2 * n + 1]) \<and>
    (\<forall>p. (fork_step n (map int [1..<2 * n + 1]))\<^sup>*\<^sup>* (pool_init n) p \<and> phase p = Returned 0 \<longrightarrow>
       total p = int n * (2 * int n + 1))"
proof -
  let ?nums = "map int [1..<2 * n + 1]"
  have body: "body = concat (map (\<lambda>y. show_d y @ [newline]) ?nums)" and st: "st = 0"
    using assms(2) by (simp_all add: numgen_main_def comp_def)
  have "\<forall>y \<in> set ?nums. is_int32 y" using assms(1) by (auto simp: is_int32_def int_min_def int_max_def)
  moreover have len: "length ?nums = 2 * n" by (simp del: upt_Suc)
  ultimately have "read_numbers (2 * n) body = Some ?nums"
    using read_numbers_printed [of ?nums] unfolding body len by blast
  then have start: "workers_start n (Inr body) = Inr ?nums"
    by (simp add: workers_start_def workers_read_input_def del: upt_Suc)
  have pair: "pair_sum ?nums i = 4 * int i + 3" if "i < n" for i
    using that by (simp add: pair_sum_def nth_append del: upt_Suc)
  have work: "fork_child ?nums i = Inr (4 * int i + 3)" if "i < n" for i
    using worker_values(1) [of ?nums i] pair [OF that] that assms(1)
    by (simp add: is_int32_def int_min_def int_max_def del: upt_Suc)
  have "(\<Sum>i<n. 4 * int i + 3) = int n * (2 * int n + 1)"
    by (induction n) (simp_all add: algebra_simps)
  then show ?thesis
    using pool_total(1) [of True n "fork_child ?nums"] work st start unfolding fork_step_def by simp
qed

theorem numgen_fork_witness:
  "\<exists>body. workers_start 8 (Inr body) = Inr (map int [1..<17]) \<and>
     (\<forall>p. (fork_step 8 (map int [1..<17]))\<^sup>*\<^sup>* (pool_init 8) p \<and> phase p = Returned 0 \<longrightarrow> total p = 136)"
proof -
  obtain body where "numgen_main 8 None = (0, [], Some body)" by (simp add: numgen_main_def del: upt_Suc)
  then show ?thesis using numgen_fork [of 8 0 "[]" body] by (auto simp del: upt_Suc)
qed

end
