(* ===== verification/Syscall_Table.thy ===== *)
theory Syscall_Table
  imports C_Stdio "HOL-Library.Word"
begin

section \<open>The system call table and its page protection\<close>

text \<open>
  What the kernel modules of the assignments share: the system call table, the page table entries that
  protect it and the kernel log.  A store to a table entry needs the write bit of the page that maps the
  entry; without it the store is the fault \<^const>\<open>Write_Protected\<close>.  The kernel's
  \<open>lookup_address\<close> and \<open>kallsyms_lookup_name\<close> are the environment \<open>kenv\<close>.  The locale
  \<open>syscall_hook\<close> is the contract of a module that replaces one entry.
\<close>

unbundle bit_operations_syntax

datatype iocall = Openat | Read | Write | Lseek | Close

text \<open>The functions a table entry can point to.\<close>

datatype handler =
    Null_Handler
  | Native nat
  | My_ftrace
  | Os_ftrace_trampoline
  | File_varea
  | Ftrace iocall

datatype printk = Printk string | Printk_ptr string handler

record machine =
  table :: "nat \<Rightarrow> handler"
  ptes :: "nat \<Rightarrow> 64 word"
  klog :: "printk list"

text \<open>
  \<open>page_of i\<close> is the page table entry that maps entry \<open>i\<close> of the table; the table starts at entry 0.
  \<open>symbol\<close> says whether the symbol of the table is found.
\<close>

record kenv =
  page_of :: "nat \<Rightarrow> nat option"
  symbol :: bool

definition PAGE_RW :: "64 word" where "PAGE_RW = 2"

definition log_line :: "string \<Rightarrow> machine \<Rightarrow> machine" where
  "log_line s m = m\<lparr>klog := klog m @ [Printk s]\<rparr>"

definition writable_page :: "kenv \<Rightarrow> nat \<Rightarrow> machine \<Rightarrow> bool" where
  "writable_page env i m =
     (case page_of env i of None \<Rightarrow> False | Some g \<Rightarrow> ptes m g AND PAGE_RW \<noteq> 0)"

definition table_write :: "kenv \<Rightarrow> nat \<Rightarrow> handler \<Rightarrow> machine \<Rightarrow> machine outcome" where
  "table_write env i h m =
     (if writable_page env i m then Inr (m\<lparr>table := (table m)(i := h)\<rparr>) else Inl Write_Protected)"

text \<open>Setting and clearing the write bit of page table entry \<open>g\<close>.\<close>

definition pte_set_rw :: "nat \<Rightarrow> machine \<Rightarrow> machine" where
  "pte_set_rw g m = m\<lparr>ptes := (ptes m)(g := ptes m g OR PAGE_RW)\<rparr>"

definition pte_clear_rw :: "nat \<Rightarrow> machine \<Rightarrow> machine" where
  "pte_clear_rw g m = m\<lparr>ptes := (ptes m)(g := ptes m g AND NOT PAGE_RW)\<rparr>"

lemma PAGE_RW_nonzero [simp]: "PAGE_RW \<noteq> 0"
  by (simp add: PAGE_RW_def)

lemma rw_bits [simp]:
  "(w OR PAGE_RW) AND PAGE_RW \<noteq> 0" "(w AND NOT PAGE_RW) AND PAGE_RW = 0"
  "w AND PAGE_RW = 0 \<Longrightarrow> (w OR PAGE_RW) AND NOT PAGE_RW = w" "w AND PAGE_RW = 0 \<Longrightarrow> w AND NOT PAGE_RW = w"
proof -
  show "(w OR PAGE_RW) AND PAGE_RW \<noteq> 0"
  proof
    assume "(w OR PAGE_RW) AND PAGE_RW = 0"
    then have "bit ((w OR PAGE_RW) AND PAGE_RW) 1 = bit (0 :: 64 word) 1" by simp
    then show False by (simp add: bit_simps PAGE_RW_def)
  qed
  show "(w AND NOT PAGE_RW) AND PAGE_RW = 0" by (rule bit_eqI) (simp add: bit_simps)
  show "w AND NOT PAGE_RW = w" if "w AND PAGE_RW = 0"
  proof (rule bit_word_eqI)
    fix n assume n: "n < LENGTH(64)"
    have "bit (w AND PAGE_RW) n = bit (0 :: 64 word) n" using that by simp
    then show "bit (w AND NOT PAGE_RW) n = bit w n" using n by (auto simp: bit_simps)
  qed
  show "(w OR PAGE_RW) AND NOT PAGE_RW = w" if "w AND PAGE_RW = 0"
  proof (rule bit_word_eqI)
    fix n assume n: "n < LENGTH(64)"
    have "bit (w AND PAGE_RW) n = bit (0 :: 64 word) n" using that by simp
    then show "bit ((w OR PAGE_RW) AND NOT PAGE_RW) n = bit w n" using n by (auto simp: bit_simps)
  qed
qed

lemma pte_simps [simp]:
  "table (pte_set_rw g m) = table m" "table (pte_clear_rw g m) = table m"
  "klog (pte_set_rw g m) = klog m" "klog (pte_clear_rw g m) = klog m"
  "ptes (pte_set_rw g m) = (ptes m)(g := ptes m g OR PAGE_RW)"
  "ptes (pte_clear_rw g m) = (ptes m)(g := ptes m g AND NOT PAGE_RW)"
  "table (log_line s m) = table m" "ptes (log_line s m) = ptes m"
  by (simp_all add: pte_set_rw_def pte_clear_rw_def log_line_def)

text \<open>
  The page that maps the start of the table also maps entry \<open>i\<close>, its page table entry is in use, and
  it is write-protected.
\<close>

definition protected_entry :: "kenv \<Rightarrow> nat \<Rightarrow> machine \<Rightarrow> bool" where
  "protected_entry env i m \<longleftrightarrow>
     (\<exists>g. page_of env 0 = Some g \<and> page_of env i = Some g \<and> ptes m g \<noteq> 0 \<and> ptes m g AND PAGE_RW = 0)"

subsection \<open>Writing entries\<close>

text \<open>
  Every module brackets its writes with a \<open>make_rw\<close> and a \<open>make_ro\<close> of its own; both are arguments
  here.
\<close>

primrec write_entries :: "kenv \<Rightarrow> (nat \<times> handler) list \<Rightarrow> machine \<Rightarrow> machine outcome" where
  "write_entries env [] m = Inr m"
| "write_entries env (e # es) m =
     bind_outcome (table_write env (fst e) (snd e) m) (write_entries env es)"

type_synonym page_op = "kenv \<Rightarrow> machine \<Rightarrow> machine outcome"

definition replace_entries :: "page_op \<Rightarrow> page_op \<Rightarrow> kenv \<Rightarrow> (nat \<times> handler) list \<Rightarrow> machine \<Rightarrow> machine outcome" where
  "replace_entries rw ro env es m =
     bind_outcome (rw env m) (\<lambda>m1. bind_outcome (write_entries env es m1) (ro env))"

definition with_entries :: "(nat \<times> handler) list \<Rightarrow> machine \<Rightarrow> machine" where
  "with_entries es m = m\<lparr>table := foldl (\<lambda>t e. t(fst e := snd e)) (table m) es\<rparr>"

lemma with_entries_simps [simp]:
  "ptes (with_entries es m) = ptes m" "klog (with_entries es m) = klog m"
  "table (with_entries [] m) = table m" "table (with_entries [(i, h)] m) = (table m)(i := h)"
  by (simp_all add: with_entries_def)

lemma write_entries_ok:
  assumes "\<forall>e\<in>set es. page_of env (fst e) = Some g" and "ptes m g AND PAGE_RW \<noteq> 0"
  shows "write_entries env es m = Inr (with_entries es m)"
  using assms by (induction es arbitrary: m) (auto simp: with_entries_def table_write_def writable_page_def)

locale page_helpers =
  fixes rw ro :: page_op
  assumes rw_ok: "page_of env 0 = Some g \<Longrightarrow> ptes m g \<noteq> 0 \<Longrightarrow> ptes m g AND PAGE_RW = 0 \<Longrightarrow> rw env m = Inr (pte_set_rw g m)"
    and ro_ok: "page_of env 0 = Some g \<Longrightarrow> ptes m g AND PAGE_RW \<noteq> 0 \<Longrightarrow> ro env m = Inr (pte_clear_rw g m)"
begin

lemma replaces:
  assumes "\<forall>e\<in>set es. protected_entry env (fst e) m" and "es \<noteq> []"
  shows "replace_entries rw ro env es m = Inr (with_entries es m)"
proof -
  obtain g where g: "page_of env 0 = Some g" "ptes m g \<noteq> 0" "ptes m g AND PAGE_RW = 0"
    and pages: "\<forall>e\<in>set es. page_of env (fst e) = Some g"
    using assms by (cases es) (auto simp: protected_entry_def)
  have "write_entries env es (pte_set_rw g m) = Inr (with_entries es (pte_set_rw g m))"
    by (rule write_entries_ok [OF pages]) simp
  moreover have "pte_clear_rw g (with_entries es (pte_set_rw g m)) = with_entries es m"
    using g by (cases m) (simp add: with_entries_def pte_set_rw_def pte_clear_rw_def fun_upd_idem)
  ultimately show ?thesis
    using g by (simp add: replace_entries_def rw_ok ro_ok)
qed

end

text \<open>The globals of a hooking module: the machine, the saved handler, and whether the table was found.\<close>

record hook_state =
  mach :: machine
  real_call :: handler
  have_table :: bool

definition on_mach :: "(machine \<Rightarrow> machine) \<Rightarrow> 'a hook_state_scheme \<Rightarrow> 'a hook_state_scheme" where
  "on_mach f s = s\<lparr>mach := f (mach s)\<rparr>"

lemma on_mach_simps [simp]:
  "mach (on_mach f s) = f (mach s)" "real_call (on_mach f s) = real_call s" "have_table (on_mach f s) = have_table s"
  by (simp_all add: on_mach_def)

subsection \<open>The contract of a hook\<close>

locale syscall_hook =
  fixes nr :: nat and hook :: handler and mach :: "'s \<Rightarrow> machine"
    and install :: "kenv \<Rightarrow> 's \<Rightarrow> (int \<times> 's) outcome" and remove :: "kenv \<Rightarrow> 's \<Rightarrow> 's outcome"
    and saved :: "'s \<Rightarrow> handler \<Rightarrow> bool"
  assumes install_ok: "symbol env \<Longrightarrow> protected_entry env nr (mach s) \<Longrightarrow>
      \<exists>s'. install env s = Inr (0, s') \<and> table (mach s') = (table (mach s))(nr := hook) \<and>
        ptes (mach s') = ptes (mach s) \<and> saved s' (table (mach s) nr)"
    and remove_ok: "symbol env \<Longrightarrow> protected_entry env nr (mach s) \<Longrightarrow> saved s h \<Longrightarrow> h \<noteq> Null_Handler \<Longrightarrow>
      \<exists>s'. remove env s = Inr s' \<and> table (mach s') = (table (mach s))(nr := h) \<and>
        ptes (mach s') = ptes (mach s)"
begin

text \<open>Loading and unloading leaves the table and the page protection as they were.\<close>

lemma install_remove:
  assumes "symbol env" and "protected_entry env nr (mach s)" and "table (mach s) nr \<noteq> Null_Handler"
  shows "\<exists>s1 s2. install env s = Inr (0, s1) \<and> table (mach s1) nr = hook \<and> remove env s1 = Inr s2 \<and>
    table (mach s2) = table (mach s) \<and> ptes (mach s2) = ptes (mach s)"
proof -
  obtain s1 where s1: "install env s = Inr (0, s1)" "table (mach s1) = (table (mach s))(nr := hook)"
    "ptes (mach s1) = ptes (mach s)" "saved s1 (table (mach s) nr)"
    using install_ok [OF assms(1,2)] by blast
  have "protected_entry env nr (mach s1)" using assms(2) s1(3) by (simp add: protected_entry_def)
  from remove_ok [OF assms(1) this s1(4) assms(3)] obtain s2 where
    "remove env s1 = Inr s2" "table (mach s2) = (table (mach s1))(nr := table (mach s) nr)"
    "ptes (mach s2) = ptes (mach s1)" by blast
  then show ?thesis using s1 by auto
qed

end

end
