(* ===== verification/Hooks.thy ===== *)
theory Hooks
  imports Syscall_Table
begin

section \<open>Hooking system calls (Assignment1)\<close>

text \<open>
  The system call of \<^verbatim>\<open>os_ftrace.c\<close>, the module \<^verbatim>\<open>os_ftracehooking.c\<close> that wraps it, and
  the pair \<^verbatim>\<open>ftracehooking.c\<close> and \<^verbatim>\<open>iotracehooking.c\<close> that turns it into a switch for
  tracing file calls.  The globals of a module are the record \<open>hook_state\<close>, extended by those of the
  tracer; the machine is part of it.
\<close>

text \<open>\<open>make_rw\<close> and \<open>make_ro\<close> with the check for an unmapped address.\<close>

definition make_rw :: page_op where
  "make_rw env m =
     Inr (case page_of env 0 of
            None \<Rightarrow> m
          | Some g \<Rightarrow> if ptes m g AND PAGE_RW = 0 then pte_set_rw g m else m)"

definition make_ro :: page_op where
  "make_ro env m = Inr (case page_of env 0 of None \<Rightarrow> m | Some g \<Rightarrow> pte_clear_rw g m)"

text \<open>The page helpers of \<^verbatim>\<open>iotracehooking.c\<close>, without that check, and with the test as written.\<close>

definition io_make_rw :: page_op where
  "io_make_rw env m =
     (case page_of env 0 of
        None \<Rightarrow> Inl Null_Pointer
      | Some g \<Rightarrow> Inr (if ptes m g AND NOT PAGE_RW \<noteq> 0 then pte_set_rw g m else m))"

definition io_make_ro :: page_op where
  "io_make_ro env m =
     (case page_of env 0 of None \<Rightarrow> Inl Null_Pointer | Some g \<Rightarrow> Inr (pte_clear_rw g m))"

interpretation table_pages: page_helpers make_rw make_ro
  by unfold_locales (simp_all add: make_rw_def make_ro_def)

interpretation io_pages: page_helpers io_make_rw io_make_ro
  by unfold_locales (auto simp: io_make_rw_def io_make_ro_def)

subsection \<open>The system call and its wrapper\<close>

definition sys_os_ftrace :: "int \<Rightarrow> machine \<Rightarrow> int \<times> machine" where
  "sys_os_ftrace pid m =
     (0, log_line (''ORIGINAL ftrace() called! PID is ['' @ show_d pid @ '']'' @ [newline]) m)"

definition NR_os_ftrace :: nat where "NR_os_ftrace = 548"

definition hook_init :: "kenv \<Rightarrow> hook_state \<Rightarrow> (int \<times> hook_state) outcome" where
  "hook_init env s =
     (if \<not> symbol env then
        Inr (- EINVAL, on_mach (log_line (''Couldn't find sys_call_table'' @ [newline])) (s\<lparr>have_table := False\<rparr>))
      else
        let real = table (mach s) NR_os_ftrace;
            s1 = s\<lparr>have_table := True, real_call := real,
                   mach := (mach s)\<lparr>klog := klog (mach s) @ [Printk_ptr ''saving real_os_ftrace = '' real]\<rparr>\<rparr> in
        bind_outcome (replace_entries make_rw make_ro env [(NR_os_ftrace, My_ftrace)] (mach s1))
          (\<lambda>m. Inr (0, s1\<lparr>mach := log_line (''os_ftrace hooked!'' @ [newline]) m\<rparr>)))"

definition hook_exit :: "kenv \<Rightarrow> hook_state \<Rightarrow> hook_state outcome" where
  "hook_exit env s =
     (if \<not> have_table s \<or> real_call s = Null_Handler then Inr s
      else bind_outcome (replace_entries make_rw make_ro env [(NR_os_ftrace, real_call s)] (mach s))
             (\<lambda>m. Inr (s\<lparr>mach := log_line (''os_ftrace restored'' @ [newline]) m\<rparr>)))"

text \<open>
  \<open>my_ftrace\<close>, which forwards to the saved handler: the original call, itself when it had been saved
  as the original, or a null pointer.
\<close>

definition my_ftrace :: "int \<Rightarrow> hook_state \<Rightarrow> (int \<times> hook_state) outcome" where
  "my_ftrace pid s =
     (let s1 = on_mach (log_line ''os_ftrace() hooked! os_ftrace -> my_ftrace'') s in
      case real_call s of
        Native _ \<Rightarrow> let (r, m) = sys_os_ftrace pid (mach s1) in Inr (r, s1\<lparr>mach := m\<rparr>)
      | My_ftrace \<Rightarrow> Inl Diverges
      | _ \<Rightarrow> Inl Null_Pointer)"

subsection \<open>Tracing file calls\<close>

record io_trace_stats =
  open_count :: "32 word"
  close_count :: "32 word"
  read_count :: "32 word"
  write_count :: "32 word"
  lseek_count :: "32 word"
  read_bytes :: "64 word"
  write_bytes :: "64 word"
  stat_filename :: string

record trace_state = hook_state +
  traced_pid :: int
  stats :: io_trace_stats
  io_table :: bool
  real_io :: "iocall \<Rightarrow> handler"

text \<open>
  The registers a call uses: \<open>di\<close> and \<open>dx\<close>, and the string \<open>si\<close> points to, if it can be read.
\<close>

record pt_regs =
  di :: int
  si :: "string option"
  dx :: "64 word"

definition stats_zero :: io_trace_stats where
  "stats_zero = \<lparr>open_count = 0, close_count = 0, read_count = 0, write_count = 0, lseek_count = 0,
                 read_bytes = 0, write_bytes = 0, stat_filename = []\<rparr>"

text \<open>What each hook counts before it calls the original; the name is kept from the first open.\<close>

definition count_call :: "iocall \<Rightarrow> pt_regs \<Rightarrow> io_trace_stats \<Rightarrow> io_trace_stats" where
  "count_call c regs st =
     (case c of
        Openat \<Rightarrow>
          let st1 = st\<lparr>open_count := open_count st + 1\<rparr> in
          if stat_filename st = [] then
            (case si regs of None \<Rightarrow> st1 | Some name \<Rightarrow> st1\<lparr>stat_filename := take 255 name\<rparr>)
          else st1
      | Read \<Rightarrow> st\<lparr>read_count := read_count st + 1, read_bytes := read_bytes st + dx regs\<rparr>
      | Write \<Rightarrow> st\<lparr>write_count := write_count st + 1, write_bytes := write_bytes st + dx regs\<rparr>
      | Lseek \<Rightarrow> st\<lparr>lseek_count := lseek_count st + 1\<rparr>
      | Close \<Rightarrow> st\<lparr>close_count := close_count st + 1\<rparr>)"

text \<open>
  A call through a handler: an original call, whose effect is the parameter \<open>native\<close>, or a hook, which
  counts and calls the handler it saved, \<open>-ENOENT\<close> if there is none.
\<close>

partial_function (option) call_handler ::
  "(nat \<Rightarrow> pt_regs \<Rightarrow> int) \<Rightarrow> handler \<Rightarrow> pt_regs \<Rightarrow> trace_state \<Rightarrow> (int \<times> trace_state) outcome option" where
  "call_handler native h regs s =
     (case h of
        Native k \<Rightarrow> Some (Inr (native k regs, s))
      | Ftrace c \<Rightarrow>
          let s1 = s\<lparr>stats := count_call c regs (stats s)\<rparr> in
          if real_io s c = Null_Handler then Some (Inr (- ENOENT, s1))
          else call_handler native (real_io s c) regs s1
      | _ \<Rightarrow> Some (Inl Null_Pointer))"

text \<open>A file system call \<open>c\<close>, made by any process, through the table.\<close>

definition do_call ::
  "(iocall \<Rightarrow> nat) \<Rightarrow> (nat \<Rightarrow> pt_regs \<Rightarrow> int) \<Rightarrow> iocall \<Rightarrow> pt_regs \<Rightarrow> trace_state \<Rightarrow> (int \<times> trace_state) outcome" where
  "do_call NR native c regs s =
     (case call_handler native (table (mach s) (NR c)) regs s of None \<Rightarrow> Inl Diverges | Some r \<Rightarrow> r)"

definition io_calls :: "iocall list" where
  "io_calls = [Openat, Read, Write, Lseek, Close]"

definition start_io_trace :: "kenv \<Rightarrow> (iocall \<Rightarrow> nat) \<Rightarrow> int \<Rightarrow> trace_state \<Rightarrow> trace_state outcome" where
  "start_io_trace env NR pid s =
     (if \<not> symbol env then Inl Null_Pointer
      else
        bind_outcome (replace_entries io_make_rw io_make_ro env (map (\<lambda>c. (NR c, Ftrace c)) io_calls) (mach s))
          (\<lambda>m. Inr (s\<lparr>traced_pid := pid, io_table := True, real_io := (\<lambda>c. table (mach s) (NR c)),
                     mach := log_line (''[iotrace] pid'' @ show_d pid @ '' tracing start'' @ [newline]) m\<rparr>)))"

text \<open>The lines \<open>stop_io_trace\<close> prints for the current process.\<close>

definition stop_report :: "string \<Rightarrow> int \<Rightarrow> io_trace_stats \<Rightarrow> machine \<Rightarrow> machine" where
  "stop_report comm cur_pid st m =
     log_line (''OS Assignment2 ftrace ['' @ show_d cur_pid @ ''] End'' @ [newline])
       (log_line (''open['' @ show_d (sint (open_count st)) @ ''] close['' @ show_d (sint (close_count st)) @
                  ''] read['' @ show_d (sint (read_count st)) @ ''] write['' @ show_d (sint (write_count st)) @
                  ''] lseek['' @ show_d (sint (lseek_count st)) @ '']'')
         (log_line (''[2021202089] '' @ comm @ '' file['' @ stat_filename st @ ''] stats [x] read - '' @
                    show_d (sint (read_bytes st)) @ '' / written - '' @ show_d (sint (write_bytes st))) m))"

definition stop_io_trace ::
  "kenv \<Rightarrow> (iocall \<Rightarrow> nat) \<Rightarrow> string \<Rightarrow> int \<Rightarrow> trace_state \<Rightarrow> trace_state outcome" where
  "stop_io_trace env NR comm cur_pid s =
     (if \<not> io_table s then Inr s
      else
        bind_outcome (replace_entries io_make_rw io_make_ro env
            (map (\<lambda>c. (NR c, real_io s c)) (filter (\<lambda>c. real_io s c \<noteq> Null_Handler) io_calls)) (mach s))
          (\<lambda>m. Inr (s\<lparr>mach := stop_report comm cur_pid (stats s) m\<rparr>)))"

definition iotrace_init :: "trace_state \<Rightarrow> int \<times> trace_state" where
  "iotrace_init s =
     (0, s\<lparr>stats := stats_zero, mach := log_line (''[iotrace] module loaded'' @ [newline]) (mach s)\<rparr>)"

definition iotrace_exit ::
  "kenv \<Rightarrow> (iocall \<Rightarrow> nat) \<Rightarrow> string \<Rightarrow> int \<Rightarrow> trace_state \<Rightarrow> trace_state outcome" where
  "iotrace_exit env NR comm cur_pid s =
     bind_outcome (stop_io_trace env NR comm cur_pid s) (\<lambda>s1.
       Inr (on_mach (log_line (''[iotrace] module unloaded'' @ [newline])) s1))"

text \<open>The hooked \<open>os_ftrace\<close>: the traced pid again stops the trace, another positive pid starts one.\<close>

definition trace_ftrace ::
  "kenv \<Rightarrow> (iocall \<Rightarrow> nat) \<Rightarrow> string \<Rightarrow> int \<Rightarrow> int \<Rightarrow> trace_state \<Rightarrow> (int \<times> trace_state) outcome" where
  "trace_ftrace env NR comm cur_pid pid s =
     (if traced_pid s \<noteq> 0 \<and> pid = traced_pid s then
        bind_outcome (stop_io_trace env NR comm cur_pid s) (\<lambda>s1. Inr (0, s1\<lparr>traced_pid := 0\<rparr>))
      else if 0 < pid then
        bind_outcome (start_io_trace env NR pid s) (\<lambda>s1. Inr (0, s1))
      else Inr (0, s))"

definition NR_OS_FTRACE :: nat where "NR_OS_FTRACE = 336"

definition trace_hook_init :: "kenv \<Rightarrow> trace_state \<Rightarrow> (int \<times> trace_state) outcome" where
  "trace_hook_init env s =
     (if \<not> symbol env then
        Inr (- EINVAL, on_mach (log_line (''[ftrace] sys_call_table not found'' @ [newline]))
                         (s\<lparr>have_table := False\<rparr>))
      else
        let s1 = s\<lparr>have_table := True, real_call := table (mach s) NR_OS_FTRACE\<rparr> in
        bind_outcome (replace_entries make_rw make_ro env [(NR_OS_FTRACE, My_ftrace)] (mach s1))
          (\<lambda>m. Inr (0, s1\<lparr>mach := log_line (''[ftrace] os_ftrace hooked'' @ [newline]) m\<rparr>)))"

definition trace_hook_exit :: "kenv \<Rightarrow> trace_state \<Rightarrow> trace_state outcome" where
  "trace_hook_exit env s =
     (if \<not> have_table s \<or> real_call s = Null_Handler then Inr s
      else bind_outcome (replace_entries make_rw make_ro env [(NR_OS_FTRACE, real_call s)] (mach s))
             (\<lambda>m. Inr (s\<lparr>mach := log_line (''[ftrace] os_ftrace restored'' @ [newline]) m\<rparr>)))"

subsection \<open>The contract holds\<close>

interpretation wrapper: syscall_hook NR_os_ftrace My_ftrace mach hook_init hook_exit
  "\<lambda>s h. have_table s \<and> real_call s = h"
  by unfold_locales (simp_all add: hook_init_def hook_exit_def Let_def table_pages.replaces protected_entry_def)

interpretation switch: syscall_hook NR_OS_FTRACE My_ftrace mach trace_hook_init trace_hook_exit
  "\<lambda>s h. have_table s \<and> real_call s = h"
  by unfold_locales (simp_all add: trace_hook_init_def trace_hook_exit_def Let_def table_pages.replaces)

end
