(* ===== verification/Task.thy ===== *)
theory Task
  imports C_Stdio "HOL-Library.Word"
begin

section \<open>Task structures (Assignment2-1, sched.h)\<close>

text \<open>
  The part of \<open>struct task_struct\<close> the sources use, the state and flag constants, and the inline
  functions that classify a task.  Tasks and the objects they point to are addressed by naturals;
  a pointer that may be \<open>NULL\<close> is an option.
\<close>

unbundle bit_operations_syntax

subsection \<open>Task states\<close>

definition TASK_RUNNING :: "64 word" where "TASK_RUNNING = 0x0000"
definition TASK_INTERRUPTIBLE :: "64 word" where "TASK_INTERRUPTIBLE = 0x0001"
definition TASK_UNINTERRUPTIBLE :: "64 word" where "TASK_UNINTERRUPTIBLE = 0x0002"
definition TASK_STOPPED_bit :: "64 word" where "TASK_STOPPED_bit = 0x0004"
definition TASK_TRACED_bit :: "64 word" where "TASK_TRACED_bit = 0x0008"
definition EXIT_DEAD :: "64 word" where "EXIT_DEAD = 0x0010"
definition EXIT_ZOMBIE :: "64 word" where "EXIT_ZOMBIE = 0x0020"
definition EXIT_TRACE :: "64 word" where "EXIT_TRACE = EXIT_ZOMBIE OR EXIT_DEAD"
definition TASK_PARKED :: "64 word" where "TASK_PARKED = 0x0040"
definition TASK_DEAD :: "64 word" where "TASK_DEAD = 0x0080"
definition TASK_WAKEKILL :: "64 word" where "TASK_WAKEKILL = 0x0100"
definition TASK_WAKING :: "64 word" where "TASK_WAKING = 0x0200"
definition TASK_NOLOAD :: "64 word" where "TASK_NOLOAD = 0x0400"
definition TASK_NEW :: "64 word" where "TASK_NEW = 0x0800"
definition TASK_STOPPED :: "64 word" where "TASK_STOPPED = TASK_WAKEKILL OR TASK_STOPPED_bit"
definition TASK_TRACED :: "64 word" where "TASK_TRACED = TASK_WAKEKILL OR TASK_TRACED_bit"
definition TASK_KILLABLE :: "64 word" where "TASK_KILLABLE = TASK_WAKEKILL OR TASK_UNINTERRUPTIBLE"
definition TASK_IDLE :: "64 word" where "TASK_IDLE = TASK_UNINTERRUPTIBLE OR TASK_NOLOAD"
definition TASK_NORMAL :: "64 word" where "TASK_NORMAL = TASK_INTERRUPTIBLE OR TASK_UNINTERRUPTIBLE"
definition TASK_REPORT :: "64 word" where
  "TASK_REPORT = TASK_RUNNING OR TASK_INTERRUPTIBLE OR TASK_UNINTERRUPTIBLE OR TASK_STOPPED_bit OR
     TASK_TRACED_bit OR EXIT_DEAD OR EXIT_ZOMBIE OR TASK_PARKED"
definition TASK_REPORT_IDLE :: "64 word" where "TASK_REPORT_IDLE = TASK_REPORT + 1"

lemmas task_state_defs = TASK_RUNNING_def TASK_INTERRUPTIBLE_def TASK_UNINTERRUPTIBLE_def
  TASK_STOPPED_bit_def TASK_TRACED_bit_def EXIT_DEAD_def EXIT_ZOMBIE_def EXIT_TRACE_def TASK_PARKED_def
  TASK_DEAD_def TASK_WAKEKILL_def TASK_WAKING_def TASK_NOLOAD_def TASK_NEW_def TASK_STOPPED_def
  TASK_TRACED_def TASK_KILLABLE_def TASK_IDLE_def TASK_NORMAL_def TASK_REPORT_def TASK_REPORT_IDLE_def

definition PF_IDLE :: "32 word" where "PF_IDLE = 0x00000002"
definition PF_EXITING :: "32 word" where "PF_EXITING = 0x00000004"
definition PF_VCPU :: "32 word" where "PF_VCPU = 0x00000010"
definition PF_WQ_WORKER :: "32 word" where "PF_WQ_WORKER = 0x00000020"
definition PF_FORKNOEXEC :: "32 word" where "PF_FORKNOEXEC = 0x00000040"
definition PF_MCE_PROCESS :: "32 word" where "PF_MCE_PROCESS = 0x00000080"
definition PF_SUPERPRIV :: "32 word" where "PF_SUPERPRIV = 0x00000100"
definition PF_DUMPCORE :: "32 word" where "PF_DUMPCORE = 0x00000200"
definition PF_SIGNALED :: "32 word" where "PF_SIGNALED = 0x00000400"
definition PF_MEMALLOC :: "32 word" where "PF_MEMALLOC = 0x00000800"
definition PF_NPROC_EXCEEDED :: "32 word" where "PF_NPROC_EXCEEDED = 0x00001000"
definition PF_USED_MATH :: "32 word" where "PF_USED_MATH = 0x00002000"
definition PF_NOFREEZE :: "32 word" where "PF_NOFREEZE = 0x00008000"
definition PF_FROZEN :: "32 word" where "PF_FROZEN = 0x00010000"
definition PF_KSWAPD :: "32 word" where "PF_KSWAPD = 0x00020000"
definition PF_MEMALLOC_NOFS :: "32 word" where "PF_MEMALLOC_NOFS = 0x00040000"
definition PF_MEMALLOC_NOIO :: "32 word" where "PF_MEMALLOC_NOIO = 0x00080000"
definition PF_LESS_THROTTLE :: "32 word" where "PF_LESS_THROTTLE = 0x00100000"
definition PF_KTHREAD :: "32 word" where "PF_KTHREAD = 0x00200000"
definition PF_RANDOMIZE :: "32 word" where "PF_RANDOMIZE = 0x00400000"
definition PF_SWAPWRITE :: "32 word" where "PF_SWAPWRITE = 0x00800000"
definition PF_MEMSTALL :: "32 word" where "PF_MEMSTALL = 0x01000000"
definition PF_UMH :: "32 word" where "PF_UMH = 0x02000000"
definition PF_NO_SETAFFINITY :: "32 word" where "PF_NO_SETAFFINITY = 0x04000000"
definition PF_MCE_EARLY :: "32 word" where "PF_MCE_EARLY = 0x08000000"
definition PF_MEMALLOC_NOCMA :: "32 word" where "PF_MEMALLOC_NOCMA = 0x10000000"
definition PF_FREEZER_SKIP :: "32 word" where "PF_FREEZER_SKIP = 0x40000000"
definition PF_SUSPEND_TASK :: "32 word" where "PF_SUSPEND_TASK = 0x80000000"

lemmas task_flag_defs = PF_IDLE_def PF_EXITING_def PF_VCPU_def PF_WQ_WORKER_def PF_FORKNOEXEC_def PF_MCE_PROCESS_def
  PF_SUPERPRIV_def PF_DUMPCORE_def PF_SIGNALED_def PF_MEMALLOC_def PF_NPROC_EXCEEDED_def PF_USED_MATH_def PF_NOFREEZE_def
  PF_FROZEN_def PF_KSWAPD_def PF_MEMALLOC_NOFS_def PF_MEMALLOC_NOIO_def PF_LESS_THROTTLE_def PF_KTHREAD_def PF_RANDOMIZE_def
  PF_SWAPWRITE_def PF_MEMSTALL_def PF_UMH_def PF_NO_SETAFFINITY_def PF_MCE_EARLY_def PF_MEMALLOC_NOCMA_def
  PF_FREEZER_SKIP_def PF_SUSPEND_TASK_def

subsection \<open>The task structure\<close>

record cred =
  cred_user :: nat
  cred_uid :: "32 word"
  cred_gid :: "32 word"

text \<open>The kinds of numbers a task has; a \<open>struct pid\<close> is named by its number.\<close>

datatype pid_type = PIDTYPE_PID | PIDTYPE_TGID | PIDTYPE_PGID | PIDTYPE_SID

record task_struct =
  tsk_thread_flags :: "64 word"
  tsk_state :: "64 word"
  tsk_stack :: "nat option"
  tsk_usage :: nat
  tsk_flags :: "32 word"
  tsk_cpu :: "32 word"
  tsk_static_prio :: int
  tsk_nr_cpus_allowed :: nat
  tsk_rcu_read_lock_nesting :: int
  tsk_rcu_read_unlock_special :: "32 word"
  tsk_rcu_tasks_holdout :: bool
  tsk_rcu_tasks_idle_cpu :: int
  tsk_mm :: "nat option"
  tsk_active_mm :: "nat option"
  tsk_exit_state :: "64 word"
  tsk_exit_signal :: int
  tsk_pdeath_signal :: int
  tsk_atomic_flags :: "64 word"
  tsk_pid :: int
  tsk_tgid :: int
  tsk_real_parent :: nat
  tsk_parent :: nat
  tsk_children :: "nat list"
  tsk_group_leader :: nat
  tsk_thread_pid :: "int option"
  tsk_vfork_done :: bool
  tsk_set_child_tid :: "64 word"
  tsk_clear_child_tid :: "64 word"
  tsk_utime :: "64 word"
  tsk_stime :: "64 word"
  tsk_gtime :: "64 word"
  tsk_nvcsw :: "64 word"
  tsk_nivcsw :: "64 word"
  tsk_fork_count :: "32 word"
  tsk_start_time :: "64 word"
  tsk_min_flt :: "64 word"
  tsk_maj_flt :: "64 word"
  tsk_cred :: cred
  tsk_comm :: string
  tsk_fs :: "nat option"
  tsk_files :: "nat option"
  tsk_signal :: nat
  tsk_sighand :: nat
  tsk_seccomp_mode :: nat
  tsk_seccomp_filter :: "nat option"
  tsk_pi_waiters :: "nat list"
  tsk_pi_top_task :: "nat option"
  tsk_pi_blocked_on :: "nat option"
  tsk_io_context :: "nat option"
  tsk_parent_exec_id :: "64 word"
  tsk_self_exec_id :: "64 word"
  tsk_timer_slack_ns :: "64 word"
  tsk_default_timer_slack_ns :: "64 word"
  tsk_rseq :: "64 word"
  tsk_rseq_sig :: "32 word"
  tsk_rseq_event_mask :: "64 word"
  tsk_rcu_users :: nat
  tsk_stack_refcount :: nat

definition task_is_traced :: "task_struct \<Rightarrow> bool" where
  "task_is_traced t \<longleftrightarrow> tsk_state t AND TASK_TRACED_bit \<noteq> 0"

definition task_is_stopped :: "task_struct \<Rightarrow> bool" where
  "task_is_stopped t \<longleftrightarrow> tsk_state t AND TASK_STOPPED_bit \<noteq> 0"

definition task_is_stopped_or_traced :: "task_struct \<Rightarrow> bool" where
  "task_is_stopped_or_traced t \<longleftrightarrow> tsk_state t AND (TASK_STOPPED_bit OR TASK_TRACED_bit) \<noteq> 0"

definition task_contributes_to_load :: "task_struct \<Rightarrow> bool" where
  "task_contributes_to_load t \<longleftrightarrow> tsk_state t AND TASK_UNINTERRUPTIBLE \<noteq> 0 \<and> tsk_flags t AND PF_FROZEN = 0
     \<and> tsk_state t AND TASK_NOLOAD = 0"

definition task_pid_nr :: "task_struct \<Rightarrow> int" where "task_pid_nr t = tsk_pid t"

definition task_tgid_nr :: "task_struct \<Rightarrow> int" where "task_tgid_nr t = tsk_tgid t"

definition is_global_init :: "task_struct \<Rightarrow> bool" where
  "is_global_init t \<longleftrightarrow> task_tgid_nr t = 1"

definition is_idle_task :: "task_struct \<Rightarrow> bool" where
  "is_idle_task t \<longleftrightarrow> tsk_flags t AND PF_IDLE \<noteq> 0"

text \<open>\<open>fls\<close>: the position of the highest set bit, counted from 1, and 0 for 0.\<close>

fun fls_nat :: "nat \<Rightarrow> nat" where
  "fls_nat n = (if n = 0 then 0 else Suc (fls_nat (n div 2)))"

declare fls_nat.simps [simp del]

text \<open>
  \<open>task_state_index\<close> reads the states into unsigned ints: the low 32 bits of the \<open>long\<close>.
\<close>

definition task_state_index :: "task_struct \<Rightarrow> nat" where
  "task_state_index t =
     (let tsk_state' = ucast (tsk_state t) :: 32 word;
          st = (tsk_state' OR ucast (tsk_exit_state t)) AND ucast TASK_REPORT in
      fls_nat (unat (if tsk_state' = ucast TASK_IDLE then ucast TASK_REPORT_IDLE else st)))"

definition state_char :: string where "state_char = ''RSDTtXZPI''"

definition task_index_to_char :: "nat \<Rightarrow> char outcome" where
  "task_index_to_char i = (if i < length state_char then Inr (state_char ! i) else Inl Out_Of_Bounds)"

definition task_state_to_char :: "task_struct \<Rightarrow> char outcome" where
  "task_state_to_char t = task_index_to_char (task_state_index t)"

subsection \<open>The reported state\<close>

lemma fls_nat_0 [simp]: "fls_nat 0 = 0"
  by (simp add: fls_nat.simps)

lemma fls_nat_le: "n < 2 ^ k \<Longrightarrow> fls_nat n \<le> k"
proof (induction n arbitrary: k rule: fls_nat.induct)
  case (1 n)
  then show ?case by (cases k) (auto simp: fls_nat.simps [of n])
qed

lemma fls_nat_eq:
  assumes "2 ^ k \<le> n" and "n < 2 ^ Suc k"
  shows "fls_nat n = Suc k"
  using assms
proof (induction k arbitrary: n)
  case 0
  then show ?case by (simp add: fls_nat.simps)
next
  case (Suc k)
  then have "fls_nat (n div 2) = Suc k" by (intro Suc.IH) auto
  moreover have "n \<noteq> 0" using Suc.prems(1) by (metis not_le zero_less_numeral zero_less_power)
  ultimately show ?case by (simp add: fls_nat.simps [of n])
qed

lemma report_mask: "unat (w AND ucast TASK_REPORT :: 32 word) < 128"
proof -
  have "(w AND 0x7F) \<le> (0x7F :: 32 word)" by (rule word_and_le1)
  then have "unat (w AND 0x7F) \<le> unat (0x7F :: 32 word)" by (simp add: word_le_nat_alt)
  then show ?thesis by (simp add: task_state_defs)
qed

lemma task_state_index_bound: "task_state_index t \<le> 8"
proof -
  have "fls_nat (unat (w AND ucast TASK_REPORT :: 32 word)) \<le> 8" for w
    using fls_nat_le [of _ 7] report_mask [of w] by (simp add: le_trans [of _ 7 8])
  moreover have "fls_nat (unat (ucast TASK_REPORT_IDLE :: 32 word)) \<le> 8"
    by (rule fls_nat_le) (simp add: task_state_defs)
  ultimately show ?thesis by (simp add: task_state_index_def Let_def)
qed

lemma task_state_to_char_ok:
  obtains c where "task_state_to_char t = Inr c" and "c \<in> set state_char"
proof -
  have "task_state_index t < length state_char"
    using task_state_index_bound [of t] by (simp add: state_char_def)
  then show ?thesis by (intro that) (auto simp: task_state_to_char_def task_index_to_char_def)
qed

end
