(* ===== verification/Task_Ops.thy ===== *)
theory Task_Ops
  imports Task
begin

section \<open>Inline operations on a task (Assignment2-1, sched.h)\<close>

text \<open>
  The inline functions and macros of \<^verbatim>\<open>sched.h\<close> that read or change a task: its state, its process, thread and
  atomic flags, its numbers and its restartable sequence.  A macro that generates functions is a definition with the
  flag as an argument, and each function it generates is an instance.  An operation on \<open>current\<close> takes that task
  as an argument.

  A word of flags and the task it is stored in make an instance of the locale \<open>flag_word\<close>.
\<close>

subsection \<open>The state of the current task\<close>

definition is_special_task_state :: "64 word \<Rightarrow> bool" where
  "is_special_task_state st \<longleftrightarrow> st AND (TASK_STOPPED_bit OR TASK_TRACED_bit OR TASK_PARKED OR TASK_DEAD) \<noteq> 0"

text \<open>The variants with \<open>CONFIG_DEBUG_ATOMIC_SLEEP\<close>: whether \<open>WARN_ON_ONCE\<close> sees its condition, and the task.\<close>

definition set_current_state :: "64 word \<Rightarrow> task_struct \<Rightarrow> bool \<times> task_struct" where
  "set_current_state st t = (is_special_task_state st, t\<lparr>tsk_state := st\<rparr>)"

definition set_special_state :: "64 word \<Rightarrow> task_struct \<Rightarrow> bool \<times> task_struct" where
  "set_special_state st t = (\<not> is_special_task_state st, t\<lparr>tsk_state := st\<rparr>)"

text \<open>Of the named states, exactly those for stopped, traced, parked and dead tasks are special.\<close>

lemma special_states:
  "filter is_special_task_state
     [TASK_RUNNING, TASK_INTERRUPTIBLE, TASK_UNINTERRUPTIBLE, TASK_STOPPED, TASK_TRACED, TASK_PARKED, TASK_DEAD, TASK_WAKEKILL,
      TASK_WAKING, TASK_NOLOAD, TASK_NEW, TASK_KILLABLE, TASK_IDLE, TASK_NORMAL]
   = [TASK_STOPPED, TASK_TRACED, TASK_PARKED, TASK_DEAD]"
  by (simp add: is_special_task_state_def task_state_defs)

subsection \<open>Process flags\<close>

definition clear_stopped_child_used_math :: "task_struct \<Rightarrow> task_struct" where
  "clear_stopped_child_used_math child = child\<lparr>tsk_flags := tsk_flags child AND NOT PF_USED_MATH\<rparr>"

definition set_stopped_child_used_math :: "task_struct \<Rightarrow> task_struct" where
  "set_stopped_child_used_math child = child\<lparr>tsk_flags := tsk_flags child OR PF_USED_MATH\<rparr>"

definition conditional_stopped_child_used_math :: "bool \<Rightarrow> task_struct \<Rightarrow> task_struct" where
  "conditional_stopped_child_used_math condition child =
     (let child = child\<lparr>tsk_flags := tsk_flags child AND NOT PF_USED_MATH\<rparr> in
      child\<lparr>tsk_flags := tsk_flags child OR (if condition then PF_USED_MATH else 0)\<rparr>)"

definition copy_to_stopped_child_used_math :: "task_struct \<Rightarrow> task_struct \<Rightarrow> task_struct" where
  "copy_to_stopped_child_used_math cur_task child =
     (let child = child\<lparr>tsk_flags := tsk_flags child AND NOT PF_USED_MATH\<rparr> in
      child\<lparr>tsk_flags := tsk_flags child OR (tsk_flags cur_task AND PF_USED_MATH)\<rparr>)"

definition tsk_used_math :: "task_struct \<Rightarrow> 32 word" where
  "tsk_used_math p = tsk_flags p AND PF_USED_MATH"

text \<open>The flags are \<open>unsigned int\<close>, the arguments \<open>unsigned long\<close>.\<close>

definition current_restore_flags :: "64 word \<Rightarrow> 64 word \<Rightarrow> task_struct \<Rightarrow> task_struct" where
  "current_restore_flags orig_flags fl t =
     (let t = t\<lparr>tsk_flags := ucast (ucast (tsk_flags t) AND NOT fl)\<rparr> in
      t\<lparr>tsk_flags := ucast (ucast (tsk_flags t) OR (orig_flags AND fl))\<rparr>)"

text \<open>With \<open>CONFIG_SMP\<close>.\<close>

definition is_percpu_thread :: "task_struct \<Rightarrow> bool" where
  "is_percpu_thread t \<longleftrightarrow> tsk_flags t AND PF_NO_SETAFFINITY \<noteq> 0 \<and> tsk_nr_cpus_allowed t = 1"

definition exit_umh :: "(task_struct \<Rightarrow> task_struct) \<Rightarrow> task_struct \<Rightarrow> task_struct" where
  "exit_umh really_exit t = (if tsk_flags t AND PF_UMH \<noteq> 0 then really_exit t else t)"

definition process_flags :: "32 word list" where
  "process_flags = [PF_IDLE, PF_EXITING, PF_VCPU, PF_WQ_WORKER, PF_FORKNOEXEC, PF_MCE_PROCESS, PF_SUPERPRIV, PF_DUMPCORE,
     PF_SIGNALED, PF_MEMALLOC, PF_NPROC_EXCEEDED, PF_USED_MATH, PF_NOFREEZE, PF_FROZEN, PF_KSWAPD, PF_MEMALLOC_NOFS,
     PF_MEMALLOC_NOIO, PF_LESS_THROTTLE, PF_KTHREAD, PF_RANDOMIZE, PF_SWAPWRITE, PF_MEMSTALL, PF_UMH, PF_NO_SETAFFINITY,
     PF_MCE_EARLY, PF_MEMALLOC_NOCMA, PF_FREEZER_SKIP, PF_SUSPEND_TASK]"

text \<open>Every process flag is one bit, and no two are the same.\<close>

lemma process_flags_bits:
  "process_flags = map (\<lambda>n. push_bit n 1) [1, 2, 4, 5, 6, 7, 8, 9, 10, 11, 12, 13, 15, 16, 17, 18, 19, 20, 21, 22, 23, 24, 25, 26, 27, 28, 30, 31]"
  by (simp add: process_flags_def task_flag_defs push_bit_eq_mult)

lemma used_math_flags:
  "tsk_used_math (clear_stopped_child_used_math c) = 0"
  "tsk_used_math (set_stopped_child_used_math c) = PF_USED_MATH"
  "tsk_used_math (conditional_stopped_child_used_math b c) = (if b then PF_USED_MATH else 0)"
  "tsk_used_math (copy_to_stopped_child_used_math p c) = tsk_used_math p"
  by (auto simp: tsk_used_math_def clear_stopped_child_used_math_def set_stopped_child_used_math_def Let_def
      conditional_stopped_child_used_math_def copy_to_stopped_child_used_math_def bit_eq_iff bit_simps)

text \<open>The flags in the mask get their original values, the others stay.\<close>

lemma current_restore_flags_bits:
  "bit (tsk_flags (current_restore_flags orig_flags fl t)) n =
     (if bit fl n then bit orig_flags n \<and> n < 32 else bit (tsk_flags t) n)"
  by (auto simp: current_restore_flags_def Let_def bit_simps dest: bit_imp_le_length)

subsection \<open>Words of flags\<close>

locale flag_word =
  fixes get :: "'s \<Rightarrow> 'w::len word" and put :: "'w word \<Rightarrow> 's \<Rightarrow> 's"
  assumes get_put [simp]: "get (put w s) = w"
    and put_get [simp]: "put (get s) s = s"
    and put_put [simp]: "put v (put w s) = put v s"
begin

lemma set_flag: "n < LENGTH('w) \<Longrightarrow> bit (get (put (Bit_Operations.set_bit n (get s)) s)) m \<longleftrightarrow> m = n \<or> bit (get s) m"
  by (auto simp: bit_simps)

lemma clear_flag: "bit (get (put (unset_bit n (get s)) s)) m \<longleftrightarrow> m \<noteq> n \<and> bit (get s) m"
  by (auto simp: bit_simps)

lemma set_idle: "bit (get s) n \<Longrightarrow> put (Bit_Operations.set_bit n (get s)) s = s"
proof -
  assume "bit (get s) n"
  then have "Bit_Operations.set_bit n (get s) = get s" by (intro bit_word_eqI) (auto simp: bit_simps)
  then show ?thesis by simp
qed

lemma clear_idle: "\<not> bit (get s) n \<Longrightarrow> put (unset_bit n (get s)) s = s"
proof -
  assume "\<not> bit (get s) n"
  then have "unset_bit n (get s) = get s" by (intro bit_word_eqI) (auto simp: bit_simps)
  then show ?thesis by simp
qed

end

interpretation thread_word: flag_word tsk_thread_flags "\<lambda>w t. t\<lparr>tsk_thread_flags := w\<rparr>"
  by unfold_locales simp_all

interpretation atomic_word: flag_word tsk_atomic_flags "\<lambda>w t. t\<lparr>tsk_atomic_flags := w\<rparr>"
  by unfold_locales simp_all

interpretation rseq_word: flag_word tsk_rseq_event_mask "\<lambda>w t. t\<lparr>tsk_rseq_event_mask := w\<rparr>"
  by unfold_locales simp_all

subsection \<open>Thread flags\<close>

definition TIF_SYSCALL_TRACE :: nat where "TIF_SYSCALL_TRACE = 0"
definition TIF_NOTIFY_RESUME :: nat where "TIF_NOTIFY_RESUME = 1"
definition TIF_NEED_RESCHED :: nat where "TIF_NEED_RESCHED = 3"
definition TIF_SYSCALL_EMU :: nat where "TIF_SYSCALL_EMU = 6"
definition TIF_SECCOMP :: nat where "TIF_SECCOMP = 8"

lemmas thread_flag_defs = TIF_SYSCALL_TRACE_def TIF_NOTIFY_RESUME_def TIF_NEED_RESCHED_def TIF_SYSCALL_EMU_def TIF_SECCOMP_def

definition set_tsk_thread_flag :: "nat \<Rightarrow> task_struct \<Rightarrow> task_struct" where
  "set_tsk_thread_flag flag t = t\<lparr>tsk_thread_flags := Bit_Operations.set_bit flag (tsk_thread_flags t)\<rparr>"

definition clear_tsk_thread_flag :: "nat \<Rightarrow> task_struct \<Rightarrow> task_struct" where
  "clear_tsk_thread_flag flag t = t\<lparr>tsk_thread_flags := unset_bit flag (tsk_thread_flags t)\<rparr>"

definition test_tsk_thread_flag :: "nat \<Rightarrow> task_struct \<Rightarrow> bool" where
  "test_tsk_thread_flag flag t = bit (tsk_thread_flags t) flag"

definition update_tsk_thread_flag :: "nat \<Rightarrow> bool \<Rightarrow> task_struct \<Rightarrow> task_struct" where
  "update_tsk_thread_flag flag val t = (if val then set_tsk_thread_flag flag t else clear_tsk_thread_flag flag t)"

definition test_and_set_tsk_thread_flag :: "nat \<Rightarrow> task_struct \<Rightarrow> bool \<times> task_struct" where
  "test_and_set_tsk_thread_flag flag t = (test_tsk_thread_flag flag t, set_tsk_thread_flag flag t)"

definition test_and_clear_tsk_thread_flag :: "nat \<Rightarrow> task_struct \<Rightarrow> bool \<times> task_struct" where
  "test_and_clear_tsk_thread_flag flag t = (test_tsk_thread_flag flag t, clear_tsk_thread_flag flag t)"

definition set_tsk_need_resched :: "task_struct \<Rightarrow> task_struct" where
  "set_tsk_need_resched t = set_tsk_thread_flag TIF_NEED_RESCHED t"

definition clear_tsk_need_resched :: "task_struct \<Rightarrow> task_struct" where
  "clear_tsk_need_resched t = clear_tsk_thread_flag TIF_NEED_RESCHED t"

definition test_tsk_need_resched :: "task_struct \<Rightarrow> bool" where
  "test_tsk_need_resched t = test_tsk_thread_flag TIF_NEED_RESCHED t"

definition need_resched :: "task_struct \<Rightarrow> bool" where
  "need_resched cur_task = test_tsk_thread_flag TIF_NEED_RESCHED cur_task"

lemma thread_flag_test [simp]:
  "flag < 64 \<Longrightarrow> test_tsk_thread_flag m (set_tsk_thread_flag flag t) \<longleftrightarrow> m = flag \<or> test_tsk_thread_flag m t"
  "test_tsk_thread_flag m (clear_tsk_thread_flag flag t) \<longleftrightarrow> m \<noteq> flag \<and> test_tsk_thread_flag m t"
  using thread_word.set_flag [of flag t m] thread_word.clear_flag [of flag t m]
  by (simp_all add: test_tsk_thread_flag_def set_tsk_thread_flag_def clear_tsk_thread_flag_def)

lemma thread_flag_update:
  "flag < 64 \<Longrightarrow> test_tsk_thread_flag m (update_tsk_thread_flag flag val t) \<longleftrightarrow> (if m = flag then val else test_tsk_thread_flag m t)"
  by (auto simp: update_tsk_thread_flag_def)

text \<open>A flag taken with \<open>test_and_clear\<close> and, if it was set, given back with \<open>test_and_set\<close>, is as before.\<close>

lemma thread_flag_cycle:
  assumes "flag < 64" and "test_and_clear_tsk_thread_flag flag t = (old, t1)"
  shows "snd (if old then test_and_set_tsk_thread_flag flag t1 else (False, t1)) = t"
proof (cases old)
  case True
  then have "bit (tsk_thread_flags t) flag" using assms(2)
    by (simp add: test_and_clear_tsk_thread_flag_def test_tsk_thread_flag_def)
  then have "Bit_Operations.set_bit flag (unset_bit flag (tsk_thread_flags t)) = tsk_thread_flags t"
    by (intro bit_word_eqI) (auto simp: bit_simps)
  then show ?thesis
    using assms(2) True by (auto simp: test_and_clear_tsk_thread_flag_def test_and_set_tsk_thread_flag_def
        set_tsk_thread_flag_def clear_tsk_thread_flag_def)
next
  case False
  then have "\<not> bit (tsk_thread_flags t) flag" "t1 = clear_tsk_thread_flag flag t"
    using assms(2) by (auto simp: test_and_clear_tsk_thread_flag_def test_tsk_thread_flag_def)
  then show ?thesis using False thread_word.clear_idle by (simp add: clear_tsk_thread_flag_def)
qed

subsection \<open>Atomic flags\<close>

definition PFA_NO_NEW_PRIVS :: nat where "PFA_NO_NEW_PRIVS = 0"
definition PFA_SPREAD_PAGE :: nat where "PFA_SPREAD_PAGE = 1"
definition PFA_SPREAD_SLAB :: nat where "PFA_SPREAD_SLAB = 2"
definition PFA_SPEC_SSB_DISABLE :: nat where "PFA_SPEC_SSB_DISABLE = 3"
definition PFA_SPEC_SSB_FORCE_DISABLE :: nat where "PFA_SPEC_SSB_FORCE_DISABLE = 4"
definition PFA_SPEC_IB_DISABLE :: nat where "PFA_SPEC_IB_DISABLE = 5"
definition PFA_SPEC_IB_FORCE_DISABLE :: nat where "PFA_SPEC_IB_FORCE_DISABLE = 6"
definition PFA_SPEC_SSB_NOEXEC :: nat where "PFA_SPEC_SSB_NOEXEC = 7"

lemmas atomic_flag_defs = PFA_NO_NEW_PRIVS_def PFA_SPREAD_PAGE_def PFA_SPREAD_SLAB_def PFA_SPEC_SSB_DISABLE_def
  PFA_SPEC_SSB_FORCE_DISABLE_def PFA_SPEC_IB_DISABLE_def PFA_SPEC_IB_FORCE_DISABLE_def PFA_SPEC_SSB_NOEXEC_def

definition TASK_PFA_TEST :: "nat \<Rightarrow> task_struct \<Rightarrow> bool" where
  "TASK_PFA_TEST flag p = bit (tsk_atomic_flags p) flag"

definition TASK_PFA_SET :: "nat \<Rightarrow> task_struct \<Rightarrow> task_struct" where
  "TASK_PFA_SET flag p = p\<lparr>tsk_atomic_flags := Bit_Operations.set_bit flag (tsk_atomic_flags p)\<rparr>"

definition TASK_PFA_CLEAR :: "nat \<Rightarrow> task_struct \<Rightarrow> task_struct" where
  "TASK_PFA_CLEAR flag p = p\<lparr>tsk_atomic_flags := unset_bit flag (tsk_atomic_flags p)\<rparr>"

definition task_no_new_privs :: "task_struct \<Rightarrow> bool" where "task_no_new_privs = TASK_PFA_TEST PFA_NO_NEW_PRIVS"
definition task_set_no_new_privs :: "task_struct \<Rightarrow> task_struct" where "task_set_no_new_privs = TASK_PFA_SET PFA_NO_NEW_PRIVS"
definition task_spread_page :: "task_struct \<Rightarrow> bool" where "task_spread_page = TASK_PFA_TEST PFA_SPREAD_PAGE"
definition task_set_spread_page :: "task_struct \<Rightarrow> task_struct" where "task_set_spread_page = TASK_PFA_SET PFA_SPREAD_PAGE"
definition task_clear_spread_page :: "task_struct \<Rightarrow> task_struct" where "task_clear_spread_page = TASK_PFA_CLEAR PFA_SPREAD_PAGE"
definition task_spread_slab :: "task_struct \<Rightarrow> bool" where "task_spread_slab = TASK_PFA_TEST PFA_SPREAD_SLAB"
definition task_set_spread_slab :: "task_struct \<Rightarrow> task_struct" where "task_set_spread_slab = TASK_PFA_SET PFA_SPREAD_SLAB"
definition task_clear_spread_slab :: "task_struct \<Rightarrow> task_struct" where "task_clear_spread_slab = TASK_PFA_CLEAR PFA_SPREAD_SLAB"
definition task_spec_ssb_disable :: "task_struct \<Rightarrow> bool" where "task_spec_ssb_disable = TASK_PFA_TEST PFA_SPEC_SSB_DISABLE"
definition task_set_spec_ssb_disable :: "task_struct \<Rightarrow> task_struct" where "task_set_spec_ssb_disable = TASK_PFA_SET PFA_SPEC_SSB_DISABLE"
definition task_clear_spec_ssb_disable :: "task_struct \<Rightarrow> task_struct" where "task_clear_spec_ssb_disable = TASK_PFA_CLEAR PFA_SPEC_SSB_DISABLE"
definition task_spec_ssb_noexec :: "task_struct \<Rightarrow> bool" where "task_spec_ssb_noexec = TASK_PFA_TEST PFA_SPEC_SSB_NOEXEC"
definition task_set_spec_ssb_noexec :: "task_struct \<Rightarrow> task_struct" where "task_set_spec_ssb_noexec = TASK_PFA_SET PFA_SPEC_SSB_NOEXEC"
definition task_clear_spec_ssb_noexec :: "task_struct \<Rightarrow> task_struct" where "task_clear_spec_ssb_noexec = TASK_PFA_CLEAR PFA_SPEC_SSB_NOEXEC"
definition task_spec_ssb_force_disable :: "task_struct \<Rightarrow> bool" where "task_spec_ssb_force_disable = TASK_PFA_TEST PFA_SPEC_SSB_FORCE_DISABLE"
definition task_set_spec_ssb_force_disable :: "task_struct \<Rightarrow> task_struct" where
  "task_set_spec_ssb_force_disable = TASK_PFA_SET PFA_SPEC_SSB_FORCE_DISABLE"
definition task_spec_ib_disable :: "task_struct \<Rightarrow> bool" where "task_spec_ib_disable = TASK_PFA_TEST PFA_SPEC_IB_DISABLE"
definition task_set_spec_ib_disable :: "task_struct \<Rightarrow> task_struct" where "task_set_spec_ib_disable = TASK_PFA_SET PFA_SPEC_IB_DISABLE"
definition task_clear_spec_ib_disable :: "task_struct \<Rightarrow> task_struct" where "task_clear_spec_ib_disable = TASK_PFA_CLEAR PFA_SPEC_IB_DISABLE"
definition task_spec_ib_force_disable :: "task_struct \<Rightarrow> bool" where "task_spec_ib_force_disable = TASK_PFA_TEST PFA_SPEC_IB_FORCE_DISABLE"
definition task_set_spec_ib_force_disable :: "task_struct \<Rightarrow> task_struct" where
  "task_set_spec_ib_force_disable = TASK_PFA_SET PFA_SPEC_IB_FORCE_DISABLE"

text \<open>The functions that change an atomic flag.\<close>

definition pfa_updates :: "(task_struct \<Rightarrow> task_struct) list" where
  "pfa_updates = [task_set_no_new_privs, task_set_spread_page, task_clear_spread_page, task_set_spread_slab, task_clear_spread_slab,
     task_set_spec_ssb_disable, task_clear_spec_ssb_disable, task_set_spec_ssb_noexec, task_clear_spec_ssb_noexec,
     task_set_spec_ssb_force_disable, task_set_spec_ib_disable, task_clear_spec_ib_disable, task_set_spec_ib_force_disable]"

lemmas pfa_update_defs = task_set_no_new_privs_def task_set_spread_page_def task_clear_spread_page_def task_set_spread_slab_def
  task_clear_spread_slab_def task_set_spec_ssb_disable_def task_clear_spec_ssb_disable_def task_set_spec_ssb_noexec_def
  task_clear_spec_ssb_noexec_def task_set_spec_ssb_force_disable_def task_set_spec_ib_disable_def task_clear_spec_ib_disable_def
  task_set_spec_ib_force_disable_def

lemma atomic_flag_test [simp]:
  "flag < 64 \<Longrightarrow> TASK_PFA_TEST m (TASK_PFA_SET flag t) \<longleftrightarrow> m = flag \<or> TASK_PFA_TEST m t"
  "TASK_PFA_TEST m (TASK_PFA_CLEAR flag t) \<longleftrightarrow> m \<noteq> flag \<and> TASK_PFA_TEST m t"
  using atomic_word.set_flag [of flag t m] atomic_word.clear_flag [of flag t m]
  by (simp_all add: TASK_PFA_TEST_def TASK_PFA_SET_def TASK_PFA_CLEAR_def)

text \<open>
  Three flags have no function that clears them: whatever sequence of the functions is applied, a task that must not gain
  privileges, or whose speculation is disabled for good, stays so.
\<close>

lemma sticky_step:
  assumes "f \<in> set pfa_updates" and "flag \<in> {PFA_NO_NEW_PRIVS, PFA_SPEC_SSB_FORCE_DISABLE, PFA_SPEC_IB_FORCE_DISABLE}"
    and "TASK_PFA_TEST flag t"
  shows "TASK_PFA_TEST flag (f t)"
  using assms by (auto simp: pfa_updates_def pfa_update_defs atomic_flag_defs)

lemma sticky_flags:
  assumes "set fs \<subseteq> set pfa_updates" and "flag \<in> {PFA_NO_NEW_PRIVS, PFA_SPEC_SSB_FORCE_DISABLE, PFA_SPEC_IB_FORCE_DISABLE}"
    and "TASK_PFA_TEST flag t"
  shows "TASK_PFA_TEST flag (fold (\<lambda>f. f) fs t)"
  using assms(1,3)
proof (induction fs arbitrary: t)
  case (Cons f fs)
  then show ?case using sticky_step [OF _ assms(2), of f t] by auto
qed simp

subsection \<open>Restartable sequences\<close>

definition RSEQ_EVENT_PREEMPT_BIT :: nat where "RSEQ_EVENT_PREEMPT_BIT = 0"
definition RSEQ_EVENT_SIGNAL_BIT :: nat where "RSEQ_EVENT_SIGNAL_BIT = 1"
definition RSEQ_EVENT_MIGRATE_BIT :: nat where "RSEQ_EVENT_MIGRATE_BIT = 2"

lemmas rseq_bit_defs = RSEQ_EVENT_PREEMPT_BIT_def RSEQ_EVENT_SIGNAL_BIT_def RSEQ_EVENT_MIGRATE_BIT_def

definition rseq_set_event :: "nat \<Rightarrow> task_struct \<Rightarrow> task_struct" where
  "rseq_set_event n t = t\<lparr>tsk_rseq_event_mask := Bit_Operations.set_bit n (tsk_rseq_event_mask t)\<rparr>"

definition rseq_set_notify_resume :: "task_struct \<Rightarrow> task_struct" where
  "rseq_set_notify_resume t = (if tsk_rseq t \<noteq> 0 then set_tsk_thread_flag TIF_NOTIFY_RESUME t else t)"

text \<open>\<open>__rseq_handle_notify_resume\<close> is the argument.\<close>

definition rseq_handle_notify_resume :: "(task_struct \<Rightarrow> task_struct) \<Rightarrow> task_struct \<Rightarrow> task_struct" where
  "rseq_handle_notify_resume handle t = (if tsk_rseq t \<noteq> 0 then handle t else t)"

definition rseq_signal_deliver :: "(task_struct \<Rightarrow> task_struct) \<Rightarrow> task_struct \<Rightarrow> task_struct" where
  "rseq_signal_deliver handle t = rseq_handle_notify_resume handle (rseq_set_event RSEQ_EVENT_SIGNAL_BIT t)"

definition rseq_preempt :: "task_struct \<Rightarrow> task_struct" where
  "rseq_preempt t = rseq_set_notify_resume (rseq_set_event RSEQ_EVENT_PREEMPT_BIT t)"

definition rseq_migrate :: "task_struct \<Rightarrow> task_struct" where
  "rseq_migrate t = rseq_set_notify_resume (rseq_set_event RSEQ_EVENT_MIGRATE_BIT t)"

text \<open>\<open>rseq_fork\<close>; the first argument is whether \<open>CLONE_VM\<close> is set, the second the calling task.\<close>

definition rseq_fork :: "bool \<Rightarrow> task_struct \<Rightarrow> task_struct \<Rightarrow> task_struct" where
  "rseq_fork clone_vm cur_task t =
     (if clone_vm then t\<lparr>tsk_rseq := 0, tsk_rseq_sig := 0, tsk_rseq_event_mask := 0\<rparr>
      else t\<lparr>tsk_rseq := tsk_rseq cur_task, tsk_rseq_sig := tsk_rseq_sig cur_task,
             tsk_rseq_event_mask := tsk_rseq_event_mask cur_task\<rparr>)"

definition rseq_execve :: "task_struct \<Rightarrow> task_struct" where
  "rseq_execve t = t\<lparr>tsk_rseq := 0, tsk_rseq_sig := 0, tsk_rseq_event_mask := 0\<rparr>"

text \<open>
  A task with a registered area that was preempted or migrated is told so before it returns to user space; one without is
  left alone, which is what \<open>rseq_execve\<close> and a fork with shared memory make of it.
\<close>

lemma rseq_events:
  "bit (tsk_rseq_event_mask (rseq_preempt t)) RSEQ_EVENT_PREEMPT_BIT" "bit (tsk_rseq_event_mask (rseq_migrate t)) RSEQ_EVENT_MIGRATE_BIT"
  "tsk_rseq t \<noteq> 0 \<Longrightarrow> test_tsk_thread_flag TIF_NOTIFY_RESUME (rseq_preempt t)"
  "tsk_rseq t \<noteq> 0 \<Longrightarrow> test_tsk_thread_flag TIF_NOTIFY_RESUME (rseq_migrate t)"
  by (simp_all add: rseq_preempt_def rseq_migrate_def rseq_set_notify_resume_def rseq_set_event_def set_tsk_thread_flag_def
      test_tsk_thread_flag_def bit_simps rseq_bit_defs thread_flag_defs)

lemma rseq_unregistered:
  assumes "t' = rseq_execve t \<or> t' = rseq_fork True c t"
  shows "tsk_thread_flags (rseq_preempt t') = tsk_thread_flags t" "tsk_thread_flags (rseq_migrate t') = tsk_thread_flags t"
    "rseq_handle_notify_resume handle t' = t'"
  using assms by (auto simp: rseq_preempt_def rseq_migrate_def rseq_set_notify_resume_def rseq_set_event_def
      rseq_execve_def rseq_fork_def rseq_handle_notify_resume_def)

subsection \<open>Numbers of a task\<close>

text \<open>\<open>__task_pid_nr_ns\<close> is the argument \<open>nr\<close>; the missing namespace is that of the caller.\<close>

definition task_pid :: "task_struct \<Rightarrow> int option" where
  "task_pid t = tsk_thread_pid t"

definition pid_alive :: "task_struct \<Rightarrow> bool" where
  "pid_alive p \<longleftrightarrow> tsk_thread_pid p \<noteq> None"

type_synonym 'ns pid_lookup = "task_struct \<Rightarrow> pid_type \<Rightarrow> 'ns option \<Rightarrow> int"

definition task_pid_nr_ns :: "'ns pid_lookup \<Rightarrow> task_struct \<Rightarrow> 'ns \<Rightarrow> int" where "task_pid_nr_ns nr t ns = nr t PIDTYPE_PID (Some ns)"
definition task_pid_vnr :: "'ns pid_lookup \<Rightarrow> task_struct \<Rightarrow> int" where "task_pid_vnr nr t = nr t PIDTYPE_PID None"
definition task_pgrp_nr_ns :: "'ns pid_lookup \<Rightarrow> task_struct \<Rightarrow> 'ns \<Rightarrow> int" where "task_pgrp_nr_ns nr t ns = nr t PIDTYPE_PGID (Some ns)"
definition task_pgrp_vnr :: "'ns pid_lookup \<Rightarrow> task_struct \<Rightarrow> int" where "task_pgrp_vnr nr t = nr t PIDTYPE_PGID None"
definition task_session_nr_ns :: "'ns pid_lookup \<Rightarrow> task_struct \<Rightarrow> 'ns \<Rightarrow> int" where
  "task_session_nr_ns nr t ns = nr t PIDTYPE_SID (Some ns)"
definition task_session_vnr :: "'ns pid_lookup \<Rightarrow> task_struct \<Rightarrow> int" where "task_session_vnr nr t = nr t PIDTYPE_SID None"
definition task_tgid_nr_ns :: "'ns pid_lookup \<Rightarrow> task_struct \<Rightarrow> 'ns \<Rightarrow> int" where "task_tgid_nr_ns nr t ns = nr t PIDTYPE_TGID (Some ns)"
definition task_tgid_vnr :: "'ns pid_lookup \<Rightarrow> task_struct \<Rightarrow> int" where "task_tgid_vnr nr t = nr t PIDTYPE_TGID None"

definition task_ppid_nr_ns :: "'ns pid_lookup \<Rightarrow> (nat \<Rightarrow> task_struct option) \<Rightarrow> task_struct \<Rightarrow> 'ns \<Rightarrow> int" where
  "task_ppid_nr_ns nr ts t ns = (if pid_alive t then task_tgid_nr_ns nr (the (ts (tsk_real_parent t))) ns else 0)"

definition task_ppid_nr :: "'ns pid_lookup \<Rightarrow> 'ns \<Rightarrow> (nat \<Rightarrow> task_struct option) \<Rightarrow> task_struct \<Rightarrow> int" where
  "task_ppid_nr nr init_pid_ns ts t = task_ppid_nr_ns nr ts t init_pid_ns"

definition task_pgrp_nr :: "'ns pid_lookup \<Rightarrow> 'ns \<Rightarrow> task_struct \<Rightarrow> int" where
  "task_pgrp_nr nr init_pid_ns t = task_pgrp_nr_ns nr t init_pid_ns"

text \<open>If the lookup gives the global numbers in the first namespace, the parent's number is its thread group.\<close>

lemma task_ppid_nr_global:
  assumes "\<And>p. nr p PIDTYPE_TGID (Some init_pid_ns) = tsk_tgid p" and "ts (tsk_real_parent t) = Some q"
  shows "task_ppid_nr nr init_pid_ns ts t = (if pid_alive t then task_tgid_nr q else 0)"
  using assms by (simp add: task_ppid_nr_def task_ppid_nr_ns_def task_tgid_nr_ns_def task_tgid_nr_def)

subsection \<open>Processors and priorities\<close>

definition task_cpu :: "task_struct \<Rightarrow> 32 word" where "task_cpu p = tsk_cpu p"

definition MAX_PRIO :: int where "MAX_PRIO = 140"
definition DEFAULT_PRIO :: int where "DEFAULT_PRIO = 120"

text \<open>\<open>PRIO_TO_NICE\<close> subtracts the default priority.\<close>

definition task_nice :: "task_struct \<Rightarrow> int" where "task_nice p = tsk_static_prio p - DEFAULT_PRIO"

text \<open>Without \<open>CONFIG_SMP\<close> a mask of processors must contain the only one.\<close>

definition set_cpus_allowed_ptr :: "nat set \<Rightarrow> int" where
  "set_cpus_allowed_ptr new_mask = (if 0 \<notin> new_mask then - EINVAL else 0)"

text \<open>A priority of a normal task, from 100 up, is a nice value from -20 to 19.\<close>

lemma task_nice_range: "100 \<le> tsk_static_prio p \<Longrightarrow> tsk_static_prio p < MAX_PRIO \<Longrightarrow> - 20 \<le> task_nice p \<and> task_nice p \<le> 19"
  by (simp add: task_nice_def MAX_PRIO_def DEFAULT_PRIO_def)

end
