(* ===== verification/Stack_Account.thy ===== *)
theory Stack_Account
  imports Prelude
begin

section \<open>Accounting of kernel stacks (Assignment2-1, fork.c)\<close>

text \<open>
  A thread stack is \<open>THREAD_SIZE / PAGE_SIZE\<close> pages.  Their size is added to a counter of the memory zone each page is
  in, and to a counter of the control group each page is charged to.  A page of the stack with the address \<open>s\<close>
  is the pair of \<open>s\<close> and its index.  \<open>memcg_kmem_charge\<close> is an argument: its result, and the group that
  pays for the page, if any.  The loops of the source run over the indices of the pages.
\<close>

definition PAGE_SIZE :: int where "PAGE_SIZE = 4096"
definition THREAD_SIZE :: int where "THREAD_SIZE = 16384"

definition stack_pages :: "nat \<Rightarrow> (nat \<times> nat) list" where
  "stack_pages s = map (Pair s) [0..<nat (THREAD_SIZE div PAGE_SIZE)]"

record stack_acct =
  page_zone :: "nat \<times> nat \<Rightarrow> nat"
  page_memcg :: "nat \<times> nat \<Rightarrow> nat option"
  zone_kb :: "nat \<Rightarrow> int"
  memcg_kb :: "nat \<Rightarrow> int"

text \<open>A page without a group is not counted.\<close>

definition mod_memcg_page_state :: "int \<Rightarrow> nat \<times> nat \<Rightarrow> stack_acct \<Rightarrow> stack_acct" where
  "mod_memcg_page_state val pg a =
     (case page_memcg a pg of
        None \<Rightarrow> a
      | Some m \<Rightarrow> a\<lparr>memcg_kb := (memcg_kb a)(m := memcg_kb a m + val)\<rparr>)"

definition memcg_kmem_uncharge :: "nat \<times> nat \<Rightarrow> stack_acct \<Rightarrow> stack_acct" where
  "memcg_kmem_uncharge pg a = a\<lparr>page_memcg := (page_memcg a)(pg := None)\<rparr>"

fun charge_pages :: "(nat \<times> nat \<Rightarrow> int \<times> nat option) \<Rightarrow> (nat \<times> nat) list \<Rightarrow> stack_acct \<Rightarrow> int \<times> stack_acct" where
  "charge_pages charge [] a = (0, a)"
| "charge_pages charge (pg # pgs) a =
     (let (ret, m) = charge pg in
      if ret \<noteq> 0 then (ret, a)
      else charge_pages charge pgs (mod_memcg_page_state (PAGE_SIZE div 1024) pg (a\<lparr>page_memcg := (page_memcg a)(pg := m)\<rparr>)))"

definition memcg_charge_kernel_stack :: "(nat \<times> nat \<Rightarrow> int \<times> nat option) \<Rightarrow> nat \<Rightarrow> stack_acct \<Rightarrow> int \<times> stack_acct" where
  "memcg_charge_kernel_stack charge s a = charge_pages charge (stack_pages s) a"

text \<open>The first loop of \<open>free_thread_stack\<close>.\<close>

definition uncharge_kernel_stack :: "nat \<Rightarrow> stack_acct \<Rightarrow> stack_acct" where
  "uncharge_kernel_stack s a =
     fold (\<lambda>pg a. memcg_kmem_uncharge pg (mod_memcg_page_state (- (PAGE_SIZE div 1024)) pg a)) (stack_pages s) a"

definition account_kernel_stack :: "nat \<Rightarrow> int \<Rightarrow> stack_acct \<Rightarrow> stack_acct" where
  "account_kernel_stack s account a =
     fold (\<lambda>pg a. a\<lparr>zone_kb := (zone_kb a)(page_zone a pg := zone_kb a (page_zone a pg) + PAGE_SIZE div 1024 * account)\<rparr>)
       (stack_pages s) a"

subsection \<open>What is counted is taken back\<close>

text \<open>No page of the stack is charged to a group.\<close>

definition uncharged :: "nat \<Rightarrow> stack_acct \<Rightarrow> bool" where
  "uncharged s a \<longleftrightarrow> (\<forall>pg\<in>set (stack_pages s). page_memcg a pg = None)"

lemma uncharge_step:
  "page_memcg a pg = None \<Longrightarrow>
   memcg_kmem_uncharge pg (mod_memcg_page_state (- v) pg (mod_memcg_page_state v pg (a\<lparr>page_memcg := (page_memcg a)(pg := m)\<rparr>))) = a"
  by (cases a; cases m) (auto simp: mod_memcg_page_state_def memcg_kmem_uncharge_def fun_eq_iff)

lemma uncharge_idle: "page_memcg a pg = None \<Longrightarrow> memcg_kmem_uncharge pg (mod_memcg_page_state v pg a) = a"
  by (cases a) (auto simp: mod_memcg_page_state_def memcg_kmem_uncharge_def fun_eq_iff)

text \<open>Charging one page, and the step of the loop that takes it back.\<close>

definition drop_page :: "nat \<times> nat \<Rightarrow> stack_acct \<Rightarrow> stack_acct" where
  "drop_page pg a = memcg_kmem_uncharge pg (mod_memcg_page_state (- (PAGE_SIZE div 1024)) pg a)"

definition take_page :: "nat option \<Rightarrow> nat \<times> nat \<Rightarrow> stack_acct \<Rightarrow> stack_acct" where
  "take_page m pg a = mod_memcg_page_state (PAGE_SIZE div 1024) pg (a\<lparr>page_memcg := (page_memcg a)(pg := m)\<rparr>)"

lemma drop_take: "page_memcg a pg = None \<Longrightarrow> drop_page pg (take_page m pg a) = a"
  by (simp add: drop_page_def take_page_def uncharge_step)

lemma drop_all_idle: "(\<forall>pg\<in>set pgs. page_memcg a pg = None) \<Longrightarrow> fold drop_page pgs a = a"
  by (induction pgs arbitrary: a) (simp_all add: drop_page_def uncharge_idle)

lemma drop_comm: "drop_page p (drop_page q a) = drop_page q (drop_page p a)"
proof (cases "p = q")
  case False
  then show ?thesis
    by (cases a; cases "page_memcg a p"; cases "page_memcg a q")
      (auto simp: drop_page_def mod_memcg_page_state_def memcg_kmem_uncharge_def fun_eq_iff)
qed simp

lemma drop_all_comm: "fold drop_page pgs (drop_page pg a) = drop_page pg (fold drop_page pgs a)"
  by (induction pgs arbitrary: a) (simp_all add: drop_comm [of _ pg])

lemma charge_drop:
  assumes "distinct pgs" and "\<forall>pg\<in>set pgs. page_memcg a pg = None" and "charge_pages charge pgs a = (ret, a')"
  shows "fold drop_page pgs a' = a"
  using assms
proof (induction charge pgs a rule: charge_pages.induct)
  case (2 charge pg pgs a)
  obtain e m where c: "charge pg = (e, m)" by fastforce
  show ?case
  proof (cases "e = 0")
    case False
    then have "a' = a" using 2(4) c by simp
    then show ?thesis using 2(3) by (simp only: drop_all_idle)
  next
    case True
    have "fold drop_page pgs a' = take_page m pg a"
      unfolding take_page_def
      by (rule 2(1) [OF c [symmetric] refl]) (use 2(2-4) c True in \<open>auto simp: mod_memcg_page_state_def split: option.splits\<close>)
    then show ?thesis using 2(3) by (simp add: drop_all_comm drop_take)
  qed
qed simp

lemma stack_pages_distinct: "distinct (stack_pages s)"
  by (simp add: stack_pages_def distinct_map inj_on_def)

lemma uncharge_fold: "uncharge_kernel_stack s a = fold drop_page (stack_pages s) a"
  by (simp add: uncharge_kernel_stack_def drop_page_def [abs_def])

text \<open>
  Freeing a stack undoes the charging of its pages, also when \<open>memcg_kmem_charge\<close> refused one of them half way.
\<close>

lemma uncharge_charge:
  assumes "uncharged s a" and "memcg_charge_kernel_stack charge s a = (ret, a')"
  shows "uncharge_kernel_stack s a' = a"
  using assms charge_drop [OF stack_pages_distinct] by (simp add: uncharged_def memcg_charge_kernel_stack_def uncharge_fold)

lemma account_fold:
  "fold (\<lambda>pg a. a\<lparr>zone_kb := (zone_kb a)(page_zone a pg := zone_kb a (page_zone a pg) + v)\<rparr>) pgs a =
     a\<lparr>zone_kb := \<lambda>z. zone_kb a z + v * int (length (filter (\<lambda>pg. page_zone a pg = z) pgs))\<rparr>"
  by (induction pgs arbitrary: a) (auto simp: fun_eq_iff algebra_simps intro!: stack_acct.equality)

text \<open>The counter of a zone grows by the size of the pages in it.\<close>

lemma account_effect:
  "account_kernel_stack s n a =
     a\<lparr>zone_kb := \<lambda>z. zone_kb a z + n * 4 * int (length (filter (\<lambda>pg. page_zone a pg = z) (stack_pages s)))\<rparr>"
  by (simp add: account_kernel_stack_def account_fold PAGE_SIZE_def mult.commute)

lemma account_undo: "account_kernel_stack s (- n) (account_kernel_stack s n a) = a"
  by (cases a) (simp add: account_effect)

lemma account_frame [simp]:
  "page_memcg (account_kernel_stack s n a) = page_memcg a" "page_zone (account_kernel_stack s n a) = page_zone a"
  "memcg_kb (account_kernel_stack s n a) = memcg_kb a"
  by (simp_all add: account_effect)

lemma charge_frame:
  "charge_pages charge pgs a = (ret, a') \<Longrightarrow> page_zone a' = page_zone a \<and> zone_kb a' = zone_kb a
     \<and> (\<forall>pg. pg \<notin> set pgs \<longrightarrow> page_memcg a' pg = page_memcg a pg)"
  by (induction charge pgs a rule: charge_pages.induct) (auto simp: mod_memcg_page_state_def split: prod.splits if_splits option.splits)

text \<open>The charge of one stack leaves the others alone.\<close>

lemma charge_other:
  assumes "memcg_charge_kernel_stack charge s a = (ret, a')" and "s' \<noteq> s"
  shows "uncharged s' a' = uncharged s' a"
proof -
  have "pg \<notin> set (stack_pages s)" if "pg \<in> set (stack_pages s')" for pg using that assms(2) by (auto simp: stack_pages_def)
  then show ?thesis using charge_frame [OF assms(1) [unfolded memcg_charge_kernel_stack_def]] by (auto simp: uncharged_def)
qed

end
