(* ===== verification/Kernel.thy ===== *)
theory Kernel
  imports Task_Ops Stack_Account
begin

section \<open>Kernel objects (Assignment2-1, fork.c)\<close>

text \<open>
  The objects that tasks share and the kernel state \<open>kern\<close> that holds them: memory descriptors,
  file system and file table structures, signal handler tables and signal structures, each with its
  reference count, thread stacks with the two-slot cache and their accounting, the users of seccomp filters, and the
  counters of \<^verbatim>\<open>fork.c\<close>.
  State of the subsystems outside \<^verbatim>\<open>fork.c\<close> is the field \<open>ext\<close>, of an arbitrary type; their
  functions are arguments of the operations that call them.
\<close>

definition CSIGNAL :: "64 word" where "CSIGNAL = 0x000000ff"
definition CLONE_VM :: "64 word" where "CLONE_VM = 0x00000100"
definition CLONE_FS :: "64 word" where "CLONE_FS = 0x00000200"
definition CLONE_FILES :: "64 word" where "CLONE_FILES = 0x00000400"
definition CLONE_SIGHAND :: "64 word" where "CLONE_SIGHAND = 0x00000800"
definition CLONE_PIDFD :: "64 word" where "CLONE_PIDFD = 0x00001000"
definition CLONE_PTRACE :: "64 word" where "CLONE_PTRACE = 0x00002000"
definition CLONE_VFORK :: "64 word" where "CLONE_VFORK = 0x00004000"
definition CLONE_PARENT :: "64 word" where "CLONE_PARENT = 0x00008000"
definition CLONE_THREAD :: "64 word" where "CLONE_THREAD = 0x00010000"
definition CLONE_NEWNS :: "64 word" where "CLONE_NEWNS = 0x00020000"
definition CLONE_SYSVSEM :: "64 word" where "CLONE_SYSVSEM = 0x00040000"
definition CLONE_SETTLS :: "64 word" where "CLONE_SETTLS = 0x00080000"
definition CLONE_PARENT_SETTID :: "64 word" where "CLONE_PARENT_SETTID = 0x00100000"
definition CLONE_CHILD_CLEARTID :: "64 word" where "CLONE_CHILD_CLEARTID = 0x00200000"
definition CLONE_DETACHED :: "64 word" where "CLONE_DETACHED = 0x00400000"
definition CLONE_UNTRACED :: "64 word" where "CLONE_UNTRACED = 0x00800000"
definition CLONE_CHILD_SETTID :: "64 word" where "CLONE_CHILD_SETTID = 0x01000000"
definition CLONE_NEWCGROUP :: "64 word" where "CLONE_NEWCGROUP = 0x02000000"
definition CLONE_NEWUTS :: "64 word" where "CLONE_NEWUTS = 0x04000000"
definition CLONE_NEWIPC :: "64 word" where "CLONE_NEWIPC = 0x08000000"
definition CLONE_NEWUSER :: "64 word" where "CLONE_NEWUSER = 0x10000000"
definition CLONE_NEWPID :: "64 word" where "CLONE_NEWPID = 0x20000000"
definition CLONE_NEWNET :: "64 word" where "CLONE_NEWNET = 0x40000000"
definition CLONE_IO :: "64 word" where "CLONE_IO = 0x80000000"
definition CLONE_LEGACY_FLAGS :: "64 word" where "CLONE_LEGACY_FLAGS = 0xffffffff"

lemmas clone_flag_defs = CSIGNAL_def CLONE_VM_def CLONE_FS_def CLONE_FILES_def CLONE_SIGHAND_def
  CLONE_PIDFD_def CLONE_PTRACE_def CLONE_VFORK_def CLONE_PARENT_def CLONE_THREAD_def CLONE_NEWNS_def
  CLONE_SYSVSEM_def CLONE_SETTLS_def CLONE_PARENT_SETTID_def CLONE_CHILD_CLEARTID_def CLONE_DETACHED_def
  CLONE_UNTRACED_def CLONE_CHILD_SETTID_def CLONE_NEWCGROUP_def CLONE_NEWUTS_def CLONE_NEWIPC_def
  CLONE_NEWUSER_def CLONE_NEWPID_def CLONE_NEWNET_def CLONE_IO_def CLONE_LEGACY_FLAGS_def

text \<open>\<open>flags & mask\<close> as a condition.\<close>

definition has :: "64 word \<Rightarrow> 64 word \<Rightarrow> bool" where
  "has fl bits \<longleftrightarrow> fl AND bits \<noteq> 0"

subsection \<open>Objects\<close>

record vm_area =
  vm_start :: "64 word"
  vm_end :: "64 word"
  vm_flags :: "64 word"
  vm_file :: "nat option"
  vm_mm :: nat

record vm_counters =
  total_vm :: "64 word"
  data_vm :: "64 word"
  exec_vm :: "64 word"
  stack_vm :: "64 word"

record mm_struct =
  mm_mmap :: "vm_area list"
  mm_users :: nat
  mm_count :: nat
  mmap_readers :: nat
  map_count :: nat
  locked_vm :: "64 word"
  mm_counters :: vm_counters
  mm_flags :: "64 word"
  def_flags :: "64 word"
  exe_file :: "nat option"
  mm_owner :: "nat option"
  mm_code :: "64 word \<times> 64 word"
  mm_data :: "64 word \<times> 64 word"
  mm_brk :: "64 word \<times> 64 word"
  binfmt :: "nat option"

record fs_struct =
  fs_users :: nat
  in_exec :: bool

record files_struct =
  files_count :: nat
  fd_array :: "nat option list"

record sighand_struct =
  sighand_count :: nat
  sig_action :: "nat list"

record signal_struct =
  sig_nr_threads :: nat
  live :: nat
  sigcnt :: nat
  thread_head :: "nat list"
  multiprocess :: nat
  sig_flags :: "32 word"
  rlim_nproc :: nat
  oom_score_adj :: int
  oom_score_adj_min :: int
  oom_mm :: "nat option"
  has_child_subreaper :: bool
  is_child_subreaper :: bool
  sig_pids :: "pid_type \<Rightarrow> int option"

text \<open>
  References to mapped files, their inodes' and address spaces' counters, the committed memory in
  pages, and the number of allocated areas.
\<close>

record map_refs =
  file_refs :: "nat \<Rightarrow> int"
  i_writecount :: "nat \<Rightarrow> int"
  i_mmap_writable :: "nat \<Rightarrow> int"
  i_mmap :: "nat \<Rightarrow> int"
  committed :: int
  vm_areas :: int

record 'x kern =
  tasks :: "nat \<Rightarrow> task_struct option"
  task_slab :: "nat \<Rightarrow> bool"
  task_list :: "nat list"
  mms :: "nat \<Rightarrow> mm_struct option"
  fss :: "nat \<Rightarrow> fs_struct option"
  filess :: "nat \<Rightarrow> files_struct option"
  sighands :: "nat \<Rightarrow> sighand_struct option"
  signals :: "nat \<Rightarrow> signal_struct option"
  maps :: map_refs
  stacks :: "nat \<Rightarrow> bool"
  cached_stacks :: "nat option list"
  acct :: stack_acct
  filter_refs :: "nat \<Rightarrow> nat"
  nr_threads :: int
  max_threads :: int
  total_forks :: "64 word"
  process_counts :: int
  current :: nat
  ext :: 'x

abbreviation cur :: "'x kern \<Rightarrow> task_struct" where
  "cur k \<equiv> the (tasks k (current k))"

abbreviation cur_signal :: "'x kern \<Rightarrow> signal_struct" where
  "cur_signal k \<equiv> the (signals k (tsk_signal (cur k)))"

text \<open>Updating one object of a heap.\<close>

definition upd :: "nat \<Rightarrow> ('a \<Rightarrow> 'a) \<Rightarrow> (nat \<Rightarrow> 'a option) \<Rightarrow> nat \<Rightarrow> 'a option" where
  "upd a f h = h(a := map_option f (h a))"

lemma upd_simps [simp]:
  "upd a f h a = map_option f (h a)" "b \<noteq> a \<Longrightarrow> upd a f h b = h b"
  by (simp_all add: upd_def)

lemma upd_upd [simp]: "upd a f (upd a g h) = upd a (f \<circ> g) h"
  by (simp add: upd_def option.map_comp)

lemma upd_id: "(\<And>x. h a = Some x \<Longrightarrow> f x = x) \<Longrightarrow> upd a f h = h"
  by (cases "h a") (auto simp: upd_def fun_upd_idem)

lemma upd_new [simp]: "(upd a f (h(a \<mapsto> x))) = h(a \<mapsto> f x)"
  by (simp add: upd_def)

subsection \<open>Thread stacks\<close>

definition NR_CACHED_STACKS :: nat where "NR_CACHED_STACKS = 2"

text \<open>The first cached stack, with its slot emptied.\<close>

fun take_cached :: "nat option list \<Rightarrow> (nat \<times> nat option list) option" where
  "take_cached [] = None"
| "take_cached (Some s # slots) = Some (s, None # slots)"
| "take_cached (None # slots) = map_option (\<lambda>(s, slots'). (s, None # slots')) (take_cached slots)"

text \<open>The stack put into the first empty slot, if there is one.\<close>

fun put_cached :: "nat \<Rightarrow> nat option list \<Rightarrow> nat option list option" where
  "put_cached s [] = None"
| "put_cached s (None # slots) = Some (Some s # slots)"
| "put_cached s (Some t # slots) = map_option ((#) (Some t)) (put_cached s slots)"

text \<open>\<open>__vmalloc_node_range\<close> is the argument: the address of a new stack, or none.\<close>

definition alloc_thread_stack_node :: "nat option \<Rightarrow> 'x kern \<Rightarrow> nat option \<times> 'x kern" where
  "alloc_thread_stack_node vmalloc k =
     (case take_cached (cached_stacks k) of
        Some (s, slots) \<Rightarrow> (Some s, k\<lparr>cached_stacks := slots\<rparr>)
      | None \<Rightarrow>
          (case vmalloc of
             None \<Rightarrow> (None, k)
           | Some s \<Rightarrow> (Some s, k\<lparr>stacks := (stacks k)(s := True)\<rparr>)))"

definition free_thread_stack :: "nat \<Rightarrow> 'x kern \<Rightarrow> 'x kern" where
  "free_thread_stack s k =
     (let k1 = k\<lparr>acct := uncharge_kernel_stack s (acct k)\<rparr> in
      case put_cached s (cached_stacks k) of
        Some slots \<Rightarrow> k1\<lparr>cached_stacks := slots\<rparr>
      | None \<Rightarrow> k1\<lparr>stacks := (stacks k)(s := False)\<rparr>)"

definition free_vm_stack_cache :: "'x kern \<Rightarrow> 'x kern" where
  "free_vm_stack_cache k =
     k\<lparr>stacks := foldl (\<lambda>st slot. case slot of None \<Rightarrow> st | Some s \<Rightarrow> st(s := False)) (stacks k) (cached_stacks k),
       cached_stacks := map (\<lambda>_. None) (cached_stacks k)\<rparr>"

text \<open>\<open>release_task_stack\<close> leaks the stack of a task that is not dead.\<close>

definition release_task_stack :: "task_struct \<Rightarrow> 'x kern \<Rightarrow> task_struct \<times> 'x kern" where
  "release_task_stack p k =
     (if tsk_state p \<noteq> TASK_DEAD then (p, k)
      else case tsk_stack p of
             None \<Rightarrow> (p, k)
           | Some s \<Rightarrow> (p\<lparr>tsk_stack := None\<rparr>, free_thread_stack s (k\<lparr>acct := account_kernel_stack s (- 1) (acct k)\<rparr>)))"

definition put_task_stack :: "task_struct \<Rightarrow> 'x kern \<Rightarrow> task_struct \<times> 'x kern" where
  "put_task_stack p k =
     (let p = p\<lparr>tsk_stack_refcount := tsk_stack_refcount p - 1\<rparr> in
      if tsk_stack_refcount p = 0 then release_task_stack p k else (p, k))"

subsection \<open>Memory descriptors\<close>

definition mmget :: "nat \<Rightarrow> 'x kern \<Rightarrow> 'x kern" where
  "mmget a k = k\<lparr>mms := upd a (\<lambda>m. m\<lparr>mm_users := mm_users m + 1\<rparr>) (mms k)\<rparr>"

definition get_file :: "nat \<Rightarrow> map_refs \<Rightarrow> map_refs" where
  "get_file f r = r\<lparr>file_refs := (file_refs r)(f := file_refs r f + 1)\<rparr>"

definition fput :: "nat \<Rightarrow> map_refs \<Rightarrow> map_refs" where
  "fput f r = r\<lparr>file_refs := (file_refs r)(f := file_refs r f - 1)\<rparr>"

definition set_mm_exe_file :: "nat option \<Rightarrow> mm_struct \<Rightarrow> map_refs \<Rightarrow> mm_struct \<times> map_refs" where
  "set_mm_exe_file new m r =
     (let r1 = (case new of None \<Rightarrow> r | Some f \<Rightarrow> get_file f r) in
      (m\<lparr>exe_file := new\<rparr>, case exe_file m of None \<Rightarrow> r1 | Some f \<Rightarrow> fput f r1))"

text \<open>\<open>get_file_rcu\<close> fails on a file without references.\<close>

definition get_mm_exe_file :: "mm_struct \<Rightarrow> map_refs \<Rightarrow> nat option \<times> map_refs" where
  "get_mm_exe_file m r =
     (case exe_file m of
        None \<Rightarrow> (None, r)
      | Some f \<Rightarrow> if file_refs r f = 0 then (None, r) else (Some f, get_file f r))"

definition get_task_exe_file :: "task_struct \<Rightarrow> 'x kern \<Rightarrow> nat option \<times> 'x kern" where
  "get_task_exe_file t k =
     (case tsk_mm t of
        None \<Rightarrow> (None, k)
      | Some a \<Rightarrow>
          if tsk_flags t AND PF_KTHREAD \<noteq> 0 then (None, k)
          else let (f, r) = get_mm_exe_file (the (mms k a)) (maps k) in (f, k\<lparr>maps := r\<rparr>))"

definition get_task_mm :: "task_struct \<Rightarrow> 'x kern \<Rightarrow> nat option \<times> 'x kern" where
  "get_task_mm t k =
     (case tsk_mm t of
        None \<Rightarrow> (None, k)
      | Some a \<Rightarrow> if tsk_flags t AND PF_KTHREAD \<noteq> 0 then (None, k) else (Some a, mmget a k))"

text \<open>
  Dropping the last user of a descriptor: \<open>exit_mmap\<close>, an argument, undoes what the mappings hold; then the
  executable's reference and the descriptor itself go.
\<close>

definition mmdrop :: "nat \<Rightarrow> 'x kern \<Rightarrow> 'x kern" where
  "mmdrop a k =
     (case mms k a of
        None \<Rightarrow> k
      | Some m \<Rightarrow> k\<lparr>mms := (mms k)(a := if mm_count m \<le> 1 then None else Some (m\<lparr>mm_count := mm_count m - 1\<rparr>))\<rparr>)"

definition last_mmput :: "(mm_struct \<Rightarrow> map_refs \<Rightarrow> map_refs) \<Rightarrow> nat \<Rightarrow> 'x kern \<Rightarrow> 'x kern" where
  "last_mmput exit_mmap a k =
     (case mms k a of
        None \<Rightarrow> k
      | Some m \<Rightarrow>
          let (m', r) = set_mm_exe_file None (m\<lparr>mm_mmap := []\<rparr>) (exit_mmap m (maps k)) in
          mmdrop a (k\<lparr>mms := (mms k)(a \<mapsto> m'), maps := r\<rparr>))"

definition mmput :: "(mm_struct \<Rightarrow> map_refs \<Rightarrow> map_refs) \<Rightarrow> nat \<Rightarrow> 'x kern \<Rightarrow> 'x kern" where
  "mmput exit_mmap a k =
     (let k1 = k\<lparr>mms := upd a (\<lambda>m. m\<lparr>mm_users := mm_users m - 1\<rparr>) (mms k)\<rparr> in
      case mms k1 a of
        None \<Rightarrow> k
      | Some m \<Rightarrow> if mm_users m = 0 then last_mmput exit_mmap a k1 else k1)"

text \<open>\<open>mm_access\<close>: a reference to another task's descriptor, if \<open>ptrace_may_access\<close> allows it.\<close>

definition mm_access ::
  "(mm_struct \<Rightarrow> map_refs \<Rightarrow> map_refs) \<Rightarrow> int \<Rightarrow> bool \<Rightarrow> task_struct \<Rightarrow> 'x kern \<Rightarrow> (int + nat option) \<times> 'x kern" where
  "mm_access exit_mmap down_read may_access t k =
     (if down_read \<noteq> 0 then (Inl down_read, k)
      else
        let (mm, k1) = get_task_mm t k in
        case mm of
          None \<Rightarrow> (Inr None, k1)
        | Some a \<Rightarrow>
            if mm \<noteq> tsk_mm (cur k) \<and> \<not> may_access then (Inl (- EACCES), mmput exit_mmap a k1)
            else (Inr mm, k1))"

subsection \<open>Signal handlers\<close>

definition cleanup_sighand :: "nat \<Rightarrow> 'x kern \<Rightarrow> 'x kern" where
  "cleanup_sighand a k =
     (case sighands k a of
        None \<Rightarrow> k
      | Some s \<Rightarrow> k\<lparr>sighands := (sighands k)(a := if sighand_count s \<le> 1 then None
                                                  else Some (s\<lparr>sighand_count := sighand_count s - 1\<rparr>))\<rparr>)"

subsection \<open>Thread limits\<close>

definition MIN_THREADS :: int where "MIN_THREADS = 20"

text \<open>
  \<open>set_max_threads\<close>; \<open>FUTEX_TID_MASK\<close> (the value of \<open>MAX_THREADS\<close>), the number of pages and the
  page and thread sizes are arguments, and the product and quotients are those of 64-bit words.
\<close>

definition set_max_threads :: "int \<Rightarrow> 64 word \<Rightarrow> 64 word \<Rightarrow> 64 word \<Rightarrow> 32 word \<Rightarrow> 'x kern \<Rightarrow> 'x kern" where
  "set_max_threads MAX_THREADS nr_pages page_size thread_size suggested k =
     (let threads = (if fls_nat (unat nr_pages) + fls_nat (unat page_size) > 64 then MAX_THREADS
                     else uint ((nr_pages * page_size) div (thread_size * 8)));
          threads = (if threads > uint suggested then uint suggested else threads) in
      k\<lparr>max_threads := min (max threads MIN_THREADS) MAX_THREADS\<rparr>)"

text \<open>\<open>sysctl_max_threads\<close>, with the result of \<open>proc_dointvec_minmax\<close> and the value it parsed.\<close>

definition sysctl_max_threads :: "int \<Rightarrow> int \<Rightarrow> bool \<Rightarrow> 'x kern \<Rightarrow> int \<times> 'x kern" where
  "sysctl_max_threads ret threads write_access k =
     (if ret \<noteq> 0 \<or> \<not> write_access then (ret, k) else (0, k\<lparr>max_threads := threads\<rparr>))"

end
