(* ===== verification/Tracer.thy ===== *)
theory Tracer
  imports Hooks Kernel
begin

section \<open>Process tracer (Assignment2-1, Process\_tracer.c)\<close>

text \<open>
  The module that replaces system call 336 by a report on a process.  It reads the tasks of the kernel and
  appends lines to the log.  \<open>pid_task(find_vpid(nr))\<close> is the parameter \<open>find_task\<close>, and what the saved
  handler does is the parameter \<open>run\<close>.
\<close>

text \<open>The page helpers of this module: no check for an unmapped address, and both test the bit.\<close>

definition tracer_make_rw :: page_op where
  "tracer_make_rw env m =
     (case page_of env 0 of
        None \<Rightarrow> Inl Null_Pointer
      | Some g \<Rightarrow> Inr (if ptes m g AND PAGE_RW = 0 then pte_set_rw g m else m))"

definition tracer_make_ro :: page_op where
  "tracer_make_ro env m =
     (case page_of env 0 of
        None \<Rightarrow> Inl Null_Pointer
      | Some g \<Rightarrow> Inr (if ptes m g AND PAGE_RW \<noteq> 0 then pte_clear_rw g m else m))"

interpretation tracer_pages: page_helpers tracer_make_rw tracer_make_ro
  by unfold_locales (simp_all add: tracer_make_rw_def tracer_make_ro_def)

definition NR_tracer :: nat where "NR_tracer = 336"

subsection \<open>The report\<close>

definition state_to_string :: "64 word \<Rightarrow> string" where
  "state_to_string state =
     (if state = TASK_RUNNING then ''Running or ready''
      else if state = TASK_INTERRUPTIBLE then ''Wait''
      else if state = TASK_UNINTERRUPTIBLE then ''Wait with ignoring all signals''
      else if state = TASK_STOPPED then ''Stopped''
      else if state = EXIT_ZOMBIE then ''Zombie process''
      else if state = EXIT_DEAD then ''DEAD''
      else ''etc'')"

definition oslab :: "string \<Rightarrow> string" where
  "oslab s = ''[OSLab.] '' @ s @ [newline]"

definition quotes :: string where
  "quotes = [CHR 0x27, CHR 0x27]"

definition named :: "int \<Rightarrow> string \<Rightarrow> string" where
  "named pid comm = ''['' @ show_d pid @ ''] '' @ comm"

text \<open>A list of tasks, one line each, and the line with their number.\<close>

primrec list_tasks :: "('x kern) \<Rightarrow> (task_struct \<Rightarrow> bool) \<Rightarrow> nat list \<Rightarrow> int \<Rightarrow> string list \<Rightarrow> int \<times> string list" where
  "list_tasks k keep_task [] cnt ls = (cnt, ls)"
| "list_tasks k keep_task (a # pos) cnt ls =
     (let t = the (tasks k a) in
      if keep_task t then list_tasks k keep_task pos (cnt + 1) (ls @ [oslab (''   > '' @ named (tsk_pid t) (tsk_comm t))])
      else list_tasks k keep_task pos cnt ls)"

text \<open>The lines of the report on \<open>task\<close>.\<close>

definition task_report :: "'x kern \<Rightarrow> int \<Rightarrow> task_struct \<Rightarrow> string list" where
  "task_report k trace_task task =
     (let leader = the (tasks k (tsk_group_leader task));
          parent = the (tasks k (tsk_parent task));
          (sibling_cnt, siblings) = list_tasks k (\<lambda>t. tsk_pid t \<noteq> tsk_pid task) (tsk_children parent) 0 [];
          (child_cnt, children) = list_tasks k (\<lambda>_. True) (tsk_children task) 0 [] in
      [oslab (''##### TASK INFORMATION of '' @ quotes @ named trace_task (tsk_comm task) @ quotes @ '' #####''),
       oslab (''- task state : '' @ state_to_string (tsk_state task)),
       oslab (''- Process Group Leader : '' @ named (tsk_pid leader) (tsk_comm leader)),
       oslab (''- # of context-switch(es) : '' @ show_d (uint (tsk_nvcsw task + tsk_nivcsw task))),
       oslab (''- Number of calling fork() : '' @ show_d (sint (tsk_fork_count task))),
       oslab (''- its parent process : '' @ named (tsk_pid parent) (tsk_comm parent)),
       oslab ''- its sibling process(es) : '']
      @ siblings
      @ [if sibling_cnt = 0 then oslab ''   > It has no sibling.''
         else oslab (''   > This process has '' @ show_d sibling_cnt @ '' sibling process(es)''),
         oslab ''- its child process(es) : '']
      @ children
      @ [if child_cnt = 0 then oslab ''   > It has no child.''
         else oslab (''   > This process has '' @ show_d child_cnt @ '' child process(es)''),
         oslab ''##### END OF INFORMATION #####''])"

definition process_tracer :: "(int \<Rightarrow> nat option) \<Rightarrow> 'x kern \<Rightarrow> int \<Rightarrow> machine \<Rightarrow> int \<times> machine" where
  "process_tracer find_task k trace_task m =
     (case find_task trace_task of
        None \<Rightarrow> (- ESRCH, m)
      | Some a \<Rightarrow> (trace_task, m\<lparr>klog := klog m @ map Printk (task_report k trace_task (the (tasks k a)))\<rparr>))"

subsection \<open>The hook\<close>

definition os_ftrace_trampoline ::
    "(handler \<Rightarrow> pt_regs \<Rightarrow> machine \<Rightarrow> machine outcome) \<Rightarrow> (int \<Rightarrow> nat option) \<Rightarrow> 'x kern \<Rightarrow> pt_regs \<Rightarrow> hook_state
      \<Rightarrow> (int \<times> hook_state) outcome" where
  "os_ftrace_trampoline run find_task k regs s =
     (let pid = wrap32 (di regs) in
      bind_outcome
        (case real_call s of
           Null_Handler \<Rightarrow> Inr (mach s)
         | Os_ftrace_trampoline \<Rightarrow> Inl Diverges
         | h \<Rightarrow> run h regs (mach s))
        (\<lambda>m. let (r, m1) = process_tracer find_task k pid m in Inr (r, s\<lparr>mach := m1\<rparr>)))"

definition tracer_hook_init :: "kenv \<Rightarrow> hook_state \<Rightarrow> (int \<times> hook_state) outcome" where
  "tracer_hook_init env s =
     (if \<not> symbol env then
        Inr (- 1, on_mach (log_line (''Couldn't find sys_call_table'' @ [newline])) (s\<lparr>have_table := False\<rparr>))
      else
        let s1 = s\<lparr>have_table := True, real_call := table (mach s) NR_tracer\<rparr> in
        bind_outcome (replace_entries tracer_make_rw tracer_make_ro env [(NR_tracer, Os_ftrace_trampoline)] (mach s1))
          (\<lambda>m. Inr (0, s1\<lparr>mach := m\<rparr>)))"

definition tracer_hook_exit :: "kenv \<Rightarrow> hook_state \<Rightarrow> hook_state outcome" where
  "tracer_hook_exit env s =
     (if have_table s \<and> real_call s \<noteq> Null_Handler then
        bind_outcome (replace_entries tracer_make_rw tracer_make_ro env [(NR_tracer, real_call s)] (mach s))
          (\<lambda>m. Inr (s\<lparr>mach := m\<rparr>))
      else Inr s)"

interpretation tracer: syscall_hook NR_tracer Os_ftrace_trampoline mach tracer_hook_init tracer_hook_exit
  "\<lambda>s h. have_table s \<and> real_call s = h"
  by unfold_locales (simp_all add: tracer_hook_init_def tracer_hook_exit_def Let_def tracer_pages.replaces)

subsection \<open>What the report says\<close>

lemma list_tasks_eq:
  "list_tasks k keep_task as cnt ls =
     (let ts = filter keep_task (map (the \<circ> tasks k) as) in
      (cnt + int (length ts), ls @ map (\<lambda>t. oslab (''   > '' @ named (tsk_pid t) (tsk_comm t))) ts))"
  by (induction as arbitrary: cnt ls) (simp_all add: Let_def)

lemma task_report_lines:
  "oslab (''- Number of calling fork() : '' @ show_d (sint (tsk_fork_count task))) \<in> set (task_report k pid task)"
  "a \<in> set (tsk_children task) \<Longrightarrow> oslab (''   > '' @ named (tsk_pid (the (tasks k a))) (tsk_comm (the (tasks k a)))) \<in> set (task_report k pid task)"
  "tsk_children task \<noteq> [] \<Longrightarrow>
     oslab (''   > This process has '' @ show_d (int (length (tsk_children task))) @ '' child process(es)'') \<in> set (task_report k pid task)"
proof -
  show "oslab (''- Number of calling fork() : '' @ show_d (sint (tsk_fork_count task))) \<in> set (task_report k pid task)"
    unfolding task_report_def list_tasks_eq Let_def case_prod_conv set_append by (rule UnI1) simp
  show "oslab (''   > '' @ named (tsk_pid (the (tasks k a))) (tsk_comm (the (tasks k a)))) \<in> set (task_report k pid task)" if "a \<in> set (tsk_children task)"
    unfolding task_report_def list_tasks_eq Let_def case_prod_conv set_append
    by (rule UnI2, rule UnI2, rule UnI2, rule UnI1, rule UnI2) (use that in auto)
  show "oslab (''   > This process has '' @ show_d (int (length (tsk_children task))) @ '' child process(es)'') \<in> set (task_report k pid task)"
    if "tsk_children task \<noteq> []"
    unfolding task_report_def list_tasks_eq Let_def case_prod_conv set_append
    by (rule UnI2, rule UnI2, rule UnI2, rule UnI2) (use that in simp)
qed

text \<open>
  The state that a task that has ended keeps in \<open>state\<close> is \<open>TASK_DEAD\<close>; \<open>EXIT_ZOMBIE\<close> and \<open>EXIT_DEAD\<close> are values of
  \<open>exit_state\<close>, so the report shows such a task as etc.
\<close>

lemma ended_task_state: "state_to_string TASK_DEAD = ''etc''"
  by (simp add: state_to_string_def task_state_defs)

end
