(* ===== verification/Copy_Mm.thy ===== *)
theory Copy_Mm
  imports Kernel
begin

section \<open>Copying an address space (Assignment2-1, fork.c)\<close>

text \<open>
  \<open>dup_mmap\<close>, \<open>mm_init\<close>, \<open>dup_mm\<close> and \<open>copy_mm\<close>.  What the functions they call outside
  \<^verbatim>\<open>fork.c\<close> return is the environment \<open>mm_env\<close>, with the outcomes for the area at position \<open>i\<close>
  of the list as functions of \<open>i\<close>.
\<close>

definition VM_SHARED :: "64 word" where "VM_SHARED = 0x00000008"
definition VM_DENYWRITE :: "64 word" where "VM_DENYWRITE = 0x00000800"
definition VM_LOCKED :: "64 word" where "VM_LOCKED = 0x00002000"
definition VM_DONTCOPY :: "64 word" where "VM_DONTCOPY = 0x00020000"
definition VM_LOCKONFAULT :: "64 word" where "VM_LOCKONFAULT = 0x00080000"
definition VM_ACCOUNT :: "64 word" where "VM_ACCOUNT = 0x00100000"
definition VM_WIPEONFORK :: "64 word" where "VM_WIPEONFORK = 0x02000000"

lemmas vm_flag_defs = VM_SHARED_def VM_DENYWRITE_def VM_LOCKED_def VM_DONTCOPY_def VM_LOCKONFAULT_def
  VM_ACCOUNT_def VM_WIPEONFORK_def

record mm_env =
  new_mm :: "nat option"
  pgd_ok :: bool
  context_err :: int
  mmap_killed :: bool
  ksm_err :: int
  khugepaged_err :: int
  vma_fatal :: "nat \<Rightarrow> bool"
  vma_enough :: "nat \<Rightarrow> bool"
  vma_alloc :: "nat \<Rightarrow> bool"
  vma_policy_err :: "nat \<Rightarrow> int"
  vma_uffd_err :: "nat \<Rightarrow> int"
  vma_anon_ok :: "nat \<Rightarrow> bool"
  vma_copy_err :: "nat \<Rightarrow> int"
  arch_dup_err :: int
  binfmt_ok :: bool
  vma_pages :: "64 word \<Rightarrow> 64 word \<Rightarrow> nat"
  inode_of :: "nat \<Rightarrow> nat"
  mapping_of :: "nat \<Rightarrow> nat"
  stat_account :: "64 word \<Rightarrow> int \<Rightarrow> vm_counters \<Rightarrow> vm_counters"
  exit_mmap :: "mm_struct \<Rightarrow> map_refs \<Rightarrow> map_refs"
  flags_mask :: "64 word"
  def_mask :: "64 word"
  dump_filter :: "64 word"

abbreviation pages_of :: "mm_env \<Rightarrow> vm_area \<Rightarrow> nat" where
  "pages_of env v \<equiv> vma_pages env (vm_start v) (vm_end v)"

subsection \<open>Areas\<close>

definition bump :: "int \<Rightarrow> nat \<Rightarrow> (nat \<Rightarrow> int) \<Rightarrow> nat \<Rightarrow> int" where
  "bump d a f = f(a := f a + d)"

text \<open>The copy of an area: \<open>vm_area_dup\<close> and the fields \<open>dup_mmap\<close> changes.\<close>

definition copy_vma :: "nat \<Rightarrow> vm_area \<Rightarrow> vm_area" where
  "copy_vma a v = v\<lparr>vm_mm := a, vm_flags := vm_flags v AND NOT (VM_LOCKED OR VM_LOCKONFAULT)\<rparr>"

definition alloc_vma :: "int \<Rightarrow> map_refs \<Rightarrow> map_refs" where
  "alloc_vma d r = r\<lparr>vm_areas := vm_areas r + d\<rparr>"

definition charge :: "int \<Rightarrow> map_refs \<Rightarrow> map_refs" where
  "charge n r = r\<lparr>committed := committed r + n\<rparr>"

text \<open>The references an area to a file takes: \<open>d\<close> is 1 to take and -1 to give back.\<close>

definition link_file :: "mm_env \<Rightarrow> int \<Rightarrow> vm_area \<Rightarrow> map_refs \<Rightarrow> map_refs" where
  "link_file env d v r =
     (case vm_file v of
        None \<Rightarrow> r
      | Some f \<Rightarrow>
          let r1 = r\<lparr>file_refs := bump d f (file_refs r)\<rparr>;
              r2 = (if has (vm_flags v) VM_DENYWRITE then r1\<lparr>i_writecount := bump (- d) (inode_of env f) (i_writecount r1)\<rparr> else r1);
              r3 = (if has (vm_flags v) VM_SHARED then r2\<lparr>i_mmap_writable := bump d (mapping_of env f) (i_mmap_writable r2)\<rparr> else r2) in
          r3\<lparr>i_mmap := bump d (mapping_of env f) (i_mmap r3)\<rparr>)"

definition vma_charge :: "mm_env \<Rightarrow> vm_area \<Rightarrow> int" where
  "vma_charge env v = (if has (vm_flags v) VM_ACCOUNT then int (pages_of env v) else 0)"

text \<open>
  The loop of \<open>dup_mmap\<close> over the areas of the parent, from position \<open>i\<close>: the error number, the new
  descriptor and the references.  An area that fails half way is freed and uncharged; one whose pages
  cannot be copied is already linked in.
\<close>

fun dup_vmas :: "mm_env \<Rightarrow> nat \<Rightarrow> nat \<Rightarrow> vm_area list \<Rightarrow> mm_struct \<Rightarrow> map_refs \<Rightarrow> int \<times> mm_struct \<times> map_refs" where
  "dup_vmas env a i [] m r = (0, m, r)"
| "dup_vmas env a i (v # vs) m r =
     (if has (vm_flags v) VM_DONTCOPY then
        dup_vmas env a (Suc i) vs
          (m\<lparr>mm_counters := stat_account env (vm_flags v) (- int (pages_of env v)) (mm_counters m)\<rparr>) r
      else if vma_fatal env i then (- EINTR, m, r)
      else if has (vm_flags v) VM_ACCOUNT \<and> \<not> vma_enough env i then (- ENOMEM, m, r)
      else
        let r1 = charge (vma_charge env v) r in
        if \<not> vma_alloc env i then (- ENOMEM, m, charge (- vma_charge env v) r1)
        else
          let r2 = alloc_vma 1 r1 in
          if vma_policy_err env i \<noteq> 0 \<or> vma_uffd_err env i \<noteq> 0 \<or> \<not> vma_anon_ok env i then
            (- ENOMEM, m, charge (- vma_charge env v) (alloc_vma (- 1) r2))
          else
            let tmp = copy_vma a v;
                r3 = link_file env 1 tmp r2;
                m1 = m\<lparr>mm_mmap := mm_mmap m @ [tmp], map_count := map_count m + 1\<rparr>;
                err = (if has (vm_flags tmp) VM_WIPEONFORK then 0 else vma_copy_err env i) in
            if err \<noteq> 0 then (err, m1, r3) else dup_vmas env a (Suc i) vs m1 r3)"

definition dup_mmap :: "mm_env \<Rightarrow> nat \<Rightarrow> mm_struct \<Rightarrow> mm_struct \<Rightarrow> map_refs \<Rightarrow> int \<times> mm_struct \<times> map_refs" where
  "dup_mmap env a mm oldmm r =
     (if mmap_killed env then (- EINTR, mm, r)
      else
        let (exe, r1) = get_mm_exe_file oldmm r;
            m1 = mm\<lparr>exe_file := exe, mm_counters := mm_counters oldmm\<rparr> in
        if ksm_err env \<noteq> 0 then (ksm_err env, m1, r1)
        else if khugepaged_err env \<noteq> 0 then (khugepaged_err env, m1, r1)
        else
          let (err, m2, r2) = dup_vmas env a 0 (mm_mmap oldmm) m1 r1 in
          if err \<noteq> 0 then (err, m2, r2) else (arch_dup_err env, m2, r2))"

subsection \<open>Descriptors\<close>

definition mm_init :: "mm_env \<Rightarrow> nat option \<Rightarrow> mm_struct option \<Rightarrow> mm_struct \<Rightarrow> mm_struct option" where
  "mm_init env owner cur_mm m =
     (let m1 = m\<lparr>mm_mmap := [], mm_users := 1, mm_count := 1, mmap_readers := 0, map_count := 0,
                  locked_vm := 0, mm_owner := owner, exe_file := None\<rparr>;
          m2 = (case cur_mm of
                  Some c \<Rightarrow> m1\<lparr>mm_flags := mm_flags c AND flags_mask env, def_flags := def_flags c AND def_mask env\<rparr>
                | None \<Rightarrow> m1\<lparr>mm_flags := dump_filter env, def_flags := 0\<rparr>) in
      if \<not> pgd_ok env then None
      else if context_err env \<noteq> 0 then None
      else Some m2)"

definition mm_zero :: mm_struct where
  "mm_zero = \<lparr>mm_mmap = [], mm_users = 0, mm_count = 0, mmap_readers = 0, map_count = 0, locked_vm = 0,
     mm_counters = \<lparr>total_vm = 0, data_vm = 0, exec_vm = 0, stack_vm = 0\<rparr>, mm_flags = 0, def_flags = 0,
     exe_file = None, mm_owner = None, mm_code = (0, 0), mm_data = (0, 0), mm_brk = (0, 0), binfmt = None\<rparr>"

definition mm_alloc :: "mm_env \<Rightarrow> 'x kern \<Rightarrow> nat option \<times> 'x kern" where
  "mm_alloc env k =
     (case new_mm env of
        None \<Rightarrow> (None, k)
      | Some a \<Rightarrow>
          (case mm_init env (Some (current k)) (Option.bind (tsk_mm (cur k)) (mms k)) mm_zero of
             None \<Rightarrow> (None, k)
           | Some m \<Rightarrow> (Some a, k\<lparr>mms := (mms k)(a \<mapsto> m)\<rparr>)))"

text \<open>\<open>dup_mm\<close> for the task at address \<open>t\<close>.\<close>

definition dup_mm :: "mm_env \<Rightarrow> nat \<Rightarrow> nat \<Rightarrow> 'x kern \<Rightarrow> nat option \<times> 'x kern" where
  "dup_mm env t old k =
     (case new_mm env of
        None \<Rightarrow> (None, k)
      | Some a \<Rightarrow>
          let oldmm = the (mms k old) in
          (case mm_init env (Some t) (Option.bind (tsk_mm (cur k)) (mms k)) oldmm of
             None \<Rightarrow> (None, k)
           | Some m \<Rightarrow>
               let (err, m1, r) = dup_mmap env a m oldmm (maps k) in
               if err \<noteq> 0 \<or> binfmt m1 \<noteq> None \<and> \<not> binfmt_ok env then
                 (None, mmput (exit_mmap env) a
                          (k\<lparr>mms := (mms k)(a \<mapsto> m1\<lparr>binfmt := None, mm_owner := None\<rparr>), maps := r\<rparr>))
               else (Some a, k\<lparr>mms := (mms k)(a \<mapsto> m1), maps := r\<rparr>)))"

definition copy_mm :: "mm_env \<Rightarrow> 64 word \<Rightarrow> nat \<Rightarrow> 'x kern \<Rightarrow> task_struct \<Rightarrow> (int + task_struct) \<times> 'x kern" where
  "copy_mm env clone_flags t k p =
     (let p1 = p\<lparr>tsk_min_flt := 0, tsk_maj_flt := 0, tsk_nvcsw := 0, tsk_nivcsw := 0,
                  tsk_mm := None, tsk_active_mm := None\<rparr> in
      case tsk_mm (cur k) of
        None \<Rightarrow> (Inr p1, k)
      | Some old \<Rightarrow>
          if has clone_flags CLONE_VM then
            (Inr (p1\<lparr>tsk_mm := Some old, tsk_active_mm := Some old\<rparr>), mmget old k)
          else
            (case dup_mm env t old k of
               (None, k1) \<Rightarrow> (Inl (- ENOMEM), k1)
             | (Some a, k1) \<Rightarrow> (Inr (p1\<lparr>tsk_mm := Some a, tsk_active_mm := Some a\<rparr>), k1)))"

definition mm_clear_owner :: "nat \<Rightarrow> nat \<Rightarrow> 'x kern \<Rightarrow> 'x kern" where
  "mm_clear_owner a t k = k\<lparr>mms := upd a (\<lambda>m. if mm_owner m = Some t then m\<lparr>mm_owner := None\<rparr> else m) (mms k)\<rparr>"

text \<open>The code at \<open>bad_fork_cleanup_mm\<close>.\<close>

definition cleanup_mm :: "mm_env \<Rightarrow> nat \<Rightarrow> task_struct \<Rightarrow> 'x kern \<Rightarrow> 'x kern" where
  "cleanup_mm env t p k =
     (case tsk_mm p of None \<Rightarrow> k | Some a \<Rightarrow> mmput (exit_mmap env) a (mm_clear_owner a t k))"

subsection \<open>Undoing\<close>

text \<open>
  What \<open>exit_mmap\<close> promises: it gives back what every area of the descriptor holds and frees it.
\<close>

definition release_vma :: "mm_env \<Rightarrow> vm_area \<Rightarrow> map_refs \<Rightarrow> map_refs" where
  "release_vma env v r = charge (- vma_charge env v) (alloc_vma (- 1) (link_file env (- 1) v r))"

definition exit_mmap_ok :: "mm_env \<Rightarrow> bool" where
  "exit_mmap_ok env \<longleftrightarrow> (\<forall>m r. exit_mmap env m r = fold (release_vma env) (mm_mmap m) r)"

definition hold_vma :: "mm_env \<Rightarrow> vm_area \<Rightarrow> map_refs \<Rightarrow> map_refs" where
  "hold_vma env v r = link_file env 1 v (alloc_vma 1 (charge (vma_charge env v) r))"

lemma bump_bump: "bump d a (bump e a f) = bump (d + e) a f" "bump 0 a f = f"
  by (auto simp: bump_def)

lemma bump_commute: "bump d a (bump e b f) = bump e b (bump d a f)"
  by (auto simp: bump_def)

lemma release_hold [simp]: "release_vma env v (hold_vma env v r) = r"
  by (cases r; cases "vm_file v")
    (simp_all add: release_vma_def hold_vma_def link_file_def alloc_vma_def charge_def Let_def bump_bump)

lemma link_commute: "link_file env d v (link_file env e w r) = link_file env e w (link_file env d v r)"
  by (cases r; cases "vm_file v"; cases "vm_file w")
    (simp_all add: link_file_def Let_def bump_commute [of d _ e] bump_commute [of "- d" _ "- e"])

lemma link_others:
  "link_file env d v (alloc_vma n r) = alloc_vma n (link_file env d v r)"
  "link_file env d v (charge n r) = charge n (link_file env d v r)"
  "alloc_vma n (charge q r) = charge q (alloc_vma n r)"
  "alloc_vma n (alloc_vma q r) = alloc_vma (n + q) r"
  "charge n (charge q r) = charge (n + q) r"
  by (cases "vm_file v"; simp add: link_file_def alloc_vma_def charge_def Let_def add.assoc add.commute)+

lemma release_hold_commute: "release_vma env v (hold_vma env w r) = hold_vma env w (release_vma env v r)"
  by (simp add: release_vma_def hold_vma_def link_others link_commute [of env "- 1"] add.commute)

lemma fold_release_hold: "fold (release_vma env) vs (hold_vma env w r) = hold_vma env w (fold (release_vma env) vs r)"
  by (induction vs arbitrary: r) (simp_all add: release_hold_commute)

lemma has_copy_vma [simp]:
  "has (vm_flags (copy_vma a v)) VM_ACCOUNT = has (vm_flags v) VM_ACCOUNT"
  "has (vm_flags (copy_vma a v)) VM_WIPEONFORK = has (vm_flags v) VM_WIPEONFORK"
  by (simp_all add: has_def copy_vma_def vm_flag_defs and.assoc)

lemma vma_charge_copy [simp]: "vma_charge env (copy_vma a v) = vma_charge env v"
  by (simp add: vma_charge_def) (simp add: copy_vma_def)

text \<open>
  On every path the loop appends copies of a prefix of the areas to copy, and what it leaves in the
  references is what these copies hold; without an error the copies are complete.
\<close>

definition to_copy :: "vm_area list \<Rightarrow> vm_area list" where
  "to_copy vs = filter (\<lambda>v. \<not> has (vm_flags v) VM_DONTCOPY) vs"

definition areas_copied ::
  "mm_env \<Rightarrow> nat \<Rightarrow> vm_area list \<Rightarrow> mm_struct \<Rightarrow> map_refs \<Rightarrow> int \<Rightarrow> mm_struct \<Rightarrow> map_refs \<Rightarrow> bool" where
  "areas_copied env a vs m r err m' r' \<longleftrightarrow>
     (\<exists>n cs. let new = map (copy_vma a) (take n (to_copy vs)) in
        (err = 0 \<longrightarrow> length (to_copy vs) \<le> n) \<and> r' = fold (hold_vma env) new r
        \<and> m' = m\<lparr>mm_mmap := mm_mmap m @ new, map_count := map_count m + length new, mm_counters := cs\<rparr>)"

lemma to_copy_simps [simp]:
  "to_copy [] = []" "to_copy (v # vs) = (if has (vm_flags v) VM_DONTCOPY then to_copy vs else v # to_copy vs)"
  by (simp_all add: to_copy_def)

lemma areas_copied_stop: "err \<noteq> 0 \<or> to_copy vs = [] \<Longrightarrow> areas_copied env a vs m r err m r"
  by (auto simp: areas_copied_def Let_def intro!: exI [of _ 0] exI [of _ "mm_counters m"])

lemma areas_copied_skip:
  assumes "has (vm_flags v) VM_DONTCOPY" and "areas_copied env a vs (m\<lparr>mm_counters := cs\<rparr>) r err m' r'"
  shows "areas_copied env a (v # vs) m r err m' r'"
  using assms by (auto simp: areas_copied_def Let_def)

lemma areas_copied_step:
  assumes "\<not> has (vm_flags v) VM_DONTCOPY"
    and "areas_copied env a vs (m\<lparr>mm_mmap := mm_mmap m @ [copy_vma a v], map_count := map_count m + 1\<rparr>)
          (hold_vma env (copy_vma a v) r) err m' r'"
  shows "areas_copied env a (v # vs) m r err m' r'"
proof -
  from assms(2) obtain n cs where "err = 0 \<longrightarrow> length (to_copy vs) \<le> n"
    "r' = fold (hold_vma env) (map (copy_vma a) (take n (to_copy vs))) (hold_vma env (copy_vma a v) r)"
    "m' = m\<lparr>mm_mmap := mm_mmap m @ copy_vma a v # map (copy_vma a) (take n (to_copy vs)),
           map_count := map_count m + Suc (length (map (copy_vma a) (take n (to_copy vs)))), mm_counters := cs\<rparr>"
    by (auto simp: areas_copied_def Let_def)
  then show ?thesis
    using assms(1) unfolding areas_copied_def Let_def by (intro exI [of _ "Suc n"] exI [of _ cs]) simp
qed

lemma dup_vmas_effect:
  "dup_vmas env a i vs m r = (err, m', r') \<Longrightarrow> areas_copied env a vs m r err m' r'"
proof (induction vs arbitrary: i m r)
  case Nil
  then show ?case using areas_copied_stop [of 0 "[]" env a m r] by simp
next
  case (Cons v vs)
  have undo: "charge (- c) (charge c r) = r" "charge (- c) (alloc_vma (- 1) (alloc_vma 1 (charge c r))) = r" for c
    by (cases r; simp add: charge_def alloc_vma_def)+
  show ?case
  proof (cases "has (vm_flags v) VM_DONTCOPY")
    case True
    with Cons.prems show ?thesis by (intro areas_copied_skip [OF True Cons.IH]) simp
  next
    case copied: False
    show ?thesis
    proof (cases "vma_fatal env i \<or> has (vm_flags v) VM_ACCOUNT \<and> \<not> vma_enough env i \<or> \<not> vma_alloc env i
        \<or> vma_policy_err env i \<noteq> 0 \<or> vma_uffd_err env i \<noteq> 0 \<or> \<not> vma_anon_ok env i")
      case True
      then have "r' = r \<and> m' = m \<and> err \<noteq> 0"
        using Cons.prems copied by (auto simp: Let_def undo errno_defs split: if_splits)
      then show ?thesis by (auto intro: areas_copied_stop)
    next
      case False
      let ?err = "if has (vm_flags v) VM_WIPEONFORK then 0 else vma_copy_err env i"
      let ?m = "m\<lparr>mm_mmap := mm_mmap m @ [copy_vma a v], map_count := map_count m + 1\<rparr>"
      let ?r = "hold_vma env (copy_vma a v) r"
      have "dup_vmas env a i (v # vs) m r = (if ?err \<noteq> 0 then (?err, ?m, ?r) else dup_vmas env a (Suc i) vs ?m ?r)"
        using copied False by (auto simp: Let_def hold_vma_def)
      then have run: "(if ?err \<noteq> 0 then (?err, ?m, ?r) else dup_vmas env a (Suc i) vs ?m ?r) = (err, m', r')"
        using Cons.prems by simp
      show ?thesis
      proof (cases "?err = 0")
        case True
        with run have "dup_vmas env a (Suc i) vs ?m ?r = (err, m', r')" by simp
        then show ?thesis by (rule areas_copied_step [OF copied Cons.IH])
      next
        case err: False
        with run have "err = ?err" "m' = ?m" "r' = ?r" by simp_all
        with err show ?thesis by (intro areas_copied_step [OF copied]) (simp add: areas_copied_stop)
      qed
    qed
  qed
qed

lemma release_fold_hold: "release_vma env v (fold (hold_vma env) vs (hold_vma env v r)) = fold (hold_vma env) vs r"
proof -
  have "release_vma env v (fold (hold_vma env) vs s) = fold (hold_vma env) vs (release_vma env v s)" for s
    by (induction vs arbitrary: s) (simp_all add: release_hold_commute)
  then show ?thesis by simp
qed

lemma fold_release_fold_hold: "fold (release_vma env) vs (fold (hold_vma env) vs r) = r"
  by (induction vs arbitrary: r) (simp_all add: release_fold_hold)

text \<open>What a descriptor under construction holds: its areas' references and that to the executable.\<close>

definition mm_holds :: "mm_env \<Rightarrow> mm_struct \<Rightarrow> map_refs \<Rightarrow> map_refs" where
  "mm_holds env m r = fold (hold_vma env) (mm_mmap m) (case exe_file m of None \<Rightarrow> r | Some f \<Rightarrow> get_file f r)"

lemma fput_get_file [simp]: "fput f (get_file f r) = r"
  by (cases r) (simp add: fput_def get_file_def fun_upd_idem)

lemma dup_mmap_effect:
  assumes "dup_mmap env a mm old r = (err, m', r')" and "mm_mmap mm = []" and "exe_file mm = None" and "map_count mm = 0"
  shows "r' = mm_holds env m' r" and "map_count m' = length (mm_mmap m')"
    and "mm_users m' = mm_users mm" and "mm_count m' = mm_count mm"
    and "err = 0 \<Longrightarrow> mm_mmap m' = map (copy_vma a) (to_copy (mm_mmap old))"
proof -
  obtain exe r1 where exe: "get_mm_exe_file old r = (exe, r1)" by fastforce
  then have r1: "r1 = (case exe of None \<Rightarrow> r | Some f \<Rightarrow> get_file f r)"
    by (auto simp: get_mm_exe_file_def split: option.splits if_splits)
  let ?m1 = "mm\<lparr>exe_file := exe, mm_counters := mm_counters old\<rparr>"
  consider (killed) "err = - EINTR" "m' = mm" "r' = r" | (failed) "err \<noteq> 0" "m' = ?m1" "r' = r1"
    | (copied) e where "dup_vmas env a 0 (mm_mmap old) ?m1 r1 = (e, m', r')" "err = 0 \<longrightarrow> e = 0"
    using assms(1) exe by (auto simp: dup_mmap_def Let_def split: if_splits prod.splits)
  then have "r' = mm_holds env m' r \<and> map_count m' = length (mm_mmap m') \<and> mm_users m' = mm_users mm
    \<and> mm_count m' = mm_count mm \<and> (err = 0 \<longrightarrow> mm_mmap m' = map (copy_vma a) (to_copy (mm_mmap old)))"
  proof cases
    case copied
    then show ?thesis
      using dup_vmas_effect [OF copied(1)] assms(2-4) r1 by (auto simp: areas_copied_def Let_def mm_holds_def)
  qed (use assms(2-4) r1 in \<open>auto simp: mm_holds_def errno_defs\<close>)
  then show "r' = mm_holds env m' r" and "map_count m' = length (mm_mmap m')"
    and "mm_users m' = mm_users mm" and "mm_count m' = mm_count mm"
    and "err = 0 \<Longrightarrow> mm_mmap m' = map (copy_vma a) (to_copy (mm_mmap old))" by simp_all
qed

text \<open>Dropping the only reference to a fresh descriptor leaves nothing behind.\<close>

lemma mmput_fresh:
  assumes "exit_mmap_ok env" and "mms k a = None" and "mm_users m = 1" and "mm_count m = 1"
  shows "mmput (exit_mmap env) a (k\<lparr>mms := (mms k)(a \<mapsto> m), maps := mm_holds env m (maps k)\<rparr>) = k"
proof -
  have exit: "exit_mmap env m' (mm_holds env m r) = (case exe_file m of None \<Rightarrow> r | Some f \<Rightarrow> get_file f r)"
    if "mm_mmap m' = mm_mmap m" for m' r
    using assms(1) that by (simp add: exit_mmap_ok_def mm_holds_def fold_release_fold_hold)
  have "(mms k)(a := None) = mms k" using assms(2) by (simp add: fun_upd_idem)
  then show ?thesis
    using assms(3,4)
    by (cases k) (simp add: mmput_def last_mmput_def set_mm_exe_file_def mmdrop_def exit Let_def split: option.splits)
qed

lemma mmput_mmget:
  assumes "mms k a = Some m" and "0 < mm_users m"
  shows "mmput ex a (mmget a k) = k"
proof -
  have "(mms k)(a \<mapsto> m) = mms k" using assms(1) by (simp add: fun_upd_idem)
  then show ?thesis using assms by (cases k) (simp add: mmput_def mmget_def upd_def Let_def)
qed

lemma dup_mm_effect:
  assumes "dup_mm env t old k = (res, k')" and "exit_mmap_ok env" and "\<And>a. new_mm env = Some a \<Longrightarrow> mms k a = None"
  shows "res = None \<and> k' = k \<or>
    (\<exists>a m. res = Some a \<and> new_mm env = Some a \<and> k' = k\<lparr>mms := (mms k)(a \<mapsto> m), maps := mm_holds env m (maps k)\<rparr>
      \<and> mm_users m = 1 \<and> mm_count m = 1 \<and> map_count m = length (mm_mmap m)
      \<and> mm_mmap m = map (copy_vma a) (to_copy (mm_mmap (the (mms k old)))))"
proof (cases "new_mm env")
  case None
  then show ?thesis using assms(1) by (simp add: dup_mm_def)
next
  case (Some a)
  let ?old = "the (mms k old)" and ?init = "mm_init env (Some t) (Option.bind (tsk_mm (cur k)) (mms k)) (the (mms k old))"
  show ?thesis
  proof (cases ?init)
    case None
    then show ?thesis using assms(1) Some by (simp add: dup_mm_def)
  next
    case m: (Some m)
    then have fresh: "mm_mmap m = []" "exe_file m = None" "map_count m = 0" "mm_users m = 1" "mm_count m = 1"
      by (auto simp: mm_init_def Let_def split: if_splits option.splits)
    obtain err m1 r where dup: "dup_mmap env a m ?old (maps k) = (err, m1, r)" by (cases "dup_mmap env a m ?old (maps k)") auto
    note eff = dup_mmap_effect [OF dup fresh(1-3)]
    let ?m2 = "m1\<lparr>binfmt := None, mm_owner := None\<rparr>"
    have "mmput (exit_mmap env) a (k\<lparr>mms := (mms k)(a \<mapsto> ?m2), maps := r\<rparr>) = k"
      using mmput_fresh [OF assms(2) assms(3) [OF Some], of ?m2] eff fresh by (simp add: mm_holds_def)
    then show ?thesis
      using assms(1) Some m dup eff fresh by (auto simp: dup_mm_def Let_def split: if_splits)
  qed
qed

text \<open>The conditions under which \<open>copy_mm\<close> can be undone.\<close>

definition mm_ready :: "mm_env \<Rightarrow> nat \<Rightarrow> 'x kern \<Rightarrow> bool" where
  "mm_ready env t k \<longleftrightarrow> exit_mmap_ok env \<and> (\<forall>a. new_mm env = Some a \<longrightarrow> mms k a = None)
     \<and> (\<forall>a. tsk_mm (cur k) = Some a \<longrightarrow> (\<exists>m. mms k a = Some m \<and> 0 < mm_users m \<and> mm_owner m \<noteq> Some t))"

lemma copy_mm_undo:
  assumes "mm_ready env t k"
  shows "copy_mm env fl t k p = (Inl e, k1) \<Longrightarrow> k1 = k"
    and "copy_mm env fl t k p = (Inr p1, k1) \<Longrightarrow> cleanup_mm env t p1 k1 = k"
proof -
  have ok: "exit_mmap_ok env" "\<And>a. new_mm env = Some a \<Longrightarrow> mms k a = None"
    using assms by (auto simp: mm_ready_def)
  show "k1 = k" if "copy_mm env fl t k p = (Inl e, k1)"
    using that dup_mm_effect [OF _ ok] by (auto simp: copy_mm_def Let_def split: option.splits if_splits prod.splits)
  show "cleanup_mm env t p1 k1 = k" if run: "copy_mm env fl t k p = (Inr p1, k1)"
  proof (cases "tsk_mm (cur k)")
    case None
    then show ?thesis using run by (auto simp: copy_mm_def cleanup_mm_def Let_def)
  next
    case (Some old)
    then obtain m where m: "mms k old = Some m" "0 < mm_users m" "mm_owner m \<noteq> Some t"
      using assms by (auto simp: mm_ready_def)
    show ?thesis
    proof (cases "has fl CLONE_VM")
      case True
      have "mm_clear_owner old t (mmget old k) = mmget old k"
        using m(1,3) by (cases k) (simp add: mm_clear_owner_def mmget_def upd_def)
      then show ?thesis
        using run Some True m mmput_mmget [OF m(1,2)] by (auto simp: copy_mm_def cleanup_mm_def Let_def)
    next
      case False
      then obtain a m' where new: "dup_mm env t old k = (Some a, k1)" "new_mm env = Some a" "tsk_mm p1 = Some a"
        and k1: "k1 = k\<lparr>mms := (mms k)(a \<mapsto> m'), maps := mm_holds env m' (maps k)\<rparr>"
        and m': "mm_users m' = 1" "mm_count m' = 1"
        using run Some dup_mm_effect [OF _ ok, of t old]
        by (fastforce simp: copy_mm_def Let_def split: option.splits prod.splits)
      define m2 where "m2 = (if mm_owner m' = Some t then m'\<lparr>mm_owner := None\<rparr> else m')"
      have "mm_clear_owner a t k1 = k\<lparr>mms := (mms k)(a \<mapsto> m2), maps := mm_holds env m2 (maps k)\<rparr>"
        by (simp add: k1 mm_clear_owner_def m2_def mm_holds_def)
      moreover have "mm_users m2 = 1" "mm_count m2 = 1" using m' by (simp_all add: m2_def)
      ultimately show ?thesis
        using mmput_fresh [OF ok(1) ok(2) [OF new(2)], of m2] new(3) by (simp add: cleanup_mm_def)
    qed
  qed
qed

end
