(* ===== verification/File_Varea.thy ===== *)
theory File_Varea
  imports Hooks Copy_Mm
begin

section \<open>Mapped files of a process (Assignment3-1, file\_varea.c)\<close>

text \<open>
  The module that replaces system call 336 by a listing of the files a process has mapped.  It takes a
  reference on the address space, holds its semaphore for reading and allocates a buffer per file;
  \<open>outstanding\<close> counts the buffers that are not yet freed.
\<close>

definition varea_make_rw :: page_op where
  "varea_make_rw env m =
     (case page_of env 0 of
        None \<Rightarrow> Inl Null_Pointer
      | Some g \<Rightarrow> Inr (if ptes m g AND PAGE_RW = 0 then pte_set_rw g m else m))"

definition varea_make_ro :: page_op where
  "varea_make_ro env m =
     (case page_of env 0 of None \<Rightarrow> Inl Null_Pointer | Some g \<Rightarrow> Inr (pte_clear_rw g m))"

interpretation varea_pages: page_helpers varea_make_rw varea_make_ro
  by unfold_locales (simp_all add: varea_make_rw_def varea_make_ro_def)

text \<open>\<open>printf ("%lx", w)\<close>\<close>

definition hex_char :: "nat \<Rightarrow> char" where
  "hex_char d = ''0123456789abcdef'' ! (d mod 16)"

fun show_hex :: "nat \<Rightarrow> string" where
  "show_hex n = (if n < 16 then [hex_char n] else show_hex (n div 16) @ [hex_char (n mod 16)])"

declare show_hex.simps [simp del]

definition show_lx :: "64 word \<Rightarrow> string" where
  "show_lx w = show_hex (unat w)"

definition range_text :: "string \<Rightarrow> 64 word \<times> 64 word \<Rightarrow> string" where
  "range_text name r = name @ ''('' @ show_lx (fst r) @ ''~'' @ show_lx (snd r) @ '') ''"

text \<open>The environment: finding a task, whether the \<open>i\<close>-th \<open>kmalloc\<close> succeeds, \<open>d_path\<close>, and \<open>exit_mmap\<close>.\<close>

record varea_env =
  find_task :: "int \<Rightarrow> nat option"
  kmalloc_ok :: "nat \<Rightarrow> bool"
  d_path :: "nat \<Rightarrow> string option"
  release_maps :: "mm_struct \<Rightarrow> map_refs \<Rightarrow> map_refs"

record 'x varea_state =
  kernel :: "'x kern"
  vlog :: "string list"
  outstanding :: nat

definition down_read :: "nat \<Rightarrow> 'x kern \<Rightarrow> 'x kern" where
  "down_read a k = k\<lparr>mms := upd a (\<lambda>m. m\<lparr>mmap_readers := mmap_readers m + 1\<rparr>) (mms k)\<rparr>"

definition up_read :: "nat \<Rightarrow> 'x kern \<Rightarrow> 'x kern" where
  "up_read a k = k\<lparr>mms := upd a (\<lambda>m. m\<lparr>mmap_readers := mmap_readers m - 1\<rparr>) (mms k)\<rparr>"

definition area_line :: "mm_struct \<Rightarrow> vm_area \<Rightarrow> string \<Rightarrow> string" where
  "area_line mm vma path = range_text ''mem'' (vm_start vma, vm_end vma) @ range_text ''code'' (mm_code mm)
     @ range_text ''data'' (mm_data mm) @ range_text ''heap'' (mm_brk mm) @ path @ [newline]"

text \<open>The loop over the areas; \<open>i\<close> counts the allocations.\<close>

fun scan_areas :: "varea_env \<Rightarrow> mm_struct \<Rightarrow> nat \<Rightarrow> vm_area list \<Rightarrow> 'x varea_state \<Rightarrow> 'x varea_state" where
  "scan_areas env mm i [] s = s"
| "scan_areas env mm i (vma # vmas) s =
     (case vm_file vma of
        None \<Rightarrow> scan_areas env mm i vmas s
      | Some f \<Rightarrow>
          if \<not> kmalloc_ok env i then s\<lparr>vlog := vlog s @ [''file_varea : kmalloc PATH_MAX failed'' @ [newline]]\<rparr>
          else
            let s1 = s\<lparr>outstanding := outstanding s + 1\<rparr>;
                s2 = (case d_path env f of
                        None \<Rightarrow> s1
                      | Some path \<Rightarrow> s1\<lparr>vlog := vlog s1 @ [area_line mm vma path]\<rparr>) in
            scan_areas env mm (Suc i) vmas (s2\<lparr>outstanding := outstanding s2 - 1\<rparr>))"

definition file_varea :: "varea_env \<Rightarrow> pt_regs \<Rightarrow> 'x varea_state \<Rightarrow> int \<times> 'x varea_state" where
  "file_varea env regs s =
     (let target = wrap32 (di regs) in
      case find_task env target of
        None \<Rightarrow> (- ESRCH, s)
      | Some t \<Rightarrow>
          let task = the (tasks (kernel s) t) in
          (case get_task_mm task (kernel s) of
             (None, k) \<Rightarrow> (- EINVAL, s\<lparr>kernel := k\<rparr>)
           | (Some a, k) \<Rightarrow>
               let s1 = s\<lparr>kernel := down_read a k,
                          vlog := vlog s @ [''######## Loaded files of a process' '' @ tsk_comm task @ ''('' @ show_d target @ '')' in VM ########'' @ [newline]]\<rparr>;
                   mm = the (mms (kernel s1) a);
                   s2 = scan_areas env mm 0 (mm_mmap mm) s1 in
               (target, s2\<lparr>kernel := mmput (release_maps env) a (up_read a (kernel s2))\<rparr>)))"

subsection \<open>The hook\<close>

definition NR_varea :: nat where "NR_varea = 336"

definition info_init :: "kenv \<Rightarrow> hook_state \<Rightarrow> (int \<times> hook_state) outcome" where
  "info_init env s =
     (if \<not> symbol env then Inl Null_Pointer
      else
        bind_outcome (varea_make_rw env (mach s)) (\<lambda>m.
          let real = table m NR_varea in
          bind_outcome (table_write env NR_varea File_varea m) (\<lambda>m1.
            bind_outcome (varea_make_ro env m1) (\<lambda>m2.
              Inr (0, s\<lparr>have_table := True, real_call := real, mach := m2\<rparr>)))))"

definition info_exit :: "kenv \<Rightarrow> hook_state \<Rightarrow> hook_state outcome" where
  "info_exit env s =
     bind_outcome (replace_entries varea_make_rw varea_make_ro env [(NR_varea, real_call s)] (mach s))
       (\<lambda>m. Inr (s\<lparr>mach := m\<rparr>))"

lemma info_init_replace:
  assumes "symbol env" and "protected_entry env NR_varea (mach s)"
  shows "info_init env s = bind_outcome (replace_entries varea_make_rw varea_make_ro env [(NR_varea, File_varea)] (mach s))
    (\<lambda>m. Inr (0, s\<lparr>have_table := True, real_call := table (mach s) NR_varea, mach := m\<rparr>))"
  using assms by (auto simp: info_init_def replace_entries_def varea_make_rw_def Let_def protected_entry_def table_write_def writable_page_def)

interpretation varea: syscall_hook NR_varea File_varea mach info_init info_exit "\<lambda>s h. real_call s = h"
  by unfold_locales (simp_all add: info_init_replace info_exit_def varea_pages.replaces)

subsection \<open>The listing\<close>

lemma scan_areas_effect:
  "kernel (scan_areas env mm i vs s) = kernel s \<and> outstanding (scan_areas env mm i vs s) = outstanding s"
  by (induction env mm i vs s rule: scan_areas.induct) (auto simp: Let_def split: option.splits)

definition file_lines :: "varea_env \<Rightarrow> mm_struct \<Rightarrow> vm_area list \<Rightarrow> string list" where
  "file_lines env mm vs = [area_line mm v path. v \<leftarrow> vs, Some f \<leftarrow> [vm_file v], Some path \<leftarrow> [d_path env f]]"

lemma scan_areas_lines:
  assumes "\<And>i. kmalloc_ok env i"
  shows "vlog (scan_areas env mm i vs s) = vlog s @ file_lines env mm vs"
proof (induction vs arbitrary: i s)
  case (Cons v vs)
  then show ?case using assms by (auto simp: file_lines_def Let_def split: option.splits)
qed (simp add: file_lines_def)

lemma read_lock_undone:
  assumes "mms k a = Some m"
  shows "up_read a (down_read a k) = k"
proof -
  have "(mms k)(a \<mapsto> m) = mms k" using assms by (simp add: fun_upd_idem)
  then show ?thesis using assms by (cases k) (simp add: up_read_def down_read_def upd_def)
qed

lemma file_varea_effect:
  assumes "find_task env (wrap32 (di regs)) = Some t" and "tasks (kernel s) t = Some task"
    and "get_task_mm task (kernel s) = (Some a, k)" and "mms (kernel s) a = Some m" and "0 < mm_users m"
  shows "fst (file_varea env regs s) = wrap32 (di regs) \<and> kernel (snd (file_varea env regs s)) = kernel s
    \<and> outstanding (snd (file_varea env regs s)) = outstanding s"
proof -
  have k: "k = mmget a (kernel s)" using assms(3) by (auto simp: get_task_mm_def split: option.splits if_splits)
  then obtain m' where "mms k a = Some m'" using assms(4) by (simp add: mmget_def)
  from read_lock_undone [OF this] have "mmput (release_maps env) a (up_read a (down_read a k)) = kernel s"
    using mmput_mmget [OF assms(4,5)] by (simp add: k)
  then show ?thesis using assms(1-3) by (simp add: file_varea_def Let_def scan_areas_effect)
qed

end
