(* ===== verification/Proc_Info.thy ===== *)
theory Proc_Info
  imports Kernel C_Stdio
begin

section \<open>Process list in /proc (Assignment4-1, proc\_info.c)\<close>

text \<open>
  The file \<^verbatim>\<open>/proc/proc_2021202089/processInfo\<close>: reading it gives a table of the processes, writing a
  number to it restricts the table to that process.  The globals of the module are the record \<open>proc_state\<close>;
  \<open>held\<close> counts the buffers that were allocated and not freed.  The kernel functions the module calls are the
  record \<open>proc_env\<close>.
\<close>

record proc_env =
  task_cputime :: "task_struct \<Rightarrow> 64 word \<times> 64 word"
  nsecs_to_jiffies :: "64 word \<Rightarrow> 64 word"
  kzalloc_ok :: bool
  user_writable :: bool
  kstrtoint :: "string \<Rightarrow> int + int"
  checked_copy :: bool
  proc_mkdir_ok :: bool

record proc_state =
  oslab_is_processed :: bool
  filter_pid :: int
  write_flag :: bool
  held :: nat
  fp_dir :: string
  entries :: "string list"

definition proc_initial :: proc_state where
  "proc_initial = \<lparr>oslab_is_processed = False, filter_pid = - 1, write_flag = False, held = 0, fp_dir = [], entries = []\<rparr>"

definition oslab_open :: "proc_state \<Rightarrow> int \<times> proc_state" where
  "oslab_open s = (0, s\<lparr>oslab_is_processed := False\<rparr>)"

subsection \<open>Formatting\<close>

text \<open>\<open>scnprintf\<close> into \<open>size\<close> bytes: the characters written, without the final zero.\<close>

definition scnprintf :: "nat \<Rightarrow> string \<Rightarrow> string" where
  "scnprintf n s = take (n - 1) s"

text \<open>\<open>%-ns\<close>\<close>

definition pad :: "nat \<Rightarrow> string \<Rightarrow> string" where
  "pad n s = s @ replicate (n - length s) CHR '' ''"

definition state_str :: "char \<Rightarrow> string" where
  "state_str c =
     (if c = CHR ''R'' then ''(running)'' else if c = CHR ''S'' then ''(sleeping)''
      else if c = CHR ''D'' then ''(disk sleep)'' else if c = CHR ''T'' then ''(stopped)''
      else if c = CHR ''t'' then ''(tracing stop)'' else if c = CHR ''X'' then ''(dead)''
      else if c = CHR ''Z'' then ''(zombie)'' else if c = CHR ''P'' then ''(parked)''
      else if c = CHR ''I'' then ''(idle)'' else '''')"

definition info_line :: "proc_env \<Rightarrow> 'x kern \<Rightarrow> task_struct \<Rightarrow> char \<Rightarrow> string" where
  "info_line env k p state =
     (let (utime_ns, stime_ns) = task_cputime env p;
          ppid = (case tasks k (tsk_real_parent p) of None \<Rightarrow> 0 | Some q \<Rightarrow> tsk_pid q) in
      pad 7 (show_d (tsk_pid p)) @ '' '' @ pad 7 (show_d ppid) @ '' ''
      @ pad 7 (show_d (sint (cred_uid (tsk_cred p)))) @ '' '' @ pad 7 (show_d (sint (cred_gid (tsk_cred p)))) @ '' ''
      @ pad 10 (show_d (uint (nsecs_to_jiffies env utime_ns))) @ '' '' @ pad 10 (show_d (uint (nsecs_to_jiffies env stime_ns))) @ '' ''
      @ [state] @ '' '' @ pad 15 (state_str state) @ '' '' @ tsk_comm p @ [newline])"

text \<open>The buffer is the string written so far; the offset is its length.\<close>

definition append_info :: "proc_env \<Rightarrow> 'x kern \<Rightarrow> nat \<Rightarrow> string \<Rightarrow> task_struct \<Rightarrow> string outcome" where
  "append_info env k buf_size buf p =
     bind_outcome (task_state_to_char p) (\<lambda>state. Inr (buf @ scnprintf (buf_size - length buf) (info_line env k p state)))"

definition header1 :: string where
  "header1 = pad 7 ''Pid'' @ '' '' @ pad 7 ''PPid'' @ '' '' @ pad 7 ''Uid'' @ '' '' @ pad 7 ''Gid'' @ '' ''
     @ pad 10 ''utime'' @ '' '' @ pad 10 ''stime'' @ '' '' @ pad 17 ''State'' @ '' '' @ ''Name'' @ [newline]"

definition header2 :: string where
  "header2 = replicate 93 CHR ''-'' @ [newline]"

subsection \<open>Reading\<close>

definition BUF_SIZE :: nat where "BUF_SIZE = 204800"

primrec all_tasks :: "proc_env \<Rightarrow> 'x kern \<Rightarrow> task_struct list \<Rightarrow> string \<Rightarrow> string outcome" where
  "all_tasks env k [] buf = Inr buf"
| "all_tasks env k (p # ps) buf =
     bind_outcome (append_info env k BUF_SIZE buf p) (\<lambda>buf1.
       if length buf1 \<ge> BUF_SIZE - 200 then Inr buf1 else all_tasks env k ps buf1)"

primrec one_task :: "proc_env \<Rightarrow> 'x kern \<Rightarrow> int \<Rightarrow> task_struct list \<Rightarrow> string \<Rightarrow> string outcome" where
  "one_task env k pid [] buf = Inr buf"
| "one_task env k pid (p # ps) buf =
     (if tsk_pid p = pid then append_info env k BUF_SIZE buf p else one_task env k pid ps buf)"

text \<open>The processes that \<open>for_each_process\<close> visits.\<close>

definition processes :: "'x kern \<Rightarrow> task_struct list" where
  "processes k = map (\<lambda>a. the (tasks k a)) (task_list k)"

definition fill_buffer :: "proc_env \<Rightarrow> 'x kern \<Rightarrow> proc_state \<Rightarrow> string outcome" where
  "fill_buffer env k s =
     (let buf = scnprintf BUF_SIZE header1;
          buf = buf @ scnprintf (BUF_SIZE - length buf) header2 in
      if \<not> write_flag s \<or> filter_pid s = - 1 then all_tasks env k (processes k) buf
      else one_task env k (filter_pid s) (processes k) buf)"

text \<open>\<open>oslab_read\<close>: the result, the bytes the user gets, and the state.\<close>

definition oslab_read :: "proc_env \<Rightarrow> 'x kern \<Rightarrow> nat \<Rightarrow> proc_state \<Rightarrow> (int \<times> string \<times> proc_state) outcome" where
  "oslab_read env k len s =
     (if oslab_is_processed s then Inr (0, [], s)
      else if \<not> kzalloc_ok env then Inr (- ENOMEM, [], s)
      else
        let s1 = s\<lparr>held := held s + 1\<rparr> in
        bind_outcome (fill_buffer env k s1) (\<lambda>buf.
          let out = take len buf in
          if \<not> user_writable env then Inr (- EFAULT, [], s1)
          else Inr (int (length out), out, s1\<lparr>held := held s1 - 1, oslab_is_processed := True\<rparr>)))"

subsection \<open>Writing\<close>

definition WRITE_BUF :: nat where "WRITE_BUF = 32"

text \<open>
  \<open>oslab_write\<close> with the \<open>len\<close> bytes at the user's address, if they can be read.  A copy of more than 32 bytes is
  refused by a checked \<open>copy_from_user\<close> and otherwise runs over the buffer.
\<close>

definition oslab_write :: "proc_env \<Rightarrow> nat \<Rightarrow> string option \<Rightarrow> proc_state \<Rightarrow> (int \<times> proc_state) outcome" where
  "oslab_write env len data s =
     (if len > WRITE_BUF then (if checked_copy env then Inr (- EFAULT, s) else Inl Out_Of_Bounds)
      else
        (case data of
           None \<Rightarrow> Inr (- EFAULT, s)
         | Some buf \<Rightarrow>
             if len \<ge> WRITE_BUF then Inl Out_Of_Bounds
             else
               let filter = (case kstrtoint env buf of Inl ret \<Rightarrow> - 1 | Inr pid_val \<Rightarrow> pid_val) in
               Inr (int len, s\<lparr>filter_pid := filter, write_flag := True\<rparr>)))"

text \<open>
  Loading and unloading: the paths of the entries below \<^verbatim>\<open>/proc\<close>.  Without the directory the file is made at the top.
\<close>

definition oslab_init :: "proc_env \<Rightarrow> proc_state \<Rightarrow> int \<times> proc_state" where
  "oslab_init env s =
     (let s1 = (if proc_mkdir_ok env then s\<lparr>fp_dir := ''proc_2021202089/'', entries := ''proc_2021202089'' # entries s\<rparr>
                else s\<lparr>fp_dir := []\<rparr>) in
      (0, s1\<lparr>entries := (fp_dir s1 @ ''processInfo'') # entries s1\<rparr>))"

definition oslab_exit :: "proc_state \<Rightarrow> proc_state" where
  "oslab_exit s =
     (let s1 = s\<lparr>entries := remove1 (fp_dir s @ ''processInfo'') (entries s)\<rparr> in
      s1\<lparr>entries := remove1 ''proc_2021202089'' (entries s1)\<rparr>)"

subsection \<open>Lengths\<close>

lemma show_nat_length: "0 \<le> n \<Longrightarrow> n < 10 ^ Suc d \<Longrightarrow> length (show_nat n) \<le> Suc d"
proof (induction n arbitrary: d rule: show_nat.induct)
  case (1 n)
  show ?case
  proof (cases "n < 10")
    case True
    then show ?thesis by (subst show_nat.simps) simp
  next
    case False
    with 1(3) obtain e where d: "d = Suc e" by (cases d) auto
    have "n div 10 < 10 ^ Suc e" using 1(3) by (simp add: d)
    from 1(1) [OF False _ this] 1(2) show ?thesis using False by (subst show_nat.simps) (simp add: d)
  qed
qed

lemma show_d_length: "is_int32 v \<Longrightarrow> length (show_d v) \<le> 11"
  using show_nat_length [of "- v" 9] show_nat_length [of v 9] by (auto simp: show_d_def is_int32_def int_min_def int_max_def)

lemma show_word_length: "length (show_d (uint (w :: 64 word))) \<le> 20"
proof -
  have "uint w < 2 ^ 64" using uint_lt2p [of w] by simp
  then show ?thesis using show_nat_length [of "uint w" 19] by (simp add: show_d_def)
qed

lemma pad_length: "length s \<le> m \<Longrightarrow> n \<le> m \<Longrightarrow> length (pad n s) \<le> m"
  by (simp add: pad_def)

lemma headers_length: "length header1 = 77" "length header2 = 94"
  by (simp_all add: header1_def header2_def pad_def)

text \<open>What the kernel guarantees of a task: numbers in range and a name of at most 15 characters.\<close>

definition printable_task :: "task_struct \<Rightarrow> bool" where
  "printable_task p \<longleftrightarrow> is_int32 (tsk_pid p) \<and> length (tsk_comm p) \<le> 15"

lemma sint_is_int32: "is_int32 (sint (w :: 32 word))"
  using sint_lt [of w] sint_ge [of w] by (simp add: is_int32_def int_min_def int_max_def)

lemma state_str_length: "length (state_str c) \<le> 15"
  by (simp add: state_str_def)

lemma info_line_length:
  assumes "printable_task p" and "\<forall>q. tasks k (tsk_real_parent p) = Some q \<longrightarrow> is_int32 (tsk_pid q)"
  shows "length (info_line env k p c) \<le> 124"
proof -
  let ?pp = "case tasks k (tsk_real_parent p) of None \<Rightarrow> 0 | Some q \<Rightarrow> tsk_pid q"
  have "is_int32 ?pp" using assms(2) by (auto simp: is_int32_def int_min_def int_max_def split: option.splits)
  note w = show_d_length [OF this] show_d_length [of "tsk_pid p"] show_d_length [OF sint_is_int32] 
  obtain u v where "task_cputime env p = (u, v)" by fastforce
  moreover have "length (pad 7 (show_d (tsk_pid p))) \<le> 11" "length (pad 7 (show_d ?pp)) \<le> 11"
    "length (pad 7 (show_d (sint (cred_uid (tsk_cred p))))) \<le> 11" "length (pad 7 (show_d (sint (cred_gid (tsk_cred p))))) \<le> 11"
    "length (pad 10 (show_d (uint (nsecs_to_jiffies env u)))) \<le> 20" "length (pad 10 (show_d (uint (nsecs_to_jiffies env v)))) \<le> 20"
    "length (pad 15 (state_str c)) \<le> 15"
    using w assms(1) show_word_length state_str_length by (simp_all add: pad_length printable_task_def)
  moreover have "length (tsk_comm p) \<le> 15" using assms(1) by (simp add: printable_task_def)
  ultimately show ?thesis by (simp add: info_line_def Let_def)
qed

subsection \<open>The table\<close>

definition state_of :: "task_struct \<Rightarrow> char" where
  "state_of p = projr (task_state_to_char p)"

definition line_of :: "proc_env \<Rightarrow> 'x kern \<Rightarrow> task_struct \<Rightarrow> string" where
  "line_of env k p = info_line env k p (state_of p)"

definition table_of :: "proc_env \<Rightarrow> 'x kern \<Rightarrow> task_struct list \<Rightarrow> string" where
  "table_of env k ps = header1 @ header2 @ concat (map (line_of env k) ps)"

definition printable :: "'x kern \<Rightarrow> bool" where
  "printable k \<longleftrightarrow> (\<forall>p\<in>set (processes k). printable_task p
     \<and> (\<forall>q. tasks k (tsk_real_parent p) = Some q \<longrightarrow> is_int32 (tsk_pid q)))"

lemma state_of_ok: "task_state_to_char p = Inr (state_of p)" "state_of p \<in> set state_char" "state_str (state_of p) \<noteq> []"
proof -
  obtain c where c: "task_state_to_char p = Inr c" "c \<in> set state_char" by (rule task_state_to_char_ok)
  then show "task_state_to_char p = Inr (state_of p)" "state_of p \<in> set state_char" by (simp_all add: state_of_def)
  then show "state_str (state_of p) \<noteq> []" by (auto simp: state_char_def state_str_def)
qed

lemma append_whole:
  assumes "p \<in> set (processes k)" and "printable k" and "length buf < BUF_SIZE - 200"
  shows "append_info env k BUF_SIZE buf p = Inr (buf @ line_of env k p) \<and> length (buf @ line_of env k p) < BUF_SIZE"
proof -
  have "length (line_of env k p) \<le> 124"
    unfolding line_of_def using assms(1,2) by (intro info_line_length) (auto simp: printable_def)
  then show ?thesis
    using assms(3) by (simp add: append_info_def state_of_ok(1) scnprintf_def line_of_def BUF_SIZE_def)
qed

lemma all_tasks_whole:
  assumes "set ps \<subseteq> set (processes k)" and "printable k" and "length buf < BUF_SIZE - 200"
  shows "\<exists>n. all_tasks env k ps buf = Inr (buf @ concat (map (line_of env k) (take n ps)))
    \<and> length (buf @ concat (map (line_of env k) (take n ps))) < BUF_SIZE
    \<and> (n < length ps \<longrightarrow> BUF_SIZE - 200 \<le> length (buf @ concat (map (line_of env k) (take n ps))))"
  using assms(1,3)
proof (induction ps arbitrary: buf)
  case (Cons p ps)
  let ?b = "buf @ line_of env k p"
  have app: "append_info env k BUF_SIZE buf p = Inr ?b" "length ?b < BUF_SIZE"
    using append_whole [OF _ assms(2) Cons.prems(2), of p] Cons.prems(1) by auto
  show ?case
  proof (cases "BUF_SIZE - 200 \<le> length ?b")
    case True
    then show ?thesis using app by (intro exI [of _ 1]) simp
  next
    case False
    with Cons.IH [of ?b] Cons.prems obtain n where "all_tasks env k ps ?b = Inr (?b @ concat (map (line_of env k) (take n ps)))"
      "length (?b @ concat (map (line_of env k) (take n ps))) < BUF_SIZE"
      "n < length ps \<longrightarrow> BUF_SIZE - 200 \<le> length (?b @ concat (map (line_of env k) (take n ps)))" by auto
    then show ?thesis using app False by (intro exI [of _ "Suc n"]) auto
  qed
qed (auto intro: exI [of _ 0])

lemma one_task_whole:
  assumes "set ps \<subseteq> set (processes k)" and "printable k" and "length buf < BUF_SIZE - 200"
  shows "one_task env k pid ps buf = Inr (buf @ concat (map (line_of env k) (take 1 (filter (\<lambda>p. tsk_pid p = pid) ps))))"
  using assms(1)
proof (induction ps)
  case (Cons p ps)
  then show ?case using append_whole [OF _ assms(2,3), of p] by simp
qed simp

lemma headers_fit:
  "scnprintf BUF_SIZE header1 = header1" "scnprintf (BUF_SIZE - length header1) header2 = header2"
  "length (header1 @ header2) < BUF_SIZE - 200"
  by (simp_all add: scnprintf_def headers_length BUF_SIZE_def)

end
