(* ===== verification/Copy_Process.thy ===== *)
theory Copy_Process
  imports Copy_Mm
begin

section \<open>Creating a task (Assignment2-1, fork.c)\<close>

text \<open>
  \<open>copy_process\<close> and the functions that copy or share the parts of a task.  The task under
  construction is an argument next to the kernel state, which it enters only when it is published.
  A step that acquires something and its label in the chain of \<open>goto bad_fork_...\<close> at the end of
  the function are put together by \<open>attempt\<close>: when a later step fails, what the earlier steps
  acquired is released in reverse order.  No later step assigns the fields a release reads, so it is
  given the task as it was after its acquisition.

  A subsystem outside \<^verbatim>\<open>fork.c\<close> acts on the field \<open>ext\<close> through a pair of an acquiring and a
  releasing function; the predicate \<open>fork_env_ok\<close> collects what \<open>copy_process\<close> relies on.
\<close>

record 'x resource =
  acquire :: "'x \<Rightarrow> int \<times> 'x"
  release :: "'x \<Rightarrow> 'x"

record kernel_clone_args =
  flags :: "64 word"
  pidfd :: "64 word"
  child_tid :: "64 word"
  parent_tid :: "64 word"
  exit_signal :: int
  stack :: "64 word"
  stack_size :: "64 word"
  tls :: "64 word"

record 'x fork_env =
  mm_part :: mm_env
  pid_ns_differs :: bool
  sig_pending :: bool
  alloc_task :: "nat option"
  vmalloc_stack :: "nat option"
  memcg_charge :: "nat \<times> nat \<Rightarrow> int \<times> nat option"
  arch_dup_task_err :: int
  user_processes :: "'x \<Rightarrow> nat \<Rightarrow> nat"
  init_user :: nat
  capable :: bool
  creds :: "'x resource"
  new_cred :: "cred \<Rightarrow> cred"
  delayacct_init :: "'x \<Rightarrow> 'x"
  delayacct_free :: "'x \<Rightarrow> 'x"
  mempolicy :: "'x resource"
  sched_fork :: int
  perf_event :: "'x resource"
  audit_context :: "'x resource"
  security :: "'x resource"
  semundo :: "'x resource"
  dup_fd :: "files_struct \<Rightarrow> int + nat \<times> files_struct"
  put_files :: "nat \<Rightarrow> (nat \<Rightarrow> files_struct option) \<Rightarrow> (nat \<Rightarrow> files_struct option)"
  copy_fs_struct :: "fs_struct \<Rightarrow> (nat \<times> fs_struct) option"
  put_fs :: "nat \<Rightarrow> (nat \<Rightarrow> fs_struct option) \<Rightarrow> (nat \<Rightarrow> fs_struct option)"
  new_sighand :: "nat option"
  new_signal :: "nat option"
  namespaces :: "'x resource"
  ioprio_valid :: "nat \<Rightarrow> bool"
  ioc_task_link :: "nat \<Rightarrow> 'x \<Rightarrow> 'x"
  get_task_io_context :: "'x \<Rightarrow> nat option \<times> 'x"
  exit_io_context :: "nat \<Rightarrow> 'x \<Rightarrow> 'x"
  thread_tls :: "'x resource"
  alloc_pid :: "'x \<Rightarrow> (int + int) \<times> 'x"
  free_pid :: "int \<Rightarrow> 'x \<Rightarrow> 'x"
  unused_fd :: "'x resource"
  pid_file :: "'x resource"
  put_user_err :: int
  cgroup :: "'x resource"
  start_ns :: "64 word"
  get_seccomp_filter :: "nat \<Rightarrow> (nat \<Rightarrow> nat) \<Rightarrow> (nat \<Rightarrow> nat)"
  put_seccomp_filter :: "nat \<Rightarrow> (nat \<Rightarrow> nat) \<Rightarrow> (nat \<Rightarrow> nat)"
  pidns_adding :: bool
  fatal_pending :: bool
  ptrace_parent :: "task_struct \<Rightarrow> bool \<Rightarrow> nat"
  thread_group_leader :: "task_struct \<Rightarrow> bool"
  child_reaper :: bool

definition SIGNAL_UNKILLABLE :: "32 word" where "SIGNAL_UNKILLABLE = 0x40"
definition MMF_MULTIPROCESS :: nat where "MMF_MULTIPROCESS = 27"

type_synonym 'x stage = "'x kern \<Rightarrow> task_struct \<Rightarrow> (int + task_struct) \<times> 'x kern"

definition attempt :: "'x stage \<Rightarrow> (task_struct \<Rightarrow> 'x kern \<Rightarrow> 'x kern) \<Rightarrow> 'x stage \<Rightarrow> 'x stage" where
  "attempt acq rel rest k p =
     (case acq k p of
        (Inl e, k1) \<Rightarrow> (Inl e, k1)
      | (Inr p1, k1) \<Rightarrow>
          (case rest k1 p1 of
             (Inl e, k2) \<Rightarrow> (Inl e, rel p1 k2)
           | (Inr p2, k2) \<Rightarrow> (Inr p2, k2)))"

text \<open>A step that acquires nothing: a check, or assignments to the new task.\<close>

definition keep :: "task_struct \<Rightarrow> 'x kern \<Rightarrow> 'x kern" where
  "keep p k = k"

definition check :: "('x kern \<Rightarrow> int) \<Rightarrow> 'x stage" where
  "check f k p = (if f k \<noteq> 0 then Inl (f k) else Inr p, k)"

definition assign :: "('x kern \<Rightarrow> task_struct \<Rightarrow> task_struct) \<Rightarrow> 'x stage" where
  "assign f k p = (Inr (f k p), k)"

definition acquire_ext :: "'x resource \<Rightarrow> 'x stage" where
  "acquire_ext r k p = (case acquire r (ext k) of (e, x) \<Rightarrow> (if e \<noteq> 0 then Inl e else Inr p, k\<lparr>ext := x\<rparr>))"

definition release_ext :: "'x resource \<Rightarrow> task_struct \<Rightarrow> 'x kern \<Rightarrow> 'x kern" where
  "release_ext r p k = k\<lparr>ext := release r (ext k)\<rparr>"

definition only_if :: "bool \<Rightarrow> 'x stage \<Rightarrow> 'x stage" where
  "only_if b st k p = (if b then st k p else (Inr p, k))"

definition undo_if :: "bool \<Rightarrow> (task_struct \<Rightarrow> 'x kern \<Rightarrow> 'x kern) \<Rightarrow> task_struct \<Rightarrow> 'x kern \<Rightarrow> 'x kern" where
  "undo_if b rel p k = (if b then rel p k else k)"

subsection \<open>Parts of a task\<close>

definition copy_files :: "'x fork_env \<Rightarrow> 64 word \<Rightarrow> 'x stage" where
  "copy_files env clone_flags k p =
     (case tsk_files (cur k) of
        None \<Rightarrow> (Inr p, k)
      | Some oldf \<Rightarrow>
          if has clone_flags CLONE_FILES then
            (Inr p, k\<lparr>filess := upd oldf (\<lambda>f. f\<lparr>files_count := files_count f + 1\<rparr>) (filess k)\<rparr>)
          else
            (case dup_fd env (the (filess k oldf)) of
               Inl err \<Rightarrow> (Inl err, k)
             | Inr (newf, f) \<Rightarrow> (Inr (p\<lparr>tsk_files := Some newf\<rparr>), k\<lparr>filess := (filess k)(newf \<mapsto> f)\<rparr>)))"

definition exit_files :: "'x fork_env \<Rightarrow> task_struct \<Rightarrow> 'x kern \<Rightarrow> 'x kern" where
  "exit_files env p k = (case tsk_files p of None \<Rightarrow> k | Some a \<Rightarrow> k\<lparr>filess := put_files env a (filess k)\<rparr>)"

definition copy_fs :: "'x fork_env \<Rightarrow> 64 word \<Rightarrow> 'x stage" where
  "copy_fs env clone_flags k p =
     (let a = the (tsk_fs (cur k)); fs = the (fss k a) in
      if has clone_flags CLONE_FS then
        if in_exec fs then (Inl (- EAGAIN), k)
        else (Inr p, k\<lparr>fss := upd a (\<lambda>f. f\<lparr>fs_users := fs_users f + 1\<rparr>) (fss k)\<rparr>)
      else
        (case copy_fs_struct env fs of
           None \<Rightarrow> (Inl (- ENOMEM), k)
         | Some (b, f) \<Rightarrow> (Inr (p\<lparr>tsk_fs := Some b\<rparr>), k\<lparr>fss := (fss k)(b \<mapsto> f)\<rparr>)))"

definition exit_fs :: "'x fork_env \<Rightarrow> task_struct \<Rightarrow> 'x kern \<Rightarrow> 'x kern" where
  "exit_fs env p k = (case tsk_fs p of None \<Rightarrow> k | Some a \<Rightarrow> k\<lparr>fss := put_fs env a (fss k)\<rparr>)"

definition copy_io :: "'x fork_env \<Rightarrow> 64 word \<Rightarrow> 'x stage" where
  "copy_io env clone_flags k p =
     (case tsk_io_context (cur k) of
        None \<Rightarrow> (Inr p, k)
      | Some ioc \<Rightarrow>
          if has clone_flags CLONE_IO then
            (Inr (p\<lparr>tsk_io_context := Some ioc\<rparr>), k\<lparr>ext := ioc_task_link env ioc (ext k)\<rparr>)
          else if ioprio_valid env ioc then
            (case get_task_io_context env (ext k) of
               (None, x) \<Rightarrow> (Inl (- ENOMEM), k\<lparr>ext := x\<rparr>)
             | (Some new_ioc, x) \<Rightarrow> (Inr (p\<lparr>tsk_io_context := Some new_ioc\<rparr>), k\<lparr>ext := x\<rparr>))
          else (Inr p, k))"

definition exit_io :: "'x fork_env \<Rightarrow> task_struct \<Rightarrow> 'x kern \<Rightarrow> 'x kern" where
  "exit_io env p k = (case tsk_io_context p of None \<Rightarrow> k | Some a \<Rightarrow> k\<lparr>ext := exit_io_context env a (ext k)\<rparr>)"

definition copy_sighand :: "'x fork_env \<Rightarrow> 64 word \<Rightarrow> 'x stage" where
  "copy_sighand env clone_flags k p =
     (if has clone_flags CLONE_SIGHAND then
        (Inr p, k\<lparr>sighands := upd (tsk_sighand (cur k)) (\<lambda>s. s\<lparr>sighand_count := sighand_count s + 1\<rparr>) (sighands k)\<rparr>)
      else
        (case new_sighand env of
           None \<Rightarrow> (Inl (- ENOMEM), k)
         | Some a \<Rightarrow>
             (Inr (p\<lparr>tsk_sighand := a\<rparr>),
              k\<lparr>sighands := (sighands k)(a \<mapsto> \<lparr>sighand_count = 1,
                  sig_action = sig_action (the (sighands k (tsk_sighand (cur k))))\<rparr>)\<rparr>)))"

definition exit_sighand :: "task_struct \<Rightarrow> 'x kern \<Rightarrow> 'x kern" where
  "exit_sighand p k = cleanup_sighand (tsk_sighand p) k"

text \<open>\<open>copy_signal\<close> for the task at address \<open>t\<close>.\<close>

definition copy_signal :: "'x fork_env \<Rightarrow> 64 word \<Rightarrow> nat \<Rightarrow> 'x stage" where
  "copy_signal env clone_flags t k p =
     (if has clone_flags CLONE_THREAD then (Inr p, k)
      else
        (case new_signal env of
           None \<Rightarrow> (Inl (- ENOMEM), k)
         | Some a \<Rightarrow>
             (Inr (p\<lparr>tsk_signal := a\<rparr>),
              k\<lparr>signals := (signals k)(a \<mapsto>
                 \<lparr>sig_nr_threads = 1, live = 1, sigcnt = 1, thread_head = [t], multiprocess = 0, sig_flags = 0,
                  rlim_nproc = rlim_nproc (cur_signal k), oom_score_adj = oom_score_adj (cur_signal k),
                  oom_score_adj_min = oom_score_adj_min (cur_signal k), oom_mm = None,
                  has_child_subreaper = False, is_child_subreaper = False, sig_pids = \<lambda>_. None\<rparr>)\<rparr>)))"

text \<open>\<open>free_signal_struct\<close>, at \<open>bad_fork_cleanup_signal\<close>.\<close>

definition free_signal_struct :: "nat \<Rightarrow> 'x kern \<Rightarrow> 'x kern" where
  "free_signal_struct a k =
     (let k1 = (case Option.bind (signals k a) oom_mm of None \<Rightarrow> k | Some m \<Rightarrow> mmdrop m k) in
      k1\<lparr>signals := (signals k1)(a := None)\<rparr>)"

definition cleanup_signal :: "64 word \<Rightarrow> task_struct \<Rightarrow> 'x kern \<Rightarrow> 'x kern" where
  "cleanup_signal clone_flags p k = (if has clone_flags CLONE_THREAD then k else free_signal_struct (tsk_signal p) k)"

definition copy_oom_score_adj :: "64 word \<Rightarrow> task_struct \<Rightarrow> 'x kern \<Rightarrow> 'x kern" where
  "copy_oom_score_adj clone_flags p k =
     (case tsk_mm p of
        None \<Rightarrow> k
      | Some a \<Rightarrow>
          if clone_flags AND (CLONE_VM OR CLONE_THREAD OR CLONE_VFORK) \<noteq> CLONE_VM then k
          else
            k\<lparr>mms := upd a (\<lambda>m. m\<lparr>mm_flags := mm_flags m OR push_bit MMF_MULTIPROCESS 1\<rparr>) (mms k),
              signals := upd (tsk_signal p)
                (\<lambda>s. s\<lparr>oom_score_adj := oom_score_adj (cur_signal k), oom_score_adj_min := oom_score_adj_min (cur_signal k)\<rparr>)
                (signals k)\<rparr>)"

subsection \<open>Allocating the task\<close>

definition free_task_struct :: "nat \<Rightarrow> 'x kern \<Rightarrow> 'x kern" where
  "free_task_struct t k = k\<lparr>task_slab := (task_slab k)(t := False)\<rparr>"

text \<open>
  \<open>dup_task_struct\<close>; \<open>arch_dup_task_struct\<close> copies the whole structure, and what belongs to the new task alone
  is set afterwards.
\<close>

definition own_fields :: "nat \<Rightarrow> task_struct \<Rightarrow> task_struct" where
  "own_fields s orig =
     (let tsk = orig\<lparr>tsk_stack := Some s, tsk_stack_refcount := 1, tsk_seccomp_filter := None\<rparr>;
          tsk = clear_tsk_need_resched tsk in
      tsk\<lparr>tsk_rcu_users := 2, tsk_usage := 1\<rparr>)"

definition dup_task_struct :: "'x fork_env \<Rightarrow> task_struct \<Rightarrow> 'x kern \<Rightarrow> (nat \<times> task_struct) option \<times> 'x kern" where
  "dup_task_struct env orig k =
     (case alloc_task env of
        None \<Rightarrow> (None, k)
      | Some t \<Rightarrow>
          (case alloc_thread_stack_node (vmalloc_stack env) (k\<lparr>task_slab := (task_slab k)(t := True)\<rparr>) of
             (None, k1) \<Rightarrow> (None, free_task_struct t k1)
           | (Some s, k1) \<Rightarrow>
               let (ret, a) = memcg_charge_kernel_stack (memcg_charge env) s (acct k1); k2 = k1\<lparr>acct := a\<rparr> in
               if ret \<noteq> 0 \<or> arch_dup_task_err env \<noteq> 0 then
                 (None, free_task_struct t (free_thread_stack s k2))
               else (Some (t, own_fields s orig), k2\<lparr>acct := account_kernel_stack s 1 a\<rparr>)))"

text \<open>
  The code at \<open>bad_fork_free\<close>; the reference to the seccomp filter is dropped with the step that takes it, and the callback
  of \<open>delayed_free_task\<close> is taken to have run.
\<close>

definition discard_task :: "nat \<Rightarrow> task_struct \<Rightarrow> 'x kern \<Rightarrow> 'x kern" where
  "discard_task t p k = free_task_struct t (snd (put_task_stack (p\<lparr>tsk_state := TASK_DEAD\<rparr>) k))"

subsection \<open>The steps\<close>

text \<open>The combinations of flags that are refused at once.\<close>

definition bad_clone_flags :: "'x fork_env \<Rightarrow> 'x kern \<Rightarrow> 64 word \<Rightarrow> bool" where
  "bad_clone_flags env k fl \<longleftrightarrow>
     fl AND (CLONE_NEWNS OR CLONE_FS) = (CLONE_NEWNS OR CLONE_FS)
     \<or> fl AND (CLONE_NEWUSER OR CLONE_FS) = (CLONE_NEWUSER OR CLONE_FS)
     \<or> has fl CLONE_THREAD \<and> \<not> has fl CLONE_SIGHAND
     \<or> has fl CLONE_SIGHAND \<and> \<not> has fl CLONE_VM
     \<or> has fl CLONE_PARENT \<and> sig_flags (cur_signal k) AND SIGNAL_UNKILLABLE \<noteq> 0
     \<or> has fl CLONE_THREAD \<and> (has fl (CLONE_NEWUSER OR CLONE_NEWPID) \<or> pid_ns_differs env)
     \<or> has fl CLONE_PIDFD \<and> has fl (CLONE_DETACHED OR CLONE_THREAD)"

text \<open>Putting the new task's signal collector on the list of the parent, and taking it off.\<close>

definition delay_signals :: "64 word \<Rightarrow> 'x kern \<Rightarrow> 'x kern" where
  "delay_signals fl k =
     (if has fl CLONE_THREAD then k
      else k\<lparr>signals := upd (tsk_signal (cur k)) (\<lambda>s. s\<lparr>multiprocess := multiprocess s + 1\<rparr>) (signals k)\<rparr>)"

definition undelay_signals :: "64 word \<Rightarrow> 'x kern \<Rightarrow> 'x kern" where
  "undelay_signals fl k =
     (if has fl CLONE_THREAD then k
      else k\<lparr>signals := upd (tsk_signal (cur k)) (\<lambda>s. s\<lparr>multiprocess := multiprocess s - 1\<rparr>) (signals k)\<rparr>)"

definition set_tids :: "kernel_clone_args \<Rightarrow> task_struct \<Rightarrow> task_struct" where
  "set_tids args p = p\<lparr>tsk_set_child_tid := (if has (flags args) CLONE_CHILD_SETTID then child_tid args else 0),
                      tsk_clear_child_tid := (if has (flags args) CLONE_CHILD_CLEARTID then child_tid args else 0)\<rparr>"

definition rt_mutex_init_task :: "task_struct \<Rightarrow> task_struct" where
  "rt_mutex_init_task p = p\<lparr>tsk_pi_waiters := [], tsk_pi_top_task := None, tsk_pi_blocked_on := None\<rparr>"

definition nproc_refused :: "'x fork_env \<Rightarrow> task_struct \<Rightarrow> 'x kern \<Rightarrow> bool" where
  "nproc_refused env p k \<longleftrightarrow>
     user_processes env (ext k) (cred_user (tsk_cred p)) \<ge> rlim_nproc (the (signals k (tsk_signal p)))
     \<and> cred_user (tsk_cred p) \<noteq> init_user env \<and> \<not> capable env"

definition clear_nproc :: "'x kern \<Rightarrow> 'x kern" where
  "clear_nproc k = k\<lparr>tasks := upd (current k) (\<lambda>t. t\<lparr>tsk_flags := tsk_flags t AND NOT PF_NPROC_EXCEEDED\<rparr>) (tasks k)\<rparr>"

definition copy_creds :: "'x fork_env \<Rightarrow> 'x stage" where
  "copy_creds env = attempt (acquire_ext (creds env)) keep (assign (\<lambda>k p. p\<lparr>tsk_cred := new_cred env (tsk_cred p)\<rparr>))"

definition too_many_threads :: "'x kern \<Rightarrow> int" where
  "too_many_threads k = (if nr_threads k \<ge> max_threads k then - EAGAIN else 0)"

definition rcu_copy_process :: "task_struct \<Rightarrow> task_struct" where
  "rcu_copy_process p = p\<lparr>tsk_rcu_read_lock_nesting := 0, tsk_rcu_read_unlock_special := 0, tsk_rcu_tasks_holdout := False,
     tsk_rcu_tasks_idle_cpu := - 1\<rparr>"

definition init_child :: "'x kern \<Rightarrow> task_struct \<Rightarrow> task_struct" where
  "init_child k p =
     (rcu_copy_process p)\<lparr>tsk_flags := (tsk_flags p AND NOT (PF_SUPERPRIV OR PF_WQ_WORKER OR PF_IDLE)) OR PF_FORKNOEXEC,
       tsk_children := [], tsk_vfork_done := False, tsk_utime := 0, tsk_stime := 0, tsk_gtime := 0,
       tsk_default_timer_slack_ns := tsk_timer_slack_ns (cur k), tsk_io_context := None\<rparr>"

definition start_delayacct :: "'x fork_env \<Rightarrow> 'x stage" where
  "start_delayacct env k p = (Inr (init_child k p), k\<lparr>ext := delayacct_init env (ext k)\<rparr>)"

definition stop_delayacct :: "'x fork_env \<Rightarrow> task_struct \<Rightarrow> 'x kern \<Rightarrow> 'x kern" where
  "stop_delayacct env p k = k\<lparr>ext := delayacct_free env (ext k)\<rparr>"

text \<open>\<open>alloc_pid\<close>, unless the caller brings \<open>init_struct_pid\<close>; the number goes into the task.\<close>

definition take_pid :: "'x fork_env \<Rightarrow> int option \<Rightarrow> 'x stage" where
  "take_pid env pid k p =
     (case pid of
        Some nr \<Rightarrow> (Inr (p\<lparr>tsk_pid := nr\<rparr>), k)
      | None \<Rightarrow>
          (case alloc_pid env (ext k) of
             (Inl e, x) \<Rightarrow> (Inl e, k\<lparr>ext := x\<rparr>)
           | (Inr nr, x) \<Rightarrow> (Inr (p\<lparr>tsk_pid := nr\<rparr>), k\<lparr>ext := x\<rparr>)))"

definition drop_pid :: "'x fork_env \<Rightarrow> int option \<Rightarrow> task_struct \<Rightarrow> 'x kern \<Rightarrow> 'x kern" where
  "drop_pid env pid p k = (case pid of Some _ \<Rightarrow> k | None \<Rightarrow> k\<lparr>ext := free_pid env (tsk_pid p) (ext k)\<rparr>)"

definition set_group :: "64 word \<Rightarrow> nat \<Rightarrow> 'x kern \<Rightarrow> task_struct \<Rightarrow> task_struct" where
  "set_group fl t k p =
     (if has fl CLONE_THREAD then
        p\<lparr>tsk_group_leader := tsk_group_leader (cur k), tsk_tgid := tsk_tgid (cur k), tsk_pdeath_signal := 0\<rparr>
      else p\<lparr>tsk_group_leader := t, tsk_tgid := tsk_pid p, tsk_pdeath_signal := 0\<rparr>)"

definition set_parent :: "'x fork_env \<Rightarrow> kernel_clone_args \<Rightarrow> 'x kern \<Rightarrow> task_struct \<Rightarrow> task_struct" where
  "set_parent env args k p =
     (let p1 = p\<lparr>tsk_start_time := start_ns env\<rparr> in
      if has (flags args) (CLONE_PARENT OR CLONE_THREAD) then
        p1\<lparr>tsk_real_parent := tsk_real_parent (cur k), tsk_parent_exec_id := tsk_parent_exec_id (cur k),
           tsk_exit_signal := (if has (flags args) CLONE_THREAD then - 1
                               else tsk_exit_signal (the (tasks k (tsk_group_leader (cur k)))))\<rparr>
      else
        p1\<lparr>tsk_real_parent := current k, tsk_parent_exec_id := tsk_self_exec_id (cur k),
           tsk_exit_signal := exit_signal args\<rparr>)"

text \<open>Tracing of system calls is turned off in the child.\<close>

definition stop_tracing :: "task_struct \<Rightarrow> task_struct" where
  "stop_tracing p = clear_tsk_thread_flag TIF_SYSCALL_EMU (clear_tsk_thread_flag TIF_SYSCALL_TRACE p)"

text \<open>\<open>copy_seccomp\<close>: the reference to the filter of the calling task, and the restrictions of the child.\<close>

definition take_filter :: "'x fork_env \<Rightarrow> 'x kern \<Rightarrow> 'x kern" where
  "take_filter env k =
     (case tsk_seccomp_filter (cur k) of None \<Rightarrow> k | Some f \<Rightarrow> k\<lparr>filter_refs := get_seccomp_filter env f (filter_refs k)\<rparr>)"

definition with_seccomp :: "task_struct \<Rightarrow> task_struct \<Rightarrow> task_struct" where
  "with_seccomp cur_task p =
     (let p = p\<lparr>tsk_seccomp_mode := tsk_seccomp_mode cur_task, tsk_seccomp_filter := tsk_seccomp_filter cur_task\<rparr>;
          p = (if task_no_new_privs cur_task then task_set_no_new_privs p else p) in
      if tsk_seccomp_mode p \<noteq> 0 then set_tsk_thread_flag TIF_SECCOMP p else p)"

definition copy_seccomp :: "'x fork_env \<Rightarrow> 'x stage" where
  "copy_seccomp env k p = (Inr (with_seccomp (cur k) p), take_filter env k)"

text \<open>\<open>put_seccomp_filter\<close>, in \<open>free_task\<close>.\<close>

definition drop_seccomp :: "'x fork_env \<Rightarrow> task_struct \<Rightarrow> 'x kern \<Rightarrow> 'x kern" where
  "drop_seccomp env p k =
     (case tsk_seccomp_filter p of None \<Rightarrow> k | Some f \<Rightarrow> k\<lparr>filter_refs := put_seccomp_filter env f (filter_refs k)\<rparr>)"

definition fork_rseq :: "64 word \<Rightarrow> 'x kern \<Rightarrow> task_struct \<Rightarrow> task_struct" where
  "fork_rseq fl k p = rseq_fork (has fl CLONE_VM) (cur k) p"

definition last_checks :: "'x fork_env \<Rightarrow> 'x kern \<Rightarrow> int" where
  "last_checks env k = (if \<not> pidns_adding env then - ENOMEM else if fatal_pending env then - EINTR else 0)"

text \<open>
  The steps from \<open>copy_creds\<close> to the point where nothing can fail any more, in three groups: before
  the shared parts of the task, these parts, and after them.
\<close>

definition late_steps :: "'x fork_env \<Rightarrow> kernel_clone_args \<Rightarrow> int option \<Rightarrow> nat \<Rightarrow> 'x stage" where
  "late_steps env args pid t =
     (let fl = flags args; fd = has fl CLONE_PIDFD in
      attempt (acquire_ext (namespaces env)) (release_ext (namespaces env))
     (attempt (copy_io env fl) (exit_io env)
     (attempt (acquire_ext (thread_tls env)) (release_ext (thread_tls env))
     (attempt (take_pid env pid) (drop_pid env pid)
     (attempt (only_if fd (acquire_ext (unused_fd env))) (undo_if fd (release_ext (unused_fd env)))
     (attempt (only_if fd (acquire_ext (pid_file env))) (undo_if fd (release_ext (pid_file env)))
     (attempt (only_if fd (check (\<lambda>_. put_user_err env))) keep
     (attempt (assign (\<lambda>_. stop_tracing)) keep
     (attempt (assign (set_group fl t)) keep
     (attempt (acquire_ext (cgroup env)) (release_ext (cgroup env))
     (attempt (assign (set_parent env args)) keep
     (attempt (copy_seccomp env) (drop_seccomp env)
     (attempt (assign (fork_rseq fl)) keep
     (check (last_checks env)))))))))))))))"

definition shared_steps :: "'x fork_env \<Rightarrow> 64 word \<Rightarrow> nat \<Rightarrow> 'x stage \<Rightarrow> 'x stage" where
  "shared_steps env fl t rest =
     attempt (copy_files env fl) (exit_files env)
    (attempt (copy_fs env fl) (exit_fs env)
    (attempt (copy_sighand env fl) exit_sighand
    (attempt (copy_signal env fl t) (cleanup_signal fl)
    (attempt (copy_mm (mm_part env) fl t) (cleanup_mm (mm_part env) t) rest))))"

definition early_steps :: "'x fork_env \<Rightarrow> 'x stage \<Rightarrow> 'x stage" where
  "early_steps env rest =
     attempt (copy_creds env) (release_ext (creds env))
    (attempt (check too_many_threads) keep
    (attempt (start_delayacct env) (stop_delayacct env)
    (attempt (acquire_ext (mempolicy env)) (release_ext (mempolicy env))
    (attempt (check (\<lambda>_. sched_fork env)) keep
    (attempt (acquire_ext (perf_event env)) (release_ext (perf_event env))
    (attempt (acquire_ext (audit_context env)) (release_ext (audit_context env))
    (attempt (acquire_ext (security env)) (release_ext (security env))
    (attempt (acquire_ext (semundo env)) (release_ext (semundo env)) rest))))))))"

definition fork_steps :: "'x fork_env \<Rightarrow> kernel_clone_args \<Rightarrow> int option \<Rightarrow> nat \<Rightarrow> 'x stage" where
  "fork_steps env args pid t =
     early_steps env (shared_steps env (flags args) t (late_steps env args pid t))"

text \<open>
  \<open>init_task_pid\<close>: the number goes into the task, or into its signal structure.
\<close>

definition init_task_pid :: "pid_type \<Rightarrow> int option \<Rightarrow> task_struct \<times> (nat \<Rightarrow> signal_struct option) \<Rightarrow>
    task_struct \<times> (nat \<Rightarrow> signal_struct option)" where
  "init_task_pid type pid = (\<lambda>(task, sigs).
     if type = PIDTYPE_PID then (task\<lparr>tsk_thread_pid := pid\<rparr>, sigs)
     else (task, upd (tsk_signal task) (\<lambda>s. s\<lparr>sig_pids := (sig_pids s)(type := pid)\<rparr>) sigs))"

text \<open>Making the task visible: its place in the process tree or the thread group, and the counters.\<close>

definition publish :: "'x fork_env \<Rightarrow> kernel_clone_args \<Rightarrow> bool \<Rightarrow> nat \<Rightarrow> task_struct \<Rightarrow> 'x kern \<Rightarrow> 'x kern" where
  "publish env args trace t p k =
     (let k1 =
        (if tsk_pid p = 0 then k\<lparr>tasks := (tasks k)(t \<mapsto> p)\<rparr>
         else
           let p1 = p\<lparr>tsk_parent := ptrace_parent env p (has (flags args) CLONE_PTRACE \<or> trace)\<rparr>;
               (p1, sigs) = init_task_pid PIDTYPE_PID (Some (tsk_pid p)) (p1, signals k) in
           if thread_group_leader env p1 then
             let (p1, sigs) = init_task_pid PIDTYPE_TGID (Some (tsk_pid p)) (p1, sigs);
                 (p1, sigs) = init_task_pid PIDTYPE_PGID (sig_pids (cur_signal k) PIDTYPE_PGID) (p1, sigs);
                 (p1, sigs) = init_task_pid PIDTYPE_SID (sig_pids (cur_signal k) PIDTYPE_SID) (p1, sigs);
                 parent_sig = the (sigs (tsk_signal (the (tasks k (tsk_real_parent p))))) in
             k\<lparr>signals := upd (tsk_signal p)
                 (\<lambda>s. s\<lparr>sig_flags := (if child_reaper env then sig_flags s OR SIGNAL_UNKILLABLE else sig_flags s),
                        has_child_subreaper := has_child_subreaper parent_sig \<or> is_child_subreaper parent_sig\<rparr>) sigs,
               tasks := upd (tsk_real_parent p) (\<lambda>q. q\<lparr>tsk_children := tsk_children q @ [t]\<rparr>) ((tasks k)(t \<mapsto> p1)),
               task_list := task_list k @ [t],
               process_counts := process_counts k + 1, nr_threads := nr_threads k + 1\<rparr>
           else
             k\<lparr>signals := upd (tsk_signal (cur k))
                 (\<lambda>s. s\<lparr>sig_nr_threads := sig_nr_threads s + 1, live := live s + 1, sigcnt := sigcnt s + 1,
                        thread_head := thread_head s @ [t]\<rparr>) sigs,
               tasks := (tasks k)(t \<mapsto> p1), nr_threads := nr_threads k + 1\<rparr>) in
      copy_oom_score_adj (flags args) p
        (undelay_signals (flags args) (k1\<lparr>total_forks := total_forks k + 1\<rparr>)))"

text \<open>
  \<open>copy_process\<close>: a negative error number, or the address of the new task.
\<close>

definition copy_process ::
  "'x fork_env \<Rightarrow> int option \<Rightarrow> bool \<Rightarrow> kernel_clone_args \<Rightarrow> 'x kern \<Rightarrow> (int + nat) \<times> 'x kern" where
  "copy_process env pid trace args k =
     (let fl = flags args in
      if bad_clone_flags env k fl then (Inl (- EINVAL), k)
      else
        let k1 = delay_signals fl k in
        if sig_pending env then (Inl (- ERESTARTNOINTR), undelay_signals fl k1)
        else
          (case dup_task_struct env (cur k1) k1 of
             (None, k2) \<Rightarrow> (Inl (- ENOMEM), undelay_signals fl k2)
           | (Some (t, p0), k2) \<Rightarrow>
               let p = rt_mutex_init_task (set_tids args p0) in
               if nproc_refused env p k2 then (Inl (- EAGAIN), undelay_signals fl (discard_task t p k2))
               else
                 (case fork_steps env args pid t (clear_nproc k2) p of
                    (Inl e, k3) \<Rightarrow> (Inl e, undelay_signals fl (discard_task t p k3))
                  | (Inr p1, k3) \<Rightarrow> (Inr t, publish env args trace t p1 k3))))"

end
