(* ===== verification/Fork_Stacks.thy ===== *)
theory Fork_Stacks
  imports Copy_Process
begin

section \<open>The stack of a new task\<close>

text \<open>
  Which stacks are in use, what taking and giving back a stack does to the cache and the accounts, and what
  \<open>dup_task_struct\<close> holds when it succeeds or leaves when it fails.
\<close>

subsection \<open>Stacks in use\<close>

text \<open>
  A stack is in use when it is allocated and not in the cache.  Taking a stack puts it in use, giving it back ends that,
  although the cache may have a new one afterwards.
\<close>

definition in_use :: "'x kern \<Rightarrow> nat \<Rightarrow> bool" where
  "in_use k s \<longleftrightarrow> stacks k s \<and> Some s \<notin> set (cached_stacks k)"

definition cached_list :: "nat option list \<Rightarrow> nat list" where
  "cached_list slots = concat (map (\<lambda>x. case x of None \<Rightarrow> [] | Some s \<Rightarrow> [s]) slots)"

text \<open>The cache holds no stack twice and only allocated ones.\<close>

definition cache_ok :: "'x kern \<Rightarrow> bool" where
  "cache_ok k \<longleftrightarrow> distinct (cached_list (cached_stacks k)) \<and> (\<forall>s. Some s \<in> set (cached_stacks k) \<longrightarrow> stacks k s)"

definition same_but_stacks :: "'x kern \<Rightarrow> 'x kern \<Rightarrow> bool" where
  "same_but_stacks k k' \<longleftrightarrow> (\<exists>c st. k' = k\<lparr>cached_stacks := c, stacks := st\<rparr>) \<and> in_use k' = in_use k \<and> (cache_ok k \<longrightarrow> cache_ok k')"

lemma same_but_stacks_refl [simp]: "same_but_stacks k k"
  unfolding same_but_stacks_def by (intro conjI exI [of _ "cached_stacks k"] exI [of _ "stacks k"]) simp_all

lemma cached_list_set: "s \<in> set (cached_list slots) \<longleftrightarrow> Some s \<in> set slots"
  by (induction slots) (auto simp: cached_list_def split: option.splits)

lemma take_cached_list: "take_cached slots = Some (s, slots') \<Longrightarrow> cached_list slots = s # cached_list slots'"
  by (induction slots arbitrary: slots' rule: take_cached.induct) (auto simp: cached_list_def)

lemma take_cached_None: "take_cached slots = None \<Longrightarrow> Some x \<notin> set slots"
  by (induction slots rule: take_cached.induct) auto

lemma put_cached_list:
  "put_cached s slots = Some slots' \<Longrightarrow> \<exists>xs ys. cached_list slots = xs @ ys \<and> cached_list slots' = xs @ s # ys"
proof (induction s slots arbitrary: slots' rule: put_cached.induct)
  case (2 s slots)
  then show ?case by (intro exI [of _ "[]"] exI [of _ "cached_list slots"]) (auto simp: cached_list_def)
next
  case (3 s t slots)
  then obtain r where r: "put_cached s slots = Some r" "slots' = Some t # r" by auto
  from 3(1) [OF r(1)] obtain xs ys where "cached_list slots = xs @ ys" "cached_list r = xs @ s # ys" by blast
  then show ?case using r(2) by (intro exI [of _ "t # xs"] exI [of _ ys]) (simp add: cached_list_def)
qed simp

lemma stacks_cong:
  assumes "cached_stacks j = cached_stacks k" and "stacks j = stacks k"
  shows "in_use j = in_use k" and "cache_ok j = cache_ok k"
  using assms by (simp_all add: in_use_def cache_ok_def fun_eq_iff)

lemma alloc_stack_effect:
  assumes "alloc_thread_stack_node v k = (r, k1)"
  shows "k1 = k\<lparr>cached_stacks := cached_stacks k1, stacks := stacks k1\<rparr>" and "r = None \<Longrightarrow> k1 = k"
  using assms by (cases k; auto simp: alloc_thread_stack_node_def split: option.splits prod.splits)+

lemma alloc_stack_use:
  assumes "alloc_thread_stack_node v k = (Some s, k1)" and "\<And>s. v = Some s \<Longrightarrow> \<not> stacks k s" and "cache_ok k"
  shows "\<not> in_use k s" and "in_use k1 = (in_use k)(s := True)" and "cache_ok k1"
proof -
  have "\<not> in_use k s \<and> in_use k1 = (in_use k)(s := True) \<and> cache_ok k1"
  proof (cases "take_cached (cached_stacks k)")
    case None
    then have v: "v = Some s" "k1 = k\<lparr>stacks := (stacks k)(s := True)\<rparr>"
      using assms(1) by (auto simp: alloc_thread_stack_node_def split: option.splits)
    have "Some x \<notin> set (cached_stacks k)" for x using take_cached_None [OF None] .
    then show ?thesis using v assms(2,3) by (auto simp: in_use_def cache_ok_def fun_eq_iff)
  next
    case (Some r)
    then obtain slots where r: "take_cached (cached_stacks k) = Some (s, slots)" "k1 = k\<lparr>cached_stacks := slots\<rparr>"
      using assms(1) by (cases r) (auto simp: alloc_thread_stack_node_def)
    note list = take_cached_list [OF r(1)]
    have "Some x \<in> set (cached_stacks k) \<longleftrightarrow> x = s \<or> Some x \<in> set slots" for x
      using list by (metis cached_list_set set_ConsD list.set_intros)
    moreover have "Some s \<notin> set slots" using assms(3) list by (simp add: cache_ok_def cached_list_set)
    ultimately show ?thesis using assms(3) r(2) list by (auto simp: in_use_def cache_ok_def fun_eq_iff)
  qed
  then show "\<not> in_use k s" "in_use k1 = (in_use k)(s := True)" "cache_ok k1" by simp_all
qed

lemma free_stack_effect:
  "\<exists>c st. free_thread_stack s k = k\<lparr>cached_stacks := c, stacks := st, acct := uncharge_kernel_stack s (acct k)\<rparr>"
proof (cases "put_cached s (cached_stacks k)")
  case None
  then show ?thesis
    by (intro exI [of _ "cached_stacks k"] exI [of _ "(stacks k)(s := False)"]) (simp add: free_thread_stack_def)
next
  case (Some c)
  then show ?thesis by (intro exI [of _ c] exI [of _ "stacks k"]) (simp add: free_thread_stack_def)
qed

lemma free_stack_use:
  assumes "in_use k s" and "cache_ok k"
  shows "in_use (free_thread_stack s k) = (in_use k)(s := False)" and "cache_ok (free_thread_stack s k)"
proof -
  have "in_use (free_thread_stack s k) = (in_use k)(s := False) \<and> cache_ok (free_thread_stack s k)"
  proof (cases "put_cached s (cached_stacks k)")
    case None
    then show ?thesis using assms by (auto simp: free_thread_stack_def in_use_def cache_ok_def fun_eq_iff)
  next
    case (Some c)
    from put_cached_list [OF this] obtain xs ys where l: "cached_list (cached_stacks k) = xs @ ys" "cached_list c = xs @ s # ys" by blast
    then have "Some x \<in> set c \<longleftrightarrow> x = s \<or> Some x \<in> set (cached_stacks k)" for x
      by (metis Un_iff cached_list_set insert_iff list.simps(15) set_append)
    moreover have "distinct (cached_list c)"
      using assms l cached_list_set [of s "cached_stacks k"] by (auto simp: cache_ok_def in_use_def)
    ultimately show ?thesis using assms Some by (auto simp: free_thread_stack_def in_use_def cache_ok_def fun_eq_iff)
  qed
  then show "in_use (free_thread_stack s k) = (in_use k)(s := False)" "cache_ok (free_thread_stack s k)" by simp_all
qed

subsection \<open>Copying the task structure\<close>

text \<open>The code of \<open>release_task_stack\<close> for a dead task.\<close>

definition give_back :: "nat \<Rightarrow> 'x kern \<Rightarrow> 'x kern" where
  "give_back s k = free_thread_stack s (k\<lparr>acct := account_kernel_stack s (- 1) (acct k)\<rparr>)"

text \<open>In the second state the stack \<open>s\<close>, and nothing else, is taken from the first.\<close>

definition holds_stack :: "'x kern \<Rightarrow> nat \<Rightarrow> 'x kern \<Rightarrow> bool" where
  "holds_stack k s k2 \<longleftrightarrow> \<not> in_use k s \<and> in_use k2 = (in_use k)(s := True) \<and> cache_ok k2
     \<and> uncharge_kernel_stack s (account_kernel_stack s (- 1) (acct k2)) = acct k
     \<and> (\<forall>u. u \<noteq> s \<longrightarrow> uncharged u (acct k2) = uncharged u (acct k))"

lemma give_back_effect:
  assumes "holds_stack k s k2"
  shows "in_use (give_back s k2) = in_use k" and "cache_ok (give_back s k2)"
    and "\<exists>c st. give_back s k2 = k2\<lparr>cached_stacks := c, stacks := st, acct := acct k\<rparr>"
proof -
  let ?k = "k2\<lparr>acct := account_kernel_stack s (- 1) (acct k2)\<rparr>"
  note held = assms [unfolded holds_stack_def]
  have "in_use ?k = in_use k2" "cache_ok ?k = cache_ok k2" by (rule stacks_cong; simp)+
  then have use: "in_use ?k s" "cache_ok ?k" "in_use ?k = (in_use k)(s := True)" using held by simp_all
  then show "in_use (give_back s k2) = in_use k" "cache_ok (give_back s k2)"
    unfolding give_back_def using free_stack_use [OF use(1,2)] held by (auto simp: fun_eq_iff)
  show "\<exists>c st. give_back s k2 = k2\<lparr>cached_stacks := c, stacks := st, acct := acct k\<rparr>"
    unfolding give_back_def using free_stack_effect [of s ?k] held by auto
qed

lemma dup_task_None:
  assumes "dup_task_struct env orig k = (None, k2)" and "\<forall>t. alloc_task env = Some t \<longrightarrow> \<not> task_slab k t"
    and "\<forall>s. vmalloc_stack env = Some s \<longrightarrow> \<not> stacks k s" and "\<forall>s. \<not> in_use k s \<longrightarrow> uncharged s (acct k)" and "cache_ok k"
  shows "same_but_stacks k k2"
proof (cases "alloc_task env")
  case None
  then show ?thesis using assms(1) by (simp add: dup_task_struct_def)
next
  case (Some t)
  let ?k = "k\<lparr>task_slab := (task_slab k)(t := True)\<rparr>"
  have slab: "(task_slab k)(t := False) = task_slab k" using assms(2) Some by (simp add: fun_upd_idem)
  have use: "in_use ?k = in_use k" "cache_ok ?k = cache_ok k" by (rule stacks_cong; simp)+
  obtain sr k1 where alloc: "alloc_thread_stack_node (vmalloc_stack env) ?k = (sr, k1)" by fastforce
  show ?thesis
  proof (cases sr)
    case None
    then have "k2 = k"
      using assms(1) Some alloc alloc_stack_effect(2) [OF alloc] slab by (auto simp: dup_task_struct_def free_task_struct_def)
    then show ?thesis by simp
  next
    case sr: (Some s)
    obtain ret a where charge: "memcg_charge_kernel_stack (memcg_charge env) s (acct k1) = (ret, a)" by fastforce
    then have k2: "k2 = free_task_struct t (free_thread_stack s (k1\<lparr>acct := a\<rparr>))"
      using assms(1) Some alloc sr by (auto simp: dup_task_struct_def Let_def split: if_splits)
    obtain c1 st1 where k1: "k1 = ?k\<lparr>cached_stacks := c1, stacks := st1\<rparr>" using alloc_stack_effect(1) [OF alloc] by metis
    note taken = alloc_stack_use [OF alloc [unfolded sr]]
    have "\<not> in_use k s" "in_use k1 = (in_use k)(s := True)" "cache_ok k1" using taken assms(3,5) use by simp_all
    note taken = this
    have "uncharged s (acct k1)" using taken(1) assms(4) by (simp add: k1)
    note undone = uncharge_charge [OF this charge]
    have cong: "in_use (k1\<lparr>acct := a\<rparr>) = in_use k1" "cache_ok (k1\<lparr>acct := a\<rparr>) = cache_ok k1" by (rule stacks_cong; simp)+
    obtain c st where free: "free_thread_stack s (k1\<lparr>acct := a\<rparr>) = k1\<lparr>cached_stacks := c, stacks := st\<rparr>"
      using free_stack_effect [of s "k1\<lparr>acct := a\<rparr>"] undone by auto
    have "in_use (k1\<lparr>cached_stacks := c, stacks := st\<rparr>) = in_use k \<and> cache_ok (k1\<lparr>cached_stacks := c, stacks := st\<rparr>)"
      using free_stack_use [of "k1\<lparr>acct := a\<rparr>" s] taken cong unfolding free by (auto simp: fun_eq_iff)
    moreover have "k2 = k\<lparr>cached_stacks := c, stacks := st\<rparr>"
      unfolding k2 free unfolding k1 free_task_struct_def using slab by simp
    ultimately show ?thesis by (auto simp: same_but_stacks_def in_use_def cache_ok_def fun_eq_iff)
  qed
qed

lemma dup_task_Some:
  assumes "dup_task_struct env orig k = (Some (t, p), k2)" and "\<forall>s. vmalloc_stack env = Some s \<longrightarrow> \<not> stacks k s"
    and "\<forall>s. \<not> in_use k s \<longrightarrow> uncharged s (acct k)" and "cache_ok k"
  shows "alloc_task env = Some t" and "\<exists>s. p = own_fields s orig \<and> holds_stack k s k2"
    and "k2 = k\<lparr>task_slab := (task_slab k)(t := True), cached_stacks := cached_stacks k2, stacks := stacks k2, acct := acct k2\<rparr>"
proof -
  let ?k = "k\<lparr>task_slab := (task_slab k)(t := True)\<rparr>"
  have use: "in_use ?k = in_use k" "cache_ok ?k = cache_ok k" by (rule stacks_cong; simp)+
  show "alloc_task env = Some t"
    using assms(1) by (auto simp: dup_task_struct_def Let_def split: option.splits prod.splits if_splits)
  then obtain s k1 a where alloc: "alloc_thread_stack_node (vmalloc_stack env) ?k = (Some s, k1)"
    and charge: "memcg_charge_kernel_stack (memcg_charge env) s (acct k1) = (0, a)"
    and k2: "k2 = k1\<lparr>acct := account_kernel_stack s 1 a\<rparr>" and p: "p = own_fields s orig"
    using assms(1) by (auto simp: dup_task_struct_def Let_def split: option.splits prod.splits if_splits)
  note k1 = alloc_stack_effect(1) [OF alloc]
  show "k2 = k\<lparr>task_slab := (task_slab k)(t := True), cached_stacks := cached_stacks k2, stacks := stacks k2, acct := acct k2\<rparr>"
    unfolding k2 by (subst k1) simp
  have acct1: "acct k1 = acct k" by (subst k1) simp
  have taken: "\<not> in_use k s" "in_use k1 = (in_use k)(s := True)" "cache_ok k1" using alloc_stack_use [OF alloc] assms(2,4) use by simp_all
  have cong: "in_use k2 = in_use k1" "cache_ok k2 = cache_ok k1" unfolding k2 by (rule stacks_cong; simp)+
  have "uncharged s (acct k1)" using taken(1) assms(3) acct1 by simp
  from uncharge_charge [OF this charge] have "uncharge_kernel_stack s (account_kernel_stack s (- 1) (acct k2)) = acct k"
    by (simp add: k2 account_undo acct1)
  moreover have "uncharged u (acct k2) = uncharged u (acct k)" if "u \<noteq> s" for u
    using charge_other [OF charge that] by (simp add: k2 acct1 uncharged_def)
  ultimately show "\<exists>s. p = own_fields s orig \<and> holds_stack k s k2"
    using p taken cong by (intro exI [of _ s]) (simp add: holds_stack_def)
qed

end
