(* ===== verification/Fork_Undo.thy ===== *)
theory Fork_Undo
  imports Fork_Stacks
begin

section \<open>A failed fork leaves no trace\<close>

text \<open>
  Every step of \<open>copy_process\<close> is reversible: when it fails it has changed nothing, and its label
  in the chain of releases takes back exactly what it acquired.  The locale \<open>reversible\<close> is that
  contract; it is interpreted for the steps of \<^verbatim>\<open>fork.c\<close>, and for those of other subsystems under
  what these promise.  With it the whole chain restores the kernel state.
\<close>

definition restores :: "('x kern \<Rightarrow> task_struct \<Rightarrow> bool) \<Rightarrow> 'x stage \<Rightarrow> bool" where
  "restores P st \<longleftrightarrow> (\<forall>k p e k1. P k p \<longrightarrow> st k p = (Inl e, k1) \<longrightarrow> k1 = k)"

definition leads :: "('x kern \<Rightarrow> task_struct \<Rightarrow> bool) \<Rightarrow> 'x stage \<Rightarrow> ('x kern \<Rightarrow> task_struct \<Rightarrow> bool) \<Rightarrow> bool" where
  "leads P st Q \<longleftrightarrow> (\<forall>k p p1 k1. P k p \<longrightarrow> st k p = (Inr p1, k1) \<longrightarrow> Q k1 p1)"

locale reversible =
  fixes pre :: "'x kern \<Rightarrow> task_struct \<Rightarrow> bool" and acq :: "'x stage"
    and rel :: "task_struct \<Rightarrow> 'x kern \<Rightarrow> 'x kern"
  assumes fails_clean: "pre k p \<Longrightarrow> acq k p = (Inl e, k1) \<Longrightarrow> k1 = k"
    and undo: "pre k p \<Longrightarrow> acq k p = (Inr p1, k1) \<Longrightarrow> rel p1 k1 = k"
begin

lemma chain:
  assumes "\<And>k p. P k p \<Longrightarrow> pre k p" and "leads P acq Q" and "restores Q rest"
  shows "restores P (attempt acq rel rest)"
  unfolding restores_def
proof (intro allI impI)
  fix k p e k1
  assume P: "P k p" and run: "attempt acq rel rest k p = (Inl e, k1)"
  show "k1 = k"
  proof (cases "acq k p")
    case (Pair res k2)
    show ?thesis
    proof (cases res)
      case (Inl e')
      then show ?thesis using run Pair fails_clean [OF assms(1) [OF P]] by (simp add: attempt_def)
    next
      case (Inr p1)
      then obtain k3 where "rest k2 p1 = (Inl e, k3)" and k1: "k1 = rel p1 k3"
        using run Pair by (auto simp: attempt_def split: prod.splits sum.splits)
      moreover have "Q k2 p1" using assms(2) P Pair Inr by (auto simp: leads_def)
      ultimately have "k3 = k2" using assms(3) by (auto simp: restores_def)
      then show ?thesis using k1 undo [OF assms(1) [OF P]] Pair Inr by simp
    qed
  qed
qed

end

subsection \<open>What other subsystems promise\<close>

definition resource_ok :: "'x resource \<Rightarrow> bool" where
  "resource_ok r \<longleftrightarrow> (\<forall>x e x'. acquire r x = (e, x') \<longrightarrow> (if e = 0 then release r x' = x else x' = x))"

definition put_files_ok :: "'x fork_env \<Rightarrow> bool" where
  "put_files_ok env \<longleftrightarrow> (\<forall>a h f. h a = Some f \<longrightarrow>
     put_files env a h = h(a := if files_count f \<le> 1 then None else Some (f\<lparr>files_count := files_count f - 1\<rparr>)))"

definition put_fs_ok :: "'x fork_env \<Rightarrow> bool" where
  "put_fs_ok env \<longleftrightarrow> (\<forall>a h f. h a = Some f \<longrightarrow>
     put_fs env a h = h(a := if fs_users f \<le> 1 then None else Some (f\<lparr>fs_users := fs_users f - 1\<rparr>)))"

definition io_ok :: "'x fork_env \<Rightarrow> bool" where
  "io_ok env \<longleftrightarrow> (\<forall>a x. exit_io_context env a (ioc_task_link env a x) = x)
     \<and> (\<forall>x r x'. get_task_io_context env x = (r, x') \<longrightarrow>
          (case r of None \<Rightarrow> x' = x | Some a \<Rightarrow> exit_io_context env a x' = x))"

definition pid_ok :: "'x fork_env \<Rightarrow> bool" where
  "pid_ok env \<longleftrightarrow> (\<forall>x r x'. alloc_pid env x = (r, x') \<longrightarrow>
     (case r of Inl e \<Rightarrow> x' = x | Inr nr \<Rightarrow> 0 < nr \<and> free_pid env nr x' = x))"

text \<open>A filter with other users is not freed when one of them drops it.\<close>

definition seccomp_ok :: "'x fork_env \<Rightarrow> bool" where
  "seccomp_ok env \<longleftrightarrow> (\<forall>a h. get_seccomp_filter env a h = h(a := h a + 1))
     \<and> (\<forall>a h. 1 < h a \<longrightarrow> put_seccomp_filter env a h = h(a := h a - 1))"

definition subsystems_ok :: "'x fork_env \<Rightarrow> bool" where
  "subsystems_ok env \<longleftrightarrow>
     resource_ok (creds env) \<and> resource_ok (mempolicy env) \<and> resource_ok (perf_event env)
     \<and> resource_ok (audit_context env) \<and> resource_ok (security env) \<and> resource_ok (semundo env)
     \<and> resource_ok (namespaces env) \<and> resource_ok (thread_tls env) \<and> resource_ok (unused_fd env)
     \<and> resource_ok (pid_file env) \<and> resource_ok (cgroup env)
     \<and> (\<forall>x. delayacct_free env (delayacct_init env x) = x) \<and> io_ok env \<and> pid_ok env
     \<and> put_files_ok env \<and> put_fs_ok env \<and> exit_mmap_ok (mm_part env)
     \<and> seccomp_ok env"

subsection \<open>The objects of the calling task\<close>

definition files_ready :: "'x fork_env \<Rightarrow> 'x kern \<Rightarrow> bool" where
  "files_ready env k \<longleftrightarrow> (\<forall>a. tsk_files (cur k) = Some a \<longrightarrow>
     (\<exists>f. filess k a = Some f \<and> 0 < files_count f
        \<and> (\<forall>b g. dup_fd env f = Inr (b, g) \<longrightarrow> filess k b = None \<and> files_count g = 1)))"

definition fs_ready :: "'x fork_env \<Rightarrow> 'x kern \<Rightarrow> bool" where
  "fs_ready env k \<longleftrightarrow> (\<exists>a f. tsk_fs (cur k) = Some a \<and> fss k a = Some f \<and> 0 < fs_users f
     \<and> (\<forall>b g. copy_fs_struct env f = Some (b, g) \<longrightarrow> fss k b = None \<and> fs_users g = 1))"

definition sighand_ready :: "'x fork_env \<Rightarrow> 'x kern \<Rightarrow> bool" where
  "sighand_ready env k \<longleftrightarrow> (\<exists>s. sighands k (tsk_sighand (cur k)) = Some s \<and> 0 < sighand_count s)
     \<and> (\<forall>a. new_sighand env = Some a \<longrightarrow> sighands k a = None)"

definition signal_ready :: "'x fork_env \<Rightarrow> 'x kern \<Rightarrow> bool" where
  "signal_ready env k \<longleftrightarrow> (\<forall>a. new_signal env = Some a \<longrightarrow> signals k a = None)"

definition seccomp_ready :: "'x kern \<Rightarrow> bool" where
  "seccomp_ready k \<longleftrightarrow> (\<forall>f. tsk_seccomp_filter (cur k) = Some f \<longrightarrow> 0 < filter_refs k f)"

lemma put_files_simps:
  assumes "put_files_ok env"
  shows "h a = Some f \<Longrightarrow> 0 < files_count f \<Longrightarrow> put_files env a (upd a (\<lambda>f. f\<lparr>files_count := files_count f + 1\<rparr>) h) = h"
    and "h a = None \<Longrightarrow> files_count f = 1 \<Longrightarrow> put_files env a (h(a \<mapsto> f)) = h"
proof -
  show "put_files env a (upd a (\<lambda>f. f\<lparr>files_count := files_count f + 1\<rparr>) h) = h" if "h a = Some f" "0 < files_count f"
    using assms [unfolded put_files_ok_def, rule_format, of "upd a (\<lambda>f. f\<lparr>files_count := files_count f + 1\<rparr>) h" a] that
    by (simp add: upd_def fun_upd_idem)
  show "put_files env a (h(a \<mapsto> f)) = h" if "h a = None" "files_count f = 1"
    using assms [unfolded put_files_ok_def, rule_format, of "h(a \<mapsto> f)" a] that by (simp add: fun_upd_idem)
qed

lemma put_fs_simps:
  assumes "put_fs_ok env"
  shows "h a = Some f \<Longrightarrow> 0 < fs_users f \<Longrightarrow> put_fs env a (upd a (\<lambda>f. f\<lparr>fs_users := fs_users f + 1\<rparr>) h) = h"
    and "h a = None \<Longrightarrow> fs_users f = 1 \<Longrightarrow> put_fs env a (h(a \<mapsto> f)) = h"
proof -
  show "put_fs env a (upd a (\<lambda>f. f\<lparr>fs_users := fs_users f + 1\<rparr>) h) = h" if "h a = Some f" "0 < fs_users f"
    using assms [unfolded put_fs_ok_def, rule_format, of "upd a (\<lambda>f. f\<lparr>fs_users := fs_users f + 1\<rparr>) h" a] that
    by (simp add: upd_def fun_upd_idem)
  show "put_fs env a (h(a \<mapsto> f)) = h" if "h a = None" "fs_users f = 1"
    using assms [unfolded put_fs_ok_def, rule_format, of "h(a \<mapsto> f)" a] that by (simp add: fun_upd_idem)
qed

subsection \<open>The steps are reversible\<close>

interpretation ext_step: reversible "\<lambda>k p. resource_ok r" "acquire_ext r" "release_ext r" for r :: "'x resource"
proof
  fix k :: "'x kern" and p e k1
  assume "resource_ok r" "acquire_ext r k p = (Inl e, k1)"
  then show "k1 = k"
    by (cases k) (auto simp: resource_ok_def acquire_ext_def split: prod.splits if_splits)
next
  fix k :: "'x kern" and p p1 k1
  assume "resource_ok r" "acquire_ext r k p = (Inr p1, k1)"
  then show "release_ext r p1 k1 = k"
    by (cases k) (auto simp: resource_ok_def acquire_ext_def release_ext_def split: prod.splits if_splits)
qed

interpretation fd_step: reversible "\<lambda>k p. resource_ok r" "only_if b (acquire_ext r)" "undo_if b (release_ext r)"
  for r :: "'x resource" and b
  by unfold_locales (auto simp: only_if_def undo_if_def ext_step.fails_clean ext_step.undo split: if_splits)

interpretation creds_step: reversible "\<lambda>k p. resource_ok (creds env)" "copy_creds env" "release_ext (creds env)"
  for env :: "'x fork_env"
proof
  fix k :: "'x kern" and p e k1
  assume "resource_ok (creds env)" "copy_creds env k p = (Inl e, k1)"
  then show "k1 = k"
    by (auto simp: copy_creds_def attempt_def assign_def keep_def dest: ext_step.fails_clean split: prod.splits sum.splits)
next
  fix k :: "'x kern" and p p1 k1
  assume "resource_ok (creds env)" "copy_creds env k p = (Inr p1, k1)"
  then show "release_ext (creds env) p1 k1 = k"
    using ext_step.undo [of "creds env" k p]
    by (auto simp: copy_creds_def attempt_def assign_def release_ext_def split: prod.splits sum.splits)
qed

interpretation check_step: reversible "\<lambda>k p. True" "check f" keep for f :: "'x kern \<Rightarrow> int"
  by unfold_locales (auto simp: check_def keep_def split: if_splits)

interpretation check_if_step: reversible "\<lambda>k p. True" "only_if b (check f)" keep for f :: "'x kern \<Rightarrow> int" and b
  by unfold_locales (auto simp: check_def keep_def only_if_def split: if_splits)

interpretation assign_step: reversible "\<lambda>k p. True" "assign f" keep for f :: "'x kern \<Rightarrow> task_struct \<Rightarrow> task_struct"
  by unfold_locales (auto simp: assign_def keep_def)

interpretation delayacct_step: reversible "\<lambda>k p. \<forall>x. delayacct_free env (delayacct_init env x) = x"
  "start_delayacct env" "stop_delayacct env" for env :: "'x fork_env"
  by unfold_locales (auto simp: start_delayacct_def stop_delayacct_def)

interpretation files_step: reversible
  "\<lambda>k p. put_files_ok env \<and> files_ready env k \<and> tsk_files p = tsk_files (cur k)" "copy_files env fl" "exit_files env"
  for env :: "'x fork_env" and fl
proof
  fix k :: "'x kern" and p e k1
  assume "copy_files env fl k p = (Inl e, k1)"
  then show "k1 = k" by (auto simp: copy_files_def split: option.splits if_splits sum.splits)
next
  fix k :: "'x kern" and p p1 k1
  assume pre: "put_files_ok env \<and> files_ready env k \<and> tsk_files p = tsk_files (cur k)"
    and run: "copy_files env fl k p = (Inr p1, k1)"
  show "exit_files env p1 k1 = k"
  proof (cases "tsk_files (cur k)")
    case None
    then show ?thesis using pre run by (auto simp: copy_files_def exit_files_def)
  next
    case (Some a)
    then obtain f where "filess k a = Some f" "0 < files_count f"
      "\<And>b g. dup_fd env f = Inr (b, g) \<Longrightarrow> filess k b = None \<and> files_count g = 1"
      using pre by (auto simp: files_ready_def)
    then show ?thesis
      using pre run Some
      by (cases k) (auto simp: copy_files_def exit_files_def put_files_simps simp del: One_nat_def
          split: if_splits sum.splits)
  qed
qed

interpretation fs_step: reversible
  "\<lambda>k p. put_fs_ok env \<and> fs_ready env k \<and> tsk_fs p = tsk_fs (cur k)" "copy_fs env fl" "exit_fs env"
  for env :: "'x fork_env" and fl
proof
  fix k :: "'x kern" and p e k1
  assume "copy_fs env fl k p = (Inl e, k1)"
  then show "k1 = k" by (auto simp: copy_fs_def Let_def split: option.splits if_splits)
next
  fix k :: "'x kern" and p p1 k1
  assume pre: "put_fs_ok env \<and> fs_ready env k \<and> tsk_fs p = tsk_fs (cur k)"
    and run: "copy_fs env fl k p = (Inr p1, k1)"
  then obtain a f where "tsk_fs (cur k) = Some a" "fss k a = Some f" "0 < fs_users f"
    "\<And>b g. copy_fs_struct env f = Some (b, g) \<Longrightarrow> fss k b = None \<and> fs_users g = 1"
    by (auto simp: fs_ready_def)
  then show "exit_fs env p1 k1 = k"
    using pre run
    by (cases k) (auto simp: copy_fs_def exit_fs_def put_fs_simps Let_def simp del: One_nat_def
        split: if_splits option.splits)
qed

interpretation sighand_step: reversible
  "\<lambda>k p. sighand_ready env k \<and> tsk_sighand p = tsk_sighand (cur k)" "copy_sighand env fl" exit_sighand
  for env :: "'x fork_env" and fl
proof
  fix k :: "'x kern" and p e k1
  assume "copy_sighand env fl k p = (Inl e, k1)"
  then show "k1 = k" by (auto simp: copy_sighand_def split: option.splits if_splits)
next
  fix k :: "'x kern" and p p1 k1
  assume pre: "sighand_ready env k \<and> tsk_sighand p = tsk_sighand (cur k)"
    and run: "copy_sighand env fl k p = (Inr p1, k1)"
  then obtain s where "sighands k (tsk_sighand (cur k)) = Some s" "0 < sighand_count s"
    by (auto simp: sighand_ready_def)
  then show "exit_sighand p1 k1 = k"
    using pre run
    by (cases k) (auto simp: copy_sighand_def exit_sighand_def cleanup_sighand_def sighand_ready_def upd_def fun_upd_idem
        split: if_splits option.splits)
qed

interpretation signal_step: reversible "\<lambda>k p. signal_ready env k" "copy_signal env fl t" "cleanup_signal fl"
  for env :: "'x fork_env" and fl t
proof
  fix k :: "'x kern" and p e k1
  assume "copy_signal env fl t k p = (Inl e, k1)"
  then show "k1 = k" by (auto simp: copy_signal_def split: option.splits if_splits)
next
  fix k :: "'x kern" and p p1 k1
  assume "signal_ready env k" "copy_signal env fl t k p = (Inr p1, k1)"
  then show "cleanup_signal fl p1 k1 = k"
    by (cases k) (auto simp: copy_signal_def cleanup_signal_def free_signal_struct_def signal_ready_def fun_upd_idem Let_def
        split: if_splits option.splits)
qed

interpretation mm_step: reversible "\<lambda>k p. mm_ready env t k" "copy_mm env fl t" "cleanup_mm env t" for env fl t
  by unfold_locales (auto dest: copy_mm_undo)

interpretation io_step: reversible "\<lambda>k p. io_ok env \<and> tsk_io_context p = None" "copy_io env fl" "exit_io env"
  for env :: "'x fork_env" and fl
proof
  fix k :: "'x kern" and p e k1
  assume "io_ok env \<and> tsk_io_context p = None" "copy_io env fl k p = (Inl e, k1)"
  then show "k1 = k"
    by (cases k) (fastforce simp: copy_io_def io_ok_def split: option.splits if_splits prod.splits)
next
  fix k :: "'x kern" and p p1 k1
  assume "io_ok env \<and> tsk_io_context p = None" "copy_io env fl k p = (Inr p1, k1)"
  then show "exit_io env p1 k1 = k"
    by (cases k) (fastforce simp: copy_io_def exit_io_def io_ok_def split: option.splits if_splits prod.splits)
qed

interpretation pid_step: reversible "\<lambda>k p. pid_ok env" "take_pid env pid" "drop_pid env pid" for env :: "'x fork_env" and pid
proof
  fix k :: "'x kern" and p e k1
  assume "pid_ok env" "take_pid env pid k p = (Inl e, k1)"
  then show "k1 = k"
    by (cases k) (fastforce simp: take_pid_def pid_ok_def split: option.splits sum.splits prod.splits)
next
  fix k :: "'x kern" and p p1 k1
  assume "pid_ok env" "take_pid env pid k p = (Inr p1, k1)"
  then show "drop_pid env pid p1 k1 = k"
    by (cases k) (fastforce simp: take_pid_def drop_pid_def pid_ok_def split: option.splits sum.splits prod.splits)
qed

lemma with_seccomp_filter: "tsk_seccomp_filter (with_seccomp c p) = tsk_seccomp_filter c"
  by (simp add: with_seccomp_def Let_def set_tsk_thread_flag_def task_set_no_new_privs_def TASK_PFA_SET_def)

interpretation seccomp_step: reversible "\<lambda>k p. seccomp_ok env \<and> seccomp_ready k" "copy_seccomp env" "drop_seccomp env"
  for env :: "'x fork_env"
proof
  fix k :: "'x kern" and p p1 k1
  assume ok: "seccomp_ok env \<and> seccomp_ready k" and run: "copy_seccomp env k p = (Inr p1, k1)"
  have p1: "tsk_seccomp_filter p1 = tsk_seccomp_filter (cur k)" "k1 = take_filter env k"
    using run by (auto simp: copy_seccomp_def with_seccomp_filter)
  show "drop_seccomp env p1 k1 = k"
  proof (cases "tsk_seccomp_filter (cur k)")
    case (Some f)
    have "put_seccomp_filter env f (get_seccomp_filter env f (filter_refs k)) = filter_refs k"
      using ok Some by (simp add: seccomp_ok_def seccomp_ready_def)
    then show ?thesis using p1 Some by (cases k) (simp add: drop_seccomp_def take_filter_def)
  qed (use p1 in \<open>simp add: drop_seccomp_def take_filter_def\<close>)
qed (simp add: copy_seccomp_def)

subsection \<open>The chain\<close>

lemma acquire_ext_effect: "acquire_ext r k p = (Inr p1, k1) \<Longrightarrow> p1 = p \<and> (\<exists>x. k1 = k\<lparr>ext := x\<rparr>)"
  by (auto simp: acquire_ext_def split: prod.splits if_splits)

definition late_ready :: "'x kern \<Rightarrow> task_struct \<Rightarrow> bool" where
  "late_ready k p \<longleftrightarrow> tsk_io_context p = None \<and> seccomp_ready k"

lemma seccomp_ready_updates [simp]:
  "seccomp_ready (k\<lparr>ext := x\<rparr>) = seccomp_ready k" "seccomp_ready (k\<lparr>filess := hf\<rparr>) = seccomp_ready k"
  "seccomp_ready (k\<lparr>fss := hs\<rparr>) = seccomp_ready k" "seccomp_ready (k\<lparr>sighands := hh\<rparr>) = seccomp_ready k"
  "seccomp_ready (k\<lparr>signals := hg\<rparr>) = seccomp_ready k" "seccomp_ready (k\<lparr>mms := hm\<rparr>) = seccomp_ready k"
  "seccomp_ready (k\<lparr>maps := r\<rparr>) = seccomp_ready k"
  by (simp_all add: seccomp_ready_def)

lemma seccomp_ready_leads:
  "leads (\<lambda>k p. seccomp_ready k) (acquire_ext r) (\<lambda>k p. seccomp_ready k)"
  "leads (\<lambda>k p. seccomp_ready k) (only_if b (acquire_ext r)) (\<lambda>k p. seccomp_ready k)"
  "leads (\<lambda>k p. seccomp_ready k) (only_if b (check f)) (\<lambda>k p. seccomp_ready k)"
  "leads (\<lambda>k p. seccomp_ready k) (assign g) (\<lambda>k p. seccomp_ready k)"
  "leads (\<lambda>k p. seccomp_ready k) (take_pid env pid) (\<lambda>k p. seccomp_ready k)"
  "leads late_ready (copy_io env fl) (\<lambda>k p. seccomp_ready k)"
  "leads late_ready (acquire_ext r) late_ready"
  by (auto simp: leads_def late_ready_def assign_def only_if_def check_def take_pid_def copy_io_def dest!: acquire_ext_effect
      split: if_splits option.splits sum.splits prod.splits)

lemma late_restores:
  assumes "subsystems_ok env"
  shows "restores late_ready (late_steps env args pid t)"
proof -
  let ?P = "\<lambda>k (p :: task_struct). seccomp_ready k" and ?fd = "has (flags args) CLONE_PIDFD"
  have ok: "resource_ok (namespaces env)" "resource_ok (thread_tls env)" "resource_ok (unused_fd env)"
    "resource_ok (pid_file env)" "resource_ok (cgroup env)" "io_ok env" "pid_ok env" "seccomp_ok env"
    using assms by (simp_all add: subsystems_ok_def)
  have true: "leads P st (\<lambda>_ _. True)" for P :: "'a kern \<Rightarrow> task_struct \<Rightarrow> bool" and st by (simp add: leads_def)
  have "restores (\<lambda>_ _. True) (check (last_checks env))" by (auto simp: restores_def check_def split: if_splits)
  note assign_step.chain [OF TrueI true this, where f = "fork_rseq (flags args)"]
  note seccomp_step.chain [where P = ?P and env = env, OF conjI [OF ok(8)] true this]
  note assign_step.chain [where f = "set_parent env args", OF TrueI seccomp_ready_leads(4) this]
  note ext_step.chain [OF ok(5) seccomp_ready_leads(1) this]
  note assign_step.chain [where f = "set_group (flags args) t", OF TrueI seccomp_ready_leads(4) this]
  note assign_step.chain [where f = "\<lambda>_. stop_tracing", OF TrueI seccomp_ready_leads(4) this]
  note check_if_step.chain [where f = "\<lambda>_. put_user_err env" and b = ?fd, OF TrueI seccomp_ready_leads(3) this]
  note fd_step.chain [where b = ?fd, OF ok(4) seccomp_ready_leads(2) this]
  note fd_step.chain [where b = ?fd, OF ok(3) seccomp_ready_leads(2) this]
  note pid_step.chain [where pid = pid, OF ok(7) seccomp_ready_leads(5) this]
  note ext_step.chain [OF ok(2) seccomp_ready_leads(1) this]
  note io_step.chain [where P = late_ready and env = env and fl = "flags args", OF _ seccomp_ready_leads(6) this]
  note ext_step.chain [OF ok(1) seccomp_ready_leads(7) this]
  then show ?thesis using ok(6) by (simp add: late_steps_def Let_def late_ready_def)
qed

definition shared_ready :: "'x fork_env \<Rightarrow> nat \<Rightarrow> 'x kern \<Rightarrow> task_struct \<Rightarrow> bool" where
  "shared_ready env t k p \<longleftrightarrow>
     files_ready env k \<and> fs_ready env k \<and> sighand_ready env k \<and> signal_ready env k \<and> mm_ready (mm_part env) t k
     \<and> tsk_files p = tsk_files (cur k) \<and> tsk_fs p = tsk_fs (cur k) \<and> tsk_sighand p = tsk_sighand (cur k) \<and> seccomp_ready k"

lemma copy_mm_frame:
  assumes "mm_ready env t k" and "copy_mm env fl t k p = (Inr p1, k1)"
  shows "(\<exists>h r. k1 = k\<lparr>mms := h, maps := r\<rparr>) \<and> tsk_io_context p1 = tsk_io_context p"
proof -
  have "\<exists>h r. k = k\<lparr>mms := h, maps := r\<rparr>" by (intro exI [of _ "mms k"] exI [of _ "maps k"]) simp
  moreover have "\<exists>h r. mmget a k = k\<lparr>mms := h, maps := r\<rparr>" for a
    unfolding mmget_def by (intro exI [of _ "upd a (\<lambda>m. m\<lparr>mm_users := mm_users m + 1\<rparr>) (mms k)"] exI [of _ "maps k"]) simp
  moreover have "\<exists>h r. k1 = k\<lparr>mms := h, maps := r\<rparr>" if "dup_mm env t old k = (Some a, k1)" for old a
    using dup_mm_effect [OF that] assms(1) by (auto simp: mm_ready_def)
  ultimately show ?thesis
    using assms(2) by (auto simp: copy_mm_def Let_def split: option.splits if_splits prod.splits)
qed

lemma shared_restores:
  assumes "subsystems_ok env" and rest: "restores late_ready rest"
  shows "restores (\<lambda>k p. shared_ready env t k p \<and> late_ready k p) (shared_steps env fl t rest)"
proof -
  have ok: "put_files_ok env" "put_fs_ok env" using assms(1) by (simp_all add: subsystems_ok_def)
  have mm: "leads (\<lambda>k p. mm_ready (mm_part env) t k \<and> late_ready k p) (copy_mm (mm_part env) fl t)
      late_ready"
    by (auto simp: leads_def late_ready_def dest!: copy_mm_frame)
  have signal: "leads (\<lambda>k p. signal_ready env k \<and> mm_ready (mm_part env) t k \<and> late_ready k p)
      (copy_signal env fl t) (\<lambda>k p. mm_ready (mm_part env) t k \<and> late_ready k p)"
    by (auto simp: leads_def late_ready_def copy_signal_def mm_ready_def split: option.splits if_splits)
  have sighand: "leads (\<lambda>k p. sighand_ready env k \<and> tsk_sighand p = tsk_sighand (cur k) \<and> signal_ready env k
        \<and> mm_ready (mm_part env) t k \<and> late_ready k p) (copy_sighand env fl)
      (\<lambda>k p. signal_ready env k \<and> mm_ready (mm_part env) t k \<and> late_ready k p)"
    by (auto simp: leads_def late_ready_def copy_sighand_def signal_ready_def mm_ready_def split: option.splits if_splits)
  have fs: "leads (\<lambda>k p. fs_ready env k \<and> tsk_fs p = tsk_fs (cur k) \<and> sighand_ready env k
        \<and> tsk_sighand p = tsk_sighand (cur k) \<and> signal_ready env k \<and> mm_ready (mm_part env) t k \<and> late_ready k p)
      (copy_fs env fl) (\<lambda>k p. sighand_ready env k \<and> tsk_sighand p = tsk_sighand (cur k) \<and> signal_ready env k
        \<and> mm_ready (mm_part env) t k \<and> late_ready k p)"
    by (auto simp: leads_def late_ready_def copy_fs_def Let_def sighand_ready_def signal_ready_def mm_ready_def split: option.splits if_splits)
  have files: "leads (\<lambda>k p. shared_ready env t k p \<and> late_ready k p) (copy_files env fl)
      (\<lambda>k p. fs_ready env k \<and> tsk_fs p = tsk_fs (cur k) \<and> sighand_ready env k \<and> tsk_sighand p = tsk_sighand (cur k)
        \<and> signal_ready env k \<and> mm_ready (mm_part env) t k \<and> late_ready k p)"
    by (auto simp: leads_def late_ready_def copy_files_def shared_ready_def fs_ready_def sighand_ready_def signal_ready_def mm_ready_def
        split: option.splits if_splits sum.splits)
  note mm_step.chain [OF _ mm rest]
  note signal_step.chain [OF _ signal this]
  note sighand_step.chain [OF _ sighand this]
  note fs_step.chain [OF _ fs this]
  note files_step.chain [OF _ files this]
  then show ?thesis using ok by (auto simp: shared_steps_def shared_ready_def)
qed

lemma shared_ready_ext [simp]: "shared_ready env t (k\<lparr>ext := x\<rparr>) p = shared_ready env t k p"
  by (simp add: shared_ready_def files_ready_def fs_ready_def sighand_ready_def signal_ready_def mm_ready_def)

lemma shared_ready_init [simp]:
  "shared_ready env t k (init_child j p) = shared_ready env t k p"
  "shared_ready env t k (p\<lparr>tsk_cred := c\<rparr>) = shared_ready env t k p"
  by (simp_all add: shared_ready_def init_child_def rcu_copy_process_def)

lemma early_restores:
  assumes "subsystems_ok env" and rest: "restores (\<lambda>k p. shared_ready env t k p \<and> late_ready k p) rest"
  shows "restores (shared_ready env t) (early_steps env rest)"
proof -
  let ?P = "shared_ready env t" and ?Q = "\<lambda>k p. shared_ready env t k p \<and> late_ready k p"
  have ok: "resource_ok (creds env)" "resource_ok (mempolicy env)" "resource_ok (perf_event env)"
    "resource_ok (audit_context env)" "resource_ok (security env)" "resource_ok (semundo env)"
    "\<forall>x. delayacct_free env (delayacct_init env x) = x"
    using assms(1) by (simp_all add: subsystems_ok_def)
  have ext: "leads ?Q (acquire_ext r) ?Q" for r by (auto simp: leads_def late_ready_def dest!: acquire_ext_effect)
  have checks: "leads P (check f) P" for P :: "'a kern \<Rightarrow> task_struct \<Rightarrow> bool" and f
    by (auto simp: leads_def check_def split: if_splits)
  have delay: "leads ?P (start_delayacct env) ?Q" by (auto simp: leads_def start_delayacct_def late_ready_def)
      (auto simp: init_child_def shared_ready_def)
  have creds: "leads ?P (copy_creds env) ?P"
    by (auto simp: leads_def copy_creds_def attempt_def assign_def dest!: acquire_ext_effect split: prod.splits sum.splits)
  note ext_step.chain [OF ok(6) ext rest]
  note ext_step.chain [OF ok(5) ext this]
  note ext_step.chain [OF ok(4) ext this]
  note ext_step.chain [OF ok(3) ext this]
  note check_step.chain [OF TrueI checks [where f = "\<lambda>_. sched_fork env"] this]
  note ext_step.chain [OF ok(2) ext this]
  note delayacct_step.chain [OF ok(7) delay this]
  note check_step.chain [OF TrueI checks [where f = too_many_threads] this]
  note creds_step.chain [OF ok(1) creds this]
  then show ?thesis by (simp add: early_steps_def)
qed

lemma fork_steps_restores:
  "subsystems_ok env \<Longrightarrow> restores (shared_ready env t) (fork_steps env args pid t)"
  unfolding fork_steps_def by (intro early_restores shared_restores late_restores)

subsection \<open>The whole function\<close>

text \<open>
  The state a fork starts from: the objects of the calling task exist, what is allocated is new, and only stacks in use
  are charged to a control group.
\<close>

definition fork_ready :: "'x fork_env \<Rightarrow> 'x kern \<Rightarrow> bool" where
  "fork_ready env k \<longleftrightarrow>
     (\<exists>c. tasks k (current k) = Some c \<and> (\<exists>s. signals k (tsk_signal c) = Some s))
     \<and> files_ready env k \<and> fs_ready env k \<and> sighand_ready env k \<and> signal_ready env k
     \<and> (\<forall>t. alloc_task env = Some t \<longrightarrow> \<not> task_slab k t \<and> tasks k t = None \<and> mm_ready (mm_part env) t k)
     \<and> (\<forall>s. vmalloc_stack env = Some s \<longrightarrow> \<not> stacks k s) \<and> (\<forall>s. \<not> in_use k s \<longrightarrow> uncharged s (acct k))
     \<and> cache_ok k \<and> seccomp_ready k"

lemma undelay_delay:
  assumes "signals k (tsk_signal (cur k)) = Some s"
  shows "undelay_signals fl (delay_signals fl k) = k"
proof -
  have "(signals k)(tsk_signal (cur k) \<mapsto> s) = signals k" using assms by (simp add: fun_upd_idem)
  then show ?thesis using assms by (cases k) (simp add: undelay_signals_def delay_signals_def upd_def)
qed

lemma delay_signals_simps [simp]:
  "tasks (delay_signals fl k) = tasks k" "current (delay_signals fl k) = current k" "filess (delay_signals fl k) = filess k"
  "fss (delay_signals fl k) = fss k" "sighands (delay_signals fl k) = sighands k" "mms (delay_signals fl k) = mms k"
  "task_slab (delay_signals fl k) = task_slab k" "stacks (delay_signals fl k) = stacks k"
  "cached_stacks (delay_signals fl k) = cached_stacks k" "acct (delay_signals fl k) = acct k" "filter_refs (delay_signals fl k) = filter_refs k"
  "in_use (delay_signals fl k) = in_use k" "cache_ok (delay_signals fl k) = cache_ok k" "signals (delay_signals fl k) a = None \<longleftrightarrow> signals k a = None"
  by (simp_all add: delay_signals_def upd_def in_use_def cache_ok_def fun_eq_iff)

text \<open>The flag that \<open>copy_process\<close> clears in the calling task, and the states a failed fork may leave.\<close>

definition unchanged :: "'x kern \<Rightarrow> 'x kern \<Rightarrow> bool" where
  "unchanged k k' \<longleftrightarrow> same_but_stacks k k' \<or> same_but_stacks (clear_nproc k) k'"

lemma undelay_stacks:
  "undelay_signals fl (k\<lparr>cached_stacks := c, stacks := st\<rparr>) = (undelay_signals fl k)\<lparr>cached_stacks := c, stacks := st\<rparr>"
  by (simp add: undelay_signals_def)

lemma undelay_clear:
  assumes "tasks k (current k) = Some c"
  shows "undelay_signals fl (clear_nproc k) = clear_nproc (undelay_signals fl k)"
  using assms by (simp add: undelay_signals_def clear_nproc_def)

lemma clear_nproc_simps [simp]:
  "tsk_files (cur (clear_nproc k)) = tsk_files (cur k)" "tsk_fs (cur (clear_nproc k)) = tsk_fs (cur k)"
  "tsk_sighand (cur (clear_nproc k)) = tsk_sighand (cur k)" "tsk_mm (cur (clear_nproc k)) = tsk_mm (cur k)"
  if "tasks k (current k) = Some c"
  using that by (simp_all add: clear_nproc_def)

lemma own_fields_simps [simp]:
  "tsk_files (own_fields s p) = tsk_files p" "tsk_fs (own_fields s p) = tsk_fs p" "tsk_sighand (own_fields s p) = tsk_sighand p"
  "tsk_signal (own_fields s p) = tsk_signal p" "tsk_comm (own_fields s p) = tsk_comm p" "tsk_fork_count (own_fields s p) = tsk_fork_count p"
  "tsk_cred (own_fields s p) = tsk_cred p" "tsk_stack (own_fields s p) = Some s" "tsk_stack_refcount (own_fields s p) = 1"
  by (simp_all add: own_fields_def clear_tsk_need_resched_def clear_tsk_thread_flag_def)

lemma first_fields [simp]:
  "tsk_files (rt_mutex_init_task (set_tids args p)) = tsk_files p" "tsk_fs (rt_mutex_init_task (set_tids args p)) = tsk_fs p"
  "tsk_sighand (rt_mutex_init_task (set_tids args p)) = tsk_sighand p" "tsk_signal (rt_mutex_init_task (set_tids args p)) = tsk_signal p"
  "tsk_comm (rt_mutex_init_task (set_tids args p)) = tsk_comm p" "tsk_fork_count (rt_mutex_init_task (set_tids args p)) = tsk_fork_count p"
  "tsk_cred (rt_mutex_init_task (set_tids args p)) = tsk_cred p" "tsk_stack (rt_mutex_init_task (set_tids args p)) = tsk_stack p"
  "tsk_stack_refcount (rt_mutex_init_task (set_tids args p)) = tsk_stack_refcount p"
  by (simp_all add: set_tids_def rt_mutex_init_task_def)

lemma discard_effect:
  fixes k :: "'x kern"
  assumes "tsk_stack p = Some s" and "tsk_stack_refcount p = 1" and "\<not> task_slab k t" and "holds_stack k s k2"
    and k2: "k2 = k\<lparr>task_slab := (task_slab k)(t := True), cached_stacks := cached_stacks k2, stacks := stacks k2, acct := acct k2\<rparr>"
  shows "same_but_stacks k (discard_task t p k2)"
proof -
  obtain c st where free: "give_back s k2 = k2\<lparr>cached_stacks := c, stacks := st, acct := acct k\<rparr>"
    using give_back_effect(3) [OF assms(4)] by blast
  obtain c2 st2 a2 where shape: "k2 = k\<lparr>task_slab := (task_slab k)(t := True), cached_stacks := c2, stacks := st2, acct := a2\<rparr>"
    using k2 by blast
  have "discard_task t p k2 = free_task_struct t (give_back s k2)"
    using assms(1,2) by (simp add: discard_task_def put_task_stack_def release_task_stack_def give_back_def)
  also have "\<dots> = k\<lparr>cached_stacks := c, stacks := st\<rparr>"
    unfolding free unfolding shape using assms(3) by (simp add: free_task_struct_def fun_upd_idem)
  finally have "discard_task t p k2 = k\<lparr>cached_stacks := c, stacks := st\<rparr>" .
  moreover have "in_use (k\<lparr>cached_stacks := c, stacks := st\<rparr>) = in_use (give_back s k2)"
    "cache_ok (k\<lparr>cached_stacks := c, stacks := st\<rparr>) = cache_ok (give_back s k2)"
    unfolding free by (rule stacks_cong; simp)+
  ultimately show ?thesis using give_back_effect(1,2) [OF assms(4)] by (auto simp: same_but_stacks_def)
qed

lemma same_undelay:
  assumes "same_but_stacks (delay_signals fl k) k'" and "signals k (tsk_signal (cur k)) = Some s"
  shows "same_but_stacks k (undelay_signals fl k')"
proof -
  obtain c st where k': "k' = (delay_signals fl k)\<lparr>cached_stacks := c, stacks := st\<rparr>" and "in_use k' = in_use (delay_signals fl k)"
    "cache_ok (delay_signals fl k) \<longrightarrow> cache_ok k'" using assms(1) by (auto simp: same_but_stacks_def)
  moreover have "in_use (undelay_signals fl k') = in_use k'" "cache_ok (undelay_signals fl k') = cache_ok k'"
    by (rule stacks_cong; simp add: undelay_signals_def)+
  moreover have "undelay_signals fl k' = k\<lparr>cached_stacks := c, stacks := st\<rparr>"
    using undelay_delay [OF assms(2)] by (simp add: k' undelay_stacks)
  ultimately show ?thesis unfolding same_but_stacks_def by (auto simp: delay_signals_simps)
qed

lemma shared_ready_start:
  assumes "fork_ready env k" and "alloc_task env = Some t"
  shows "shared_ready env t (clear_nproc ((delay_signals fl k)\<lparr>task_slab := sl, cached_stacks := c, stacks := st, acct := a\<rparr>))
    (rt_mutex_init_task (set_tids args (own_fields s (cur k))))"
proof -
  obtain c where "tasks k (current k) = Some c" using assms(1) by (auto simp: fork_ready_def)
  then show ?thesis
    using assms by (simp add: shared_ready_def fork_ready_def files_ready_def fs_ready_def sighand_ready_def signal_ready_def
        mm_ready_def seccomp_ready_def clear_nproc_def)
qed

text \<open>What is left when the new task is discarded, before or after the flag of the calling task is cleared.\<close>

lemma discard_both:
  fixes k1 k2 :: "'x kern"
  assumes "tsk_stack p = Some s" and "tsk_stack_refcount p = 1" and "\<not> task_slab k1 t" and "holds_stack k1 s k2"
    and k2: "k2 = k1\<lparr>task_slab := (task_slab k1)(t := True), cached_stacks := cached_stacks k2, stacks := stacks k2, acct := acct k2\<rparr>"
  shows "same_but_stacks k1 (discard_task t p k2)" and "same_but_stacks (clear_nproc k1) (discard_task t p (clear_nproc k2))"
proof -
  show "same_but_stacks k1 (discard_task t p k2)" by (rule discard_effect [OF assms])
  have "clear_nproc k2 = (clear_nproc k1)\<lparr>task_slab := (task_slab (clear_nproc k1))(t := True), cached_stacks := cached_stacks (clear_nproc k2),
      stacks := stacks (clear_nproc k2), acct := acct (clear_nproc k2)\<rparr>" by (subst k2) (simp add: clear_nproc_def)
  moreover have "in_use (clear_nproc j) = in_use j" "cache_ok (clear_nproc j) = cache_ok j" "acct (clear_nproc j) = acct j"
    "task_slab (clear_nproc j) = task_slab j" for j :: "'x kern" by (rule stacks_cong; simp add: clear_nproc_def)+ (simp_all add: clear_nproc_def)
  ultimately show "same_but_stacks (clear_nproc k1) (discard_task t p (clear_nproc k2))"
    using assms(1-4) by (intro discard_effect [where s = s]) (simp_all add: holds_stack_def)
qed

lemma copy_process_restores:
  fixes k k' :: "'x kern"
  assumes ok: "subsystems_ok env" and ready: "fork_ready env k" and run: "copy_process env pid trace args k = (Inl e, k')"
  shows "unchanged k k'"
proof -
  let ?fl = "flags args" and ?k1 = "delay_signals (flags args) k"
  obtain c s where cur: "tasks k (current k) = Some c" "signals k (tsk_signal c) = Some s"
    using ready by (auto simp: fork_ready_def)
  have sig: "signals k (tsk_signal (cur k)) = Some s" "signals (clear_nproc k) (tsk_signal (cur (clear_nproc k))) = Some s"
    using cur by (simp_all add: clear_nproc_def)
  have fresh: "\<forall>t. alloc_task env = Some t \<longrightarrow> \<not> task_slab ?k1 t" "\<forall>s. vmalloc_stack env = Some s \<longrightarrow> \<not> stacks ?k1 s"
    "\<forall>s. \<not> in_use ?k1 s \<longrightarrow> uncharged s (acct ?k1)" "cache_ok ?k1"
    using ready by (auto simp: fork_ready_def)
  have unchanged1: "unchanged k (undelay_signals ?fl k2)" if "same_but_stacks ?k1 k2 \<or> same_but_stacks (clear_nproc ?k1) k2" for k2
  proof -
    have "clear_nproc ?k1 = delay_signals ?fl (clear_nproc k)" using cur by (simp add: clear_nproc_def delay_signals_def)
    then show ?thesis using that same_undelay [OF _ sig(1)] same_undelay [OF _ sig(2)] by (auto simp: unchanged_def)
  qed
  consider "k' = k" | "k' = undelay_signals ?fl ?k1" | k2 where "dup_task_struct env (cur ?k1) ?k1 = (None, k2)" "k' = undelay_signals ?fl k2"
    | t p0 k2 where "dup_task_struct env (cur ?k1) ?k1 = (Some (t, p0), k2)"
      "k' = undelay_signals ?fl (discard_task t (rt_mutex_init_task (set_tids args p0)) k2)
       \<or> (\<exists>k3. fork_steps env args pid t (clear_nproc k2) (rt_mutex_init_task (set_tids args p0)) = (Inl e, k3)
            \<and> k' = undelay_signals ?fl (discard_task t (rt_mutex_init_task (set_tids args p0)) k3))"
    using run by (auto simp: copy_process_def Let_def split: if_splits prod.splits option.splits sum.splits)
  then show ?thesis
  proof cases
    case 3
    then show ?thesis using unchanged1 dup_task_None [OF 3(1) fresh] by simp
  next
    case 4
    let ?p = "rt_mutex_init_task (set_tids args p0)"
    note dup = dup_task_Some [OF 4(1) fresh(2-)]
    obtain st where p0: "p0 = own_fields st (cur k)" and "holds_stack ?k1 st k2" using dup(2) by auto
    then have "tsk_stack ?p = Some st" "tsk_stack_refcount ?p = 1" by simp_all
    note discard = discard_both [OF this fresh(1) [rule_format, OF dup(1)] \<open>holds_stack ?k1 st k2\<close> dup(3)]
    have "shared_ready env t (clear_nproc k2) ?p" using shared_ready_start [OF ready dup(1)] by (subst dup(3)) (simp add: p0)
    then have "k3 = clear_nproc k2" if "fork_steps env args pid t (clear_nproc k2) ?p = (Inl e, k3)" for k3
      using fork_steps_restores [OF ok] that by (auto simp: restores_def)
    then show ?thesis using 4(2) unchanged1 discard by auto
  qed (use undelay_delay [OF sig(1)] in \<open>simp_all add: unchanged_def\<close>)
qed

end
