(* ===== verification/Fork_Refs.thy ===== *)
theory Fork_Refs
  imports Fork_Undo
begin

section \<open>What a successful fork makes\<close>

text \<open>
  The effect of \<open>copy_process\<close> when it succeeds: the fields of the new task, and the reference
  counts of the objects it shares with the calling task or gets for itself.  The invariant
  \<open>refs_ok\<close> says that every count is the number of tasks that point to the object.
\<close>

definition count_of :: "('a \<Rightarrow> nat) \<Rightarrow> 'a option \<Rightarrow> nat" where
  "count_of cnt x = (case x of None \<Rightarrow> 0 | Some y \<Rightarrow> cnt y)"

lemma count_of_simps [simp]: "count_of cnt None = 0" "count_of cnt (Some y) = cnt y"
  by (simp_all add: count_of_def)

definition owners :: "(task_struct \<Rightarrow> nat option) \<Rightarrow> 'x kern \<Rightarrow> nat \<Rightarrow> nat set" where
  "owners f k a = {t. \<exists>p. tasks k t = Some p \<and> f p = Some a}"

text \<open>The statically allocated first task, with the number 0, is not counted in its signal structure.\<close>

definition counted_signal :: "task_struct \<Rightarrow> nat option" where
  "counted_signal p = (if tsk_pid p = 0 then None else Some (tsk_signal p))"

text \<open>A seccomp filter may have more references than tasks: later filters point to it.\<close>

definition refs_ok :: "'x kern \<Rightarrow> bool" where
  "refs_ok k \<longleftrightarrow> finite (dom (tasks k))
     \<and> (\<forall>a. count_of files_count (filess k a) = card (owners tsk_files k a))
     \<and> (\<forall>a. count_of fs_users (fss k a) = card (owners tsk_fs k a))
     \<and> (\<forall>a. count_of sighand_count (sighands k a) = card (owners (Some \<circ> tsk_sighand) k a))
     \<and> (\<forall>a. count_of sigcnt (signals k a) = card (owners counted_signal k a))
     \<and> (\<forall>a. count_of mm_users (mms k a) = card (owners tsk_mm k a))
     \<and> (\<forall>a. card (owners tsk_seccomp_filter k a) \<le> filter_refs k a)"

text \<open>One more reference to one object.\<close>

definition gains :: "('a \<Rightarrow> nat) \<Rightarrow> (nat \<Rightarrow> 'a option) \<Rightarrow> (nat \<Rightarrow> 'a option) \<Rightarrow> nat option \<Rightarrow> bool" where
  "gains cnt h h' r \<longleftrightarrow> (\<forall>a. count_of cnt (h' a) = count_of cnt (h a) + (if r = Some a then 1 else 0))"

lemma gains_none: "gains cnt h h None"
  by (simp add: gains_def)

lemma gains_upd:
  assumes "h a = Some x" and "\<And>y. cnt (f y) = cnt y + 1"
  shows "gains cnt h (upd a f h) (Some a)"
  using assms by (simp add: gains_def upd_def)

lemma gains_new: "h a = None \<Longrightarrow> cnt x = 1 \<Longrightarrow> gains cnt h (h(a \<mapsto> x)) (Some a)"
  by (simp add: gains_def)

subsection \<open>The steps\<close>

lemma attempt_success:
  "attempt acq rel rest k p = (Inr p2, k2) \<longleftrightarrow> (\<exists>p1 k1. acq k p = (Inr p1, k1) \<and> rest k1 p1 = (Inr p2, k2))"
  by (auto simp: attempt_def split: prod.splits sum.splits)

lemma check_success: "check f k p = (Inr p1, k1) \<longleftrightarrow> f k = 0 \<and> p1 = p \<and> k1 = k"
  by (auto simp: check_def)

lemma acquire_success:
  "acquire_ext r k p = (Inr p1, k1) \<longleftrightarrow> p1 = p \<and> (\<exists>x. acquire r (ext k) = (0, x) \<and> k1 = k\<lparr>ext := x\<rparr>)"
  by (auto simp: acquire_ext_def split: prod.splits)

lemma init_child_ext [simp]: "init_child (k\<lparr>ext := x\<rparr>) p = init_child k p"
  by (simp add: init_child_def)

lemma set_ids_ext [simp]:
  "set_group fl t (k\<lparr>ext := x\<rparr>) p = set_group fl t k p" "set_parent env args (k\<lparr>ext := x\<rparr>) p = set_parent env args k p"
  "fork_rseq fl (k\<lparr>ext := x\<rparr>) p = fork_rseq fl k p" "take_filter env (k\<lparr>ext := x\<rparr>) = (take_filter env k)\<lparr>ext := x\<rparr>"
  by (simp_all add: set_group_def set_parent_def fork_rseq_def take_filter_def Let_def split: option.splits)

lemma early_effect:
  assumes "early_steps env rest k p = (Inr p', k')"
  shows "\<exists>x. rest (k\<lparr>ext := x\<rparr>) (init_child k (p\<lparr>tsk_cred := new_cred env (tsk_cred p)\<rparr>)) = (Inr p', k') \<and> nr_threads k < max_threads k"
  using assms
  unfolding early_steps_def copy_creds_def attempt_success check_success acquire_success assign_def start_delayacct_def too_many_threads_def
  by (elim exE conjE) (auto simp: errno_defs split: if_splits)

lemma io_effect:
  assumes "copy_io env fl k p = (Inr p', k')"
  shows "\<exists>x io. p' = p\<lparr>tsk_io_context := io\<rparr> \<and> k' = k\<lparr>ext := x\<rparr>"
proof -
  have same: ?thesis if "p' = p" "k' = k"
    using that by (intro exI [of _ "ext k"] exI [of _ "tsk_io_context p"]) simp
  show ?thesis
  proof (cases "tsk_io_context (cur k)")
    case None
    then show ?thesis using assms by (intro same) (simp_all add: copy_io_def)
  next
    case (Some a)
    consider "has fl CLONE_IO" | "\<not> has fl CLONE_IO" "ioprio_valid env a" | "\<not> has fl CLONE_IO" "\<not> ioprio_valid env a" by blast
    then show ?thesis
    proof cases
      case 3
      then show ?thesis using assms Some by (intro same) (simp_all add: copy_io_def)
    qed (use assms Some in \<open>auto simp: copy_io_def split: prod.splits option.splits\<close>)
  qed
qed

lemma pid_effect:
  assumes "take_pid env pid k p = (Inr p', k')"
  shows "\<exists>x nr. p' = p\<lparr>tsk_pid := nr\<rparr> \<and> k' = k\<lparr>ext := x\<rparr> \<and> (pid_ok env \<longrightarrow> pid = None \<longrightarrow> 0 < nr)"
proof (cases pid)
  case None
  then obtain nr x where "alloc_pid env (ext k) = (Inr nr, x)" "p' = p\<lparr>tsk_pid := nr\<rparr>" "k' = k\<lparr>ext := x\<rparr>"
    using assms by (auto simp: take_pid_def split: prod.splits sum.splits)
  moreover from this have "pid_ok env \<longrightarrow> 0 < nr" by (fastforce simp: pid_ok_def)
  ultimately show ?thesis by blast
next
  case (Some nr)
  then show ?thesis using assms by (intro exI [of _ "ext k"] exI [of _ nr]) (simp add: take_pid_def)
qed

lemma leads_attempt: "leads P acq Q \<Longrightarrow> leads Q rest R \<Longrightarrow> leads P (attempt acq rel rest) R"
  by (fastforce simp: leads_def attempt_success)

text \<open>The state from \<open>k\<close> with another \<open>ext\<close>, and a task with a property.\<close>

definition at_ext :: "'x kern \<Rightarrow> (task_struct \<Rightarrow> bool) \<Rightarrow> 'x kern \<Rightarrow> task_struct \<Rightarrow> bool" where
  "at_ext k A k' p \<longleftrightarrow> (\<exists>x. k' = k\<lparr>ext := x\<rparr>) \<and> A p"

lemma leads_ext:
  "leads (at_ext k A) (acquire_ext r) (at_ext k A)" "leads (at_ext k A) (check f) (at_ext k A)"
  "leads (at_ext k A) (only_if b (acquire_ext r)) (at_ext k A)" "leads (at_ext k A) (only_if b (check f)) (at_ext k A)"
  by (auto simp: leads_def at_ext_def acquire_success check_success only_if_def split: if_splits)

text \<open>The task after the steps that follow the shared parts.\<close>

definition late_task :: "'x fork_env \<Rightarrow> kernel_clone_args \<Rightarrow> nat \<Rightarrow> 'x kern \<Rightarrow> task_struct \<Rightarrow> task_struct" where
  "late_task env args t k p =
     fork_rseq (flags args) k (with_seccomp (cur k) (set_parent env args k (set_group (flags args) t k (stop_tracing p))))"

lemma take_filter_fields [simp]:
  "tasks (take_filter env k) = tasks k" "current (take_filter env k) = current k" "filess (take_filter env k) = filess k"
  "fss (take_filter env k) = fss k" "sighands (take_filter env k) = sighands k" "signals (take_filter env k) = signals k"
  "mms (take_filter env k) = mms k" "task_list (take_filter env k) = task_list k" "nr_threads (take_filter env k) = nr_threads k"
  "total_forks (take_filter env k) = total_forks k" "max_threads (take_filter env k) = max_threads k"
  by (simp_all add: take_filter_def split: option.splits)

lemma late_effect:
  assumes "late_steps env args pid t k p = (Inr p', k')"
  shows "\<exists>x io nr. k' = (take_filter env k)\<lparr>ext := x\<rparr> \<and> (pid_ok env \<longrightarrow> pid = None \<longrightarrow> 0 < nr)
    \<and> p' = late_task env args t k (p\<lparr>tsk_io_context := io, tsk_pid := nr\<rparr>)"
proof -
  let ?nr = "\<lambda>nr. pid_ok env \<longrightarrow> pid = None \<longrightarrow> (0::int) < nr" and ?p = "\<lambda>io nr. p\<lparr>tsk_io_context := io, tsk_pid := nr\<rparr>"
  let ?start = "\<lambda>q. q = p" and ?io = "\<lambda>q. \<exists>io. q = p\<lparr>tsk_io_context := io\<rparr>"
  let ?P = "\<lambda>f q. \<exists>io nr. ?nr nr \<and> q = f (?p io nr)"
  let ?group = "\<lambda>q. set_group (flags args) t k (stop_tracing q)" and ?parent = "\<lambda>q. set_parent env args k (set_group (flags args) t k (stop_tracing q))"
  let ?sec = "\<lambda>q. with_seccomp (cur k) (set_parent env args k (set_group (flags args) t k (stop_tracing q)))"
  let ?f = "take_filter env k"
  have io: "leads (at_ext k ?start) (copy_io env (flags args)) (at_ext k ?io)"
    by (fastforce simp: leads_def at_ext_def dest: io_effect)
  have pid: "leads (at_ext k ?io) (take_pid env pid) (at_ext k (?P (\<lambda>q. q)))"
    by (fastforce simp: leads_def at_ext_def dest: pid_effect)
  have step: "leads (at_ext j (?P f)) (assign g) (at_ext j (?P h))"
    if "\<And>x q. g (j\<lparr>ext := x\<rparr>) (f q) = h q" for f g h and j :: "'a kern"
    unfolding leads_def at_ext_def assign_def by (clarsimp simp del: not_gr_zero) (use that in blast)
  have trace: "leads (at_ext k (?P (\<lambda>q. q))) (assign (\<lambda>_. stop_tracing)) (at_ext k (?P stop_tracing))"
    and group: "leads (at_ext k (?P stop_tracing)) (assign (set_group (flags args) t)) (at_ext k (?P ?group))"
    and parent: "leads (at_ext k (?P ?group)) (assign (set_parent env args)) (at_ext k (?P ?parent))"
    by (rule step, simp)+
  have sec: "leads (at_ext k (?P ?parent)) (copy_seccomp env) (at_ext ?f (?P ?sec))"
    unfolding leads_def at_ext_def copy_seccomp_def by (clarsimp simp del: not_gr_zero) blast
  have rseq: "leads (at_ext ?f (?P ?sec)) (assign (fork_rseq (flags args))) (at_ext ?f (?P (late_task env args t k)))"
    by (rule step) (simp add: late_task_def fork_rseq_def)
  have "leads (at_ext k ?start) (late_steps env args pid t) (at_ext ?f (?P (late_task env args t k)))"
    unfolding late_steps_def Let_def
    by (intro leads_attempt [OF leads_ext(1)] leads_attempt [OF io] leads_attempt [OF pid] leads_attempt [OF leads_ext(3)]
        leads_attempt [OF leads_ext(4)] leads_attempt [OF trace] leads_attempt [OF group] leads_attempt [OF parent] leads_attempt [OF sec]
        leads_attempt [OF rseq] leads_ext(2))
  moreover have "at_ext k ?start k p" by (auto simp: at_ext_def intro: exI [of _ "ext k"])
  ultimately have "at_ext ?f (?P (late_task env args t k)) k' p'" using assms by (simp add: leads_def)
  then show ?thesis by (auto simp: at_ext_def)
qed

subsection \<open>The shared parts\<close>

text \<open>An object is shared with the calling task, or is new.\<close>

definition shared_or_new :: "bool \<Rightarrow> (nat \<Rightarrow> 'a option) \<Rightarrow> nat option \<Rightarrow> nat option \<Rightarrow> bool" where
  "shared_or_new share h old r \<longleftrightarrow>
     (if share \<or> old = None then r = old else \<exists>a. r = Some a \<and> h a = None)"

lemma files_effect:
  assumes "copy_files env fl k p = (Inr p1, k1)" and "files_ready env k" and "tsk_files p = tsk_files (cur k)"
  shows "\<exists>h f. k1 = k\<lparr>filess := h\<rparr> \<and> p1 = p\<lparr>tsk_files := f\<rparr> \<and> gains files_count (filess k) h f
    \<and> shared_or_new (has fl CLONE_FILES) (filess k) (tsk_files p) f"
proof (cases "tsk_files (cur k)")
  case None
  then show ?thesis
    using assms by (intro exI [of _ "filess k"] exI [of _ None])
      (simp add: copy_files_def gains_none shared_or_new_def)
next
  case (Some a)
  then obtain f where f: "filess k a = Some f" "\<forall>b g. dup_fd env f = Inr (b, g) \<longrightarrow> filess k b = None \<and> files_count g = 1"
    using assms(2) by (auto simp: files_ready_def)
  show ?thesis
  proof (cases "has fl CLONE_FILES")
    case True
    then show ?thesis
      using assms(1,3) Some f(1)
      by (intro exI [of _ "upd a (\<lambda>f. f\<lparr>files_count := files_count f + 1\<rparr>) (filess k)"] exI [of _ "Some a"])
        (simp add: copy_files_def shared_or_new_def gains_upd)
  next
    case False
    then obtain b g where "dup_fd env f = Inr (b, g)" "p1 = p\<lparr>tsk_files := Some b\<rparr>" "k1 = k\<lparr>filess := (filess k)(b \<mapsto> g)\<rparr>"
      using assms(1) Some f(1) by (auto simp: copy_files_def split: sum.splits)
    then show ?thesis
      using f(2) False Some assms(3)
      by (intro exI [of _ "(filess k)(b \<mapsto> g)"] exI [of _ "Some b"]) (simp add: gains_new shared_or_new_def)
  qed
qed

lemma fs_effect:
  assumes "copy_fs env fl k p = (Inr p1, k1)" and "fs_ready env k" and "tsk_fs p = tsk_fs (cur k)"
  shows "\<exists>h f. k1 = k\<lparr>fss := h\<rparr> \<and> p1 = p\<lparr>tsk_fs := f\<rparr> \<and> gains fs_users (fss k) h f
    \<and> shared_or_new (has fl CLONE_FS) (fss k) (tsk_fs p) f"
proof -
  obtain a f where f: "tsk_fs (cur k) = Some a" "fss k a = Some f"
    "\<forall>b g. copy_fs_struct env f = Some (b, g) \<longrightarrow> fss k b = None \<and> fs_users g = 1"
    using assms(2) by (auto simp: fs_ready_def)
  show ?thesis
  proof (cases "has fl CLONE_FS")
    case True
    then have "p1 = p" "k1 = k\<lparr>fss := upd a (\<lambda>f. f\<lparr>fs_users := fs_users f + 1\<rparr>) (fss k)\<rparr>"
      using assms(1) f(1,2) by (auto simp: copy_fs_def Let_def split: if_splits)
    then show ?thesis
      using assms(3) True f(1,2)
      by (intro exI [of _ "upd a (\<lambda>f. f\<lparr>fs_users := fs_users f + 1\<rparr>) (fss k)"] exI [of _ "Some a"])
        (simp add: shared_or_new_def gains_upd)
  next
    case False
    then obtain b g where "copy_fs_struct env f = Some (b, g)" "p1 = p\<lparr>tsk_fs := Some b\<rparr>" "k1 = k\<lparr>fss := (fss k)(b \<mapsto> g)\<rparr>"
      using assms(1) f(1,2) by (auto simp: copy_fs_def Let_def split: option.splits)
    then show ?thesis
      using f False assms(3)
      by (intro exI [of _ "(fss k)(b \<mapsto> g)"] exI [of _ "Some b"]) (simp add: gains_new shared_or_new_def)
  qed
qed

lemma sighand_effect:
  assumes "copy_sighand env fl k p = (Inr p1, k1)" and "sighand_ready env k" and "tsk_sighand p = tsk_sighand (cur k)"
  shows "\<exists>h a. k1 = k\<lparr>sighands := h\<rparr> \<and> p1 = p\<lparr>tsk_sighand := a\<rparr> \<and> gains sighand_count (sighands k) h (Some a)
    \<and> shared_or_new (has fl CLONE_SIGHAND) (sighands k) (Some (tsk_sighand p)) (Some a)"
proof (cases "has fl CLONE_SIGHAND")
  case True
  obtain s where "sighands k (tsk_sighand (cur k)) = Some s" using assms(2) by (auto simp: sighand_ready_def)
  then show ?thesis
    using assms(1,3) True
    by (intro exI [of _ "upd (tsk_sighand p) (\<lambda>s. s\<lparr>sighand_count := sighand_count s + 1\<rparr>) (sighands k)"] exI [of _ "tsk_sighand p"])
      (simp add: copy_sighand_def shared_or_new_def gains_upd)
next
  case False
  then obtain a s where "new_sighand env = Some a" "p1 = p\<lparr>tsk_sighand := a\<rparr>" "k1 = k\<lparr>sighands := (sighands k)(a \<mapsto> s)\<rparr>" "sighand_count s = 1"
    using assms(1) by (auto simp: copy_sighand_def split: option.splits)
  then show ?thesis
    using False assms(2)
    by (intro exI [of _ "(sighands k)(a \<mapsto> s)"] exI [of _ a]) (simp add: gains_new shared_or_new_def sighand_ready_def)
qed

lemma signal_effect:
  assumes "copy_signal env fl t k p = (Inr p1, k1)" and "signal_ready env k"
  shows "\<exists>h a. k1 = k\<lparr>signals := h\<rparr> \<and> p1 = p\<lparr>tsk_signal := a\<rparr>
    \<and> (if has fl CLONE_THREAD then h = signals k \<and> a = tsk_signal p
       else signals k a = None \<and> (\<exists>s. h = (signals k)(a \<mapsto> s) \<and> sigcnt s = 1 \<and> sig_nr_threads s = 1 \<and> thread_head s = [t]))"
proof (cases "has fl CLONE_THREAD")
  case True
  then show ?thesis
    using assms(1) by (intro exI [of _ "signals k"] exI [of _ "tsk_signal p"]) (simp add: copy_signal_def)
next
  case False
  then obtain a s where "new_signal env = Some a" "p1 = p\<lparr>tsk_signal := a\<rparr>" "k1 = k\<lparr>signals := (signals k)(a \<mapsto> s)\<rparr>"
    "sigcnt s = 1" "sig_nr_threads s = 1" "thread_head s = [t]"
    using assms(1) by (auto simp: copy_signal_def split: option.splits)
  then show ?thesis
    using False assms(2) by (intro exI [of _ "(signals k)(a \<mapsto> s)"] exI [of _ a]) (auto simp: signal_ready_def)
qed

lemma mm_effect:
  assumes "copy_mm env fl t k p = (Inr p1, k1)" and "mm_ready env t k"
  shows "\<exists>h r m. k1 = k\<lparr>mms := h, maps := r\<rparr> \<and> gains mm_users (mms k) h m
    \<and> p1 = p\<lparr>tsk_min_flt := 0, tsk_maj_flt := 0, tsk_nvcsw := 0, tsk_nivcsw := 0, tsk_mm := m, tsk_active_mm := m\<rparr>
    \<and> shared_or_new (has fl CLONE_VM) (mms k) (tsk_mm (cur k)) m"
proof (cases "tsk_mm (cur k)")
  case None
  then show ?thesis
    using assms(1) by (intro exI [of _ "mms k"] exI [of _ "maps k"] exI [of _ None])
      (simp add: copy_mm_def gains_none shared_or_new_def Let_def)
next
  case (Some old)
  then obtain m where m: "mms k old = Some m" using assms(2) by (auto simp: mm_ready_def)
  show ?thesis
  proof (cases "has fl CLONE_VM")
    case True
    then have k1: "k1 = mmget old k"
      and p1: "p1 = p\<lparr>tsk_min_flt := 0, tsk_maj_flt := 0, tsk_nvcsw := 0, tsk_nivcsw := 0, tsk_mm := Some old, tsk_active_mm := Some old\<rparr>"
      using assms(1) Some by (simp_all add: copy_mm_def Let_def)
    show ?thesis
      unfolding k1 p1 using True Some m
      by (intro exI [of _ "upd old (\<lambda>m. m\<lparr>mm_users := mm_users m + 1\<rparr>) (mms k)"] exI [of _ "maps k"] exI [of _ "Some old"])
        (simp add: mmget_def shared_or_new_def gains_upd)
  next
    case False
    then obtain a where dup: "dup_mm env t old k = (Some a, k1)"
      and p1: "p1 = p\<lparr>tsk_min_flt := 0, tsk_maj_flt := 0, tsk_nvcsw := 0, tsk_nivcsw := 0, tsk_mm := Some a, tsk_active_mm := Some a\<rparr>"
      using assms(1) Some by (auto simp: copy_mm_def Let_def split: prod.splits option.splits)
    have "exit_mmap_ok env" and new: "\<And>a. new_mm env = Some a \<Longrightarrow> mms k a = None" using assms(2) by (auto simp: mm_ready_def)
    from dup_mm_effect [OF dup this] obtain m' where "new_mm env = Some a" "mm_users m' = 1"
      "k1 = k\<lparr>mms := (mms k)(a \<mapsto> m'), maps := mm_holds env m' (maps k)\<rparr>" by auto
    then show ?thesis
      using new p1 False Some
      by (intro exI [of _ "(mms k)(a \<mapsto> m')"] exI [of _ "mm_holds env m' (maps k)"] exI [of _ "Some a"])
        (simp add: gains_new shared_or_new_def)
  qed
qed

end
