(* ===== verification/Fork_Success.thy ===== *)
theory Fork_Success
  imports Fork_Refs
begin

section \<open>The shared parts and the publication of a new task\<close>

text \<open>
  What the steps that copy or share the parts of a task do together, and what \<open>publish\<close> changes when it makes the
  task visible.
\<close>

text \<open>The fields of a task that are not shared with others, and the state of stacks and filters.\<close>

definition private_fields ::
  "task_struct \<Rightarrow> (64 word \<times> 64 word \<times> nat option) \<times> (nat \<times> nat \<times> nat) \<times> (nat list \<times> nat option \<times> nat option) \<times> (int \<times> 32 word)" where
  "private_fields p = ((tsk_thread_flags p, tsk_atomic_flags p, tsk_stack p), (tsk_usage p, tsk_rcu_users p, tsk_stack_refcount p),
     (tsk_pi_waiters p, tsk_pi_top_task p, tsk_pi_blocked_on p), (tsk_rcu_read_lock_nesting p, tsk_rcu_read_unlock_special p))"

definition stack_state :: "'x kern \<Rightarrow> (nat \<Rightarrow> bool) \<times> nat option list \<times> stack_acct" where
  "stack_state k = (stacks k, cached_stacks k, acct k)"

lemma stack_state_updates [simp]:
  "stack_state (k\<lparr>tasks := ts\<rparr>) = stack_state k" "stack_state (k\<lparr>signals := hg\<rparr>) = stack_state k"
  "stack_state (k\<lparr>task_list := l\<rparr>) = stack_state k" "stack_state (k\<lparr>process_counts := c\<rparr>) = stack_state k"
  "stack_state (k\<lparr>nr_threads := n\<rparr>) = stack_state k" "stack_state (k\<lparr>total_forks := f\<rparr>) = stack_state k"
  "stack_state (k\<lparr>ext := x\<rparr>) = stack_state k"
  by (simp_all add: stack_state_def)

text \<open>What the five shared parts of a task become, and what the steps do not touch.\<close>

definition parts_copied :: "64 word \<Rightarrow> nat \<Rightarrow> 'x kern \<Rightarrow> task_struct \<Rightarrow> 'x kern \<Rightarrow> task_struct \<Rightarrow> bool" where
  "parts_copied fl t k p k1 p1 \<longleftrightarrow>
     tasks k1 = tasks k \<and> current k1 = current k \<and> task_list k1 = task_list k \<and> nr_threads k1 = nr_threads k
     \<and> max_threads k1 = max_threads k \<and> total_forks k1 = total_forks k \<and> process_counts k1 = process_counts k \<and> stack_state k1 = stack_state k
     \<and> filter_refs k1 = filter_refs k \<and> private_fields p1 = private_fields p
     \<and> gains files_count (filess k) (filess k1) (tsk_files p1)
     \<and> shared_or_new (has fl CLONE_FILES) (filess k) (tsk_files p) (tsk_files p1)
     \<and> gains fs_users (fss k) (fss k1) (tsk_fs p1) \<and> shared_or_new (has fl CLONE_FS) (fss k) (tsk_fs p) (tsk_fs p1)
     \<and> gains sighand_count (sighands k) (sighands k1) (Some (tsk_sighand p1))
     \<and> shared_or_new (has fl CLONE_SIGHAND) (sighands k) (Some (tsk_sighand p)) (Some (tsk_sighand p1))
     \<and> gains mm_users (mms k) (mms k1) (tsk_mm p1) \<and> shared_or_new (has fl CLONE_VM) (mms k) (tsk_mm (cur k)) (tsk_mm p1)
     \<and> (if has fl CLONE_THREAD then signals k1 = signals k \<and> tsk_signal p1 = tsk_signal p
        else signals k (tsk_signal p1) = None \<and> (\<exists>s. signals k1 = (signals k)(tsk_signal p1 \<mapsto> s) \<and> sigcnt s = 1
               \<and> sig_nr_threads s = 1 \<and> thread_head s = [t]))
     \<and> tsk_children p1 = tsk_children p \<and> tsk_fork_count p1 = tsk_fork_count p \<and> tsk_comm p1 = tsk_comm p
     \<and> tsk_utime p1 = tsk_utime p \<and> tsk_stime p1 = tsk_stime p \<and> tsk_nvcsw p1 = 0 \<and> tsk_nivcsw p1 = 0"

lemma shared_effect:
  assumes run: "shared_steps env fl t rest k p = (Inr p', k')" and ready: "shared_ready env t k p"
  shows "\<exists>k1 p1. rest k1 p1 = (Inr p', k') \<and> parts_copied fl t k p k1 p1"
proof -
  obtain p1 k1 p2 k2 p3 k3 p4 k4 p5 k5 where steps:
    "copy_files env fl k p = (Inr p1, k1)" "copy_fs env fl k1 p1 = (Inr p2, k2)"
    "copy_sighand env fl k2 p2 = (Inr p3, k3)" "copy_signal env fl t k3 p3 = (Inr p4, k4)"
    "copy_mm (mm_part env) fl t k4 p4 = (Inr p5, k5)" "rest k5 p5 = (Inr p', k')"
    using run unfolding shared_steps_def attempt_success by blast
  note r = ready [unfolded shared_ready_def]
  obtain hf f where 1: "k1 = k\<lparr>filess := hf\<rparr>" "p1 = p\<lparr>tsk_files := f\<rparr>" "gains files_count (filess k) hf f"
    "shared_or_new (has fl CLONE_FILES) (filess k) (tsk_files p) f"
    using files_effect [OF steps(1)] r by blast
  have "fs_ready env k1" "tsk_fs p1 = tsk_fs (cur k1)" using r by (simp_all add: 1 fs_ready_def)
  from fs_effect [OF steps(2) this] obtain hs s where 2: "k2 = k1\<lparr>fss := hs\<rparr>" "p2 = p1\<lparr>tsk_fs := s\<rparr>"
    "gains fs_users (fss k) hs s" "shared_or_new (has fl CLONE_FS) (fss k) (tsk_fs p) s" by (auto simp: 1)
  have "sighand_ready env k2" "tsk_sighand p2 = tsk_sighand (cur k2)" using r by (simp_all add: 1 2 sighand_ready_def)
  from sighand_effect [OF steps(3) this] obtain hh a where 3: "k3 = k2\<lparr>sighands := hh\<rparr>" "p3 = p2\<lparr>tsk_sighand := a\<rparr>"
    "gains sighand_count (sighands k) hh (Some a)"
    "shared_or_new (has fl CLONE_SIGHAND) (sighands k) (Some (tsk_sighand p)) (Some a)" by (auto simp: 1 2)
  have "signals k3 = signals k" "tsk_signal p3 = tsk_signal p" by (simp_all add: 1 2 3)
  note same = this
  have "signal_ready env k3" using r by (simp add: 1 2 3 signal_ready_def)
  from signal_effect [OF steps(4) this, unfolded same] obtain hg g where 4: "k4 = k3\<lparr>signals := hg\<rparr>" "p4 = p3\<lparr>tsk_signal := g\<rparr>"
    "if has fl CLONE_THREAD then hg = signals k \<and> g = tsk_signal p
     else signals k g = None \<and> (\<exists>s. hg = (signals k)(g \<mapsto> s) \<and> sigcnt s = 1 \<and> sig_nr_threads s = 1 \<and> thread_head s = [t])"
    by blast
  have "mm_ready (mm_part env) t k4" using r by (simp add: 1 2 3 4 mm_ready_def)
  from mm_effect [OF steps(5) this] obtain hm r m where 5: "k5 = k4\<lparr>mms := hm, maps := r\<rparr>" "gains mm_users (mms k) hm m"
    "p5 = p4\<lparr>tsk_min_flt := 0, tsk_maj_flt := 0, tsk_nvcsw := 0, tsk_nivcsw := 0, tsk_mm := m, tsk_active_mm := m\<rparr>"
    "shared_or_new (has fl CLONE_VM) (mms k) (tsk_mm (cur k)) m" by (auto simp: 1 2 3 4)
  have "parts_copied fl t k p k5 p5"
    unfolding parts_copied_def using 1(3,4) 2(3,4) 3(3,4) 4(3) 5(2,4)
    by (cases "has fl CLONE_THREAD") (simp_all add: 1(1,2) 2(1,2) 3(1,2) 4(1,2) 5(1,3) stack_state_def private_fields_def)
  then show ?thesis using steps(6) by blast
qed

subsection \<open>Owners\<close>

lemma owners_insert:
  assumes "tasks k t = None" and "tasks k' t = Some p" and "\<And>u. u \<noteq> t \<Longrightarrow> map_option f (tasks k' u) = map_option f (tasks k u)"
  shows "owners f k' a = (if f p = Some a then insert t (owners f k a) else owners f k a)" and "t \<notin> owners f k a"
proof -
  have "u \<in> owners f k' a \<longleftrightarrow> (if u = t then f p = Some a else u \<in> owners f k a)" for u
    using assms(2) assms(3) [of u] by (cases "tasks k' u"; cases "tasks k u") (auto simp: owners_def)
  then show "owners f k' a = (if f p = Some a then insert t (owners f k a) else owners f k a)"
    using assms(1) by (auto simp: owners_def)
  show "t \<notin> owners f k a" using assms(1) by (simp add: owners_def)
qed

lemma owners_finite: "finite (dom (tasks k)) \<Longrightarrow> finite (owners f k a)"
  by (rule finite_subset [of _ "dom (tasks k)"]) (auto simp: owners_def)

lemma refs_insert:
  assumes "finite (dom (tasks k))" and "tasks k t = None" and "tasks k' t = Some p"
    and "\<And>u. u \<noteq> t \<Longrightarrow> map_option f (tasks k' u) = map_option f (tasks k u)"
    and "gains cnt h h' (f p)" and "\<forall>a. count_of cnt (h a) = card (owners f k a)"
  shows "\<forall>a. count_of cnt (h' a) = card (owners f k' a)"
  using assms(5,6) owners_insert [OF assms(2-4)] owners_finite [OF assms(1)] by (auto simp: gains_def)

subsection \<open>Publication\<close>

lemma count_of_map: "(\<And>x. cnt (f x) = cnt x) \<Longrightarrow> count_of cnt (map_option f y) = count_of cnt y"
  by (cases y) simp_all

lemma count_of_upd: "(\<And>x. cnt (f x) = cnt x) \<Longrightarrow> count_of cnt (upd a f h b) = count_of cnt (h b)"
  by (cases "h b"; cases "b = a") (simp_all add: upd_def)

lemma gains_upd_right:
  "(\<And>x. cnt (f x) = cnt x) \<Longrightarrow> gains cnt h (upd a f h') r = gains cnt h h' r"
  by (simp add: gains_def count_of_upd)

text \<open>The threads of each signal structure when the task at \<open>t\<close> joins that at \<open>g\<close>.\<close>

definition thread_list :: "nat list option \<Rightarrow> nat list" where
  "thread_list x = (case x of None \<Rightarrow> [] | Some xs \<Rightarrow> xs)"

lemma thread_list_simps [simp]: "thread_list None = []" "thread_list (Some xs) = xs"
  by (simp_all add: thread_list_def)

definition thread_joins :: "nat \<Rightarrow> nat option \<Rightarrow> (nat \<Rightarrow> signal_struct option) \<Rightarrow> (nat \<Rightarrow> signal_struct option) \<Rightarrow> bool" where
  "thread_joins t g h h' \<longleftrightarrow> (\<forall>a. map_option thread_head (h' a) =
     (if g = Some a then Some (thread_list (map_option thread_head (h a)) @ [t]) else map_option thread_head (h a)))"

lemma thread_joins_trans:
  "thread_joins t None h h1 \<Longrightarrow> thread_joins t g h1 h2 \<Longrightarrow> thread_joins t g h h2"
  "thread_joins t g h h1 \<Longrightarrow> thread_joins t None h1 h2 \<Longrightarrow> thread_joins t g h h2"
  by (simp_all add: thread_joins_def)

text \<open>What publishing the task \<open>p\<close> at address \<open>t\<close> changes.\<close>

definition published :: "'x fork_env \<Rightarrow> bool \<Rightarrow> nat \<Rightarrow> task_struct \<Rightarrow> 'x kern \<Rightarrow> 'x kern \<Rightarrow> bool" where
  "published env leader t p k k' \<longleftrightarrow>
     (\<exists>par. tasks k' t = Some (p\<lparr>tsk_parent := par, tsk_thread_pid := Some (tsk_pid p)\<rparr>))
     \<and> (\<forall>u. u \<noteq> t \<longrightarrow> tasks k' u =
          (if leader \<and> u = tsk_real_parent p then map_option (\<lambda>q. q\<lparr>tsk_children := tsk_children q @ [t]\<rparr>) (tasks k u)
           else tasks k u))
     \<and> current k' = current k \<and> filess k' = filess k \<and> fss k' = fss k \<and> sighands k' = sighands k
     \<and> stack_state k' = stack_state k \<and> filter_refs k' = filter_refs k
     \<and> (\<forall>a. count_of mm_users (mms k' a) = count_of mm_users (mms k a))
     \<and> (\<forall>a. count_of sigcnt (signals k' a) =
          count_of sigcnt (signals k a) + (if \<not> leader \<and> a = tsk_signal (cur k) then 1 else 0))
     \<and> thread_joins t (if leader then None else Some (tsk_signal (cur k))) (signals k) (signals k')
     \<and> task_list k' = (if leader then task_list k @ [t] else task_list k)
     \<and> nr_threads k' = nr_threads k + 1 \<and> total_forks k' = total_forks k + 1 \<and> max_threads k' = max_threads k"

lemma map_option_upd: "(\<And>x. f (g x) = f x) \<Longrightarrow> map_option f (upd a g h b) = map_option f (h b)"
  by (cases "h b"; cases "b = a") (simp_all add: upd_def)

lemma oom_effect:
  "tasks (copy_oom_score_adj fl p k) = tasks k \<and> current (copy_oom_score_adj fl p k) = current k
   \<and> filess (copy_oom_score_adj fl p k) = filess k \<and> fss (copy_oom_score_adj fl p k) = fss k
   \<and> sighands (copy_oom_score_adj fl p k) = sighands k \<and> task_list (copy_oom_score_adj fl p k) = task_list k
   \<and> nr_threads (copy_oom_score_adj fl p k) = nr_threads k \<and> max_threads (copy_oom_score_adj fl p k) = max_threads k \<and> total_forks (copy_oom_score_adj fl p k) = total_forks k
   \<and> stack_state (copy_oom_score_adj fl p k) = stack_state k \<and> filter_refs (copy_oom_score_adj fl p k) = filter_refs k
   \<and> map_option thread_head (signals (copy_oom_score_adj fl p k) a) = map_option thread_head (signals k a)
   \<and> count_of mm_users (mms (copy_oom_score_adj fl p k) a) = count_of mm_users (mms k a)
   \<and> count_of sigcnt (signals (copy_oom_score_adj fl p k) a) = count_of sigcnt (signals k a)"
  by (simp add: copy_oom_score_adj_def count_of_upd map_option_upd stack_state_def split: option.splits)

lemma undelay_effect:
  "tasks (undelay_signals fl k) = tasks k \<and> current (undelay_signals fl k) = current k
   \<and> filess (undelay_signals fl k) = filess k \<and> fss (undelay_signals fl k) = fss k \<and> mms (undelay_signals fl k) = mms k
   \<and> sighands (undelay_signals fl k) = sighands k \<and> task_list (undelay_signals fl k) = task_list k
   \<and> nr_threads (undelay_signals fl k) = nr_threads k \<and> max_threads (undelay_signals fl k) = max_threads k \<and> total_forks (undelay_signals fl k) = total_forks k
   \<and> stack_state (undelay_signals fl k) = stack_state k \<and> filter_refs (undelay_signals fl k) = filter_refs k
   \<and> map_option thread_head (signals (undelay_signals fl k) a) = map_option thread_head (signals k a)
   \<and> count_of sigcnt (signals (undelay_signals fl k) a) = count_of sigcnt (signals k a)"
  by (simp add: undelay_signals_def count_of_upd map_option_upd stack_state_def)

lemma publish_effect:
  assumes "tsk_pid p \<noteq> 0" and "tasks k t = None" and "tsk_real_parent p \<noteq> t" and "current k \<noteq> t"
    and "signals k (tsk_signal (cur k)) = Some s" and "\<And>q. thread_group_leader env q \<longleftrightarrow> 0 \<le> tsk_exit_signal q"
  shows "published env (0 \<le> tsk_exit_signal p) t p k (publish env args trace t p k)"
proof (cases "0 \<le> tsk_exit_signal p")
  case True
  then show ?thesis
    using assms by (auto simp: published_def publish_def Let_def oom_effect undelay_effect count_of_map upd_def init_task_pid_def
        thread_joins_def option.map_comp comp_def)
next
  case False
  then show ?thesis
    using assms by (auto simp: published_def publish_def Let_def oom_effect undelay_effect count_of_map upd_def init_task_pid_def
        thread_joins_def option.map_comp comp_def)
qed

end
