(* ===== verification/Fork_Child.thy ===== *)
theory Fork_Child
  imports Fork_Success
begin

section \<open>The new task\<close>

text \<open>
  What \<open>copy_process\<close> makes when it succeeds: the place of the new task among the others, who it is, what it shares, what
  it has for itself and what restricts it, and the counts of the objects it points to.
\<close>

subsection \<open>What a fork makes\<close>

text \<open>
  The state after a successful \<open>copy_process\<close>: the new task \<open>p\<close> at the address \<open>t\<close>, its place in the process
  tree, what it shares and what it has for itself, and every count one higher where it points.
\<close>

definition child_linked :: "64 word \<Rightarrow> nat \<Rightarrow> task_struct \<Rightarrow> 'x kern \<Rightarrow> 'x kern \<Rightarrow> bool" where
  "child_linked fl t p k k' \<longleftrightarrow>
     tasks k t = None \<and> tasks k' t = Some p \<and> current k' = current k
     \<and> (\<forall>u. u \<noteq> t \<longrightarrow> tasks k' u =
          (if \<not> has fl CLONE_THREAD \<and> u = tsk_real_parent p
           then map_option (\<lambda>q. q\<lparr>tsk_children := tsk_children q @ [t]\<rparr>) (tasks (clear_nproc k) u)
           else tasks (clear_nproc k) u))
     \<and> task_list k' = (if has fl CLONE_THREAD then task_list k else task_list k @ [t])
     \<and> thread_joins t (Some (tsk_signal p)) (signals k) (signals k')
     \<and> nr_threads k < max_threads k \<and> max_threads k' = max_threads k
     \<and> nr_threads k' = nr_threads k + 1 \<and> total_forks k' = total_forks k + 1"

definition child_identity :: "64 word \<Rightarrow> nat \<Rightarrow> task_struct \<Rightarrow> 'x kern \<Rightarrow> bool" where
  "child_identity fl t p k \<longleftrightarrow>
     0 < tsk_pid p
     \<and> (if has fl CLONE_THREAD then tsk_group_leader p = tsk_group_leader (cur k) \<and> tsk_tgid p = tsk_tgid (cur k)
        else tsk_group_leader p = t \<and> tsk_tgid p = tsk_pid p)
     \<and> (0 \<le> tsk_exit_signal p \<longleftrightarrow> \<not> has fl CLONE_THREAD)
     \<and> tsk_real_parent p = (if has fl (CLONE_PARENT OR CLONE_THREAD) then tsk_real_parent (cur k) else current k)
     \<and> tsk_children p = [] \<and> tsk_comm p = tsk_comm (cur k) \<and> tsk_fork_count p = tsk_fork_count (cur k)
     \<and> tsk_nvcsw p = 0 \<and> tsk_nivcsw p = 0 \<and> tsk_utime p = 0 \<and> tsk_stime p = 0"

definition child_shares :: "64 word \<Rightarrow> task_struct \<Rightarrow> 'x kern \<Rightarrow> bool" where
  "child_shares fl p k \<longleftrightarrow>
     shared_or_new (has fl CLONE_FILES) (filess k) (tsk_files (cur k)) (tsk_files p)
     \<and> shared_or_new (has fl CLONE_FS) (fss k) (tsk_fs (cur k)) (tsk_fs p)
     \<and> shared_or_new (has fl CLONE_SIGHAND) (sighands k) (Some (tsk_sighand (cur k))) (Some (tsk_sighand p))
     \<and> shared_or_new (has fl CLONE_THREAD) (signals k) (Some (tsk_signal (cur k))) (Some (tsk_signal p))
     \<and> shared_or_new (has fl CLONE_VM) (mms k) (tsk_mm (cur k)) (tsk_mm p)"

definition child_counts :: "task_struct \<Rightarrow> 'x kern \<Rightarrow> 'x kern \<Rightarrow> bool" where
  "child_counts p k k' \<longleftrightarrow>
     gains files_count (filess k) (filess k') (tsk_files p) \<and> gains fs_users (fss k) (fss k') (tsk_fs p)
     \<and> gains sighand_count (sighands k) (sighands k') (Some (tsk_sighand p))
     \<and> gains sigcnt (signals k) (signals k') (Some (tsk_signal p)) \<and> gains mm_users (mms k) (mms k') (tsk_mm p)
     \<and> (\<forall>a. filter_refs k' a = filter_refs k a + (if tsk_seccomp_filter p = Some a then 1 else 0))"

text \<open>
  What the new task has for itself: a stack that was not in use, with one reference, one reference for the users of the task
  and two for its readers, no flag that makes it reschedule or trace system calls, no lock and no reader section.
\<close>

definition child_own :: "task_struct \<Rightarrow> 'x kern \<Rightarrow> 'x kern \<Rightarrow> bool" where
  "child_own p k k' \<longleftrightarrow>
     cache_ok k'
     \<and> (\<exists>s. tsk_stack p = Some s \<and> \<not> in_use k s \<and> in_use k' = (in_use k)(s := True)
        \<and> (\<forall>u. u \<noteq> s \<longrightarrow> uncharged u (acct k') = uncharged u (acct k)))
     \<and> tsk_usage p = 1 \<and> tsk_rcu_users p = 2 \<and> tsk_stack_refcount p = 1
     \<and> \<not> test_tsk_need_resched p \<and> \<not> test_tsk_thread_flag TIF_SYSCALL_TRACE p \<and> \<not> test_tsk_thread_flag TIF_SYSCALL_EMU p
     \<and> tsk_pi_waiters p = [] \<and> tsk_pi_top_task p = None \<and> tsk_pi_blocked_on p = None
     \<and> tsk_rcu_read_lock_nesting p = 0 \<and> tsk_rcu_read_unlock_special p = 0"

text \<open>
  The restrictions of the calling task hold for the new one: the seccomp mode and filter, the atomic flags, with the flag that
  sends system calls through the filter.  The restartable sequence is inherited only by a copy of the address space.
\<close>

definition child_restricted :: "64 word \<Rightarrow> task_struct \<Rightarrow> 'x kern \<Rightarrow> bool" where
  "child_restricted fl p k \<longleftrightarrow>
     tsk_seccomp_mode p = tsk_seccomp_mode (cur k) \<and> tsk_seccomp_filter p = tsk_seccomp_filter (cur k)
     \<and> (tsk_seccomp_mode p \<noteq> 0 \<longrightarrow> test_tsk_thread_flag TIF_SECCOMP p)
     \<and> (\<forall>n. TASK_PFA_TEST n p = TASK_PFA_TEST n (cur k))
     \<and> (if has fl CLONE_VM then tsk_rseq p = 0
        else tsk_rseq p = tsk_rseq (cur k) \<and> tsk_rseq_sig p = tsk_rseq_sig (cur k) \<and> tsk_rseq_event_mask p = tsk_rseq_event_mask (cur k))"

text \<open>
  What a caller guarantees: the address of the new task is not that of a parent, and the exit signals of
  group leaders, of the arguments and of threads are as \<open>thread_group_leader\<close> expects.
\<close>

definition fork_sane :: "'x fork_env \<Rightarrow> kernel_clone_args \<Rightarrow> 'x kern \<Rightarrow> bool" where
  "fork_sane env args k \<longleftrightarrow>
     (\<forall>q. thread_group_leader env q \<longleftrightarrow> 0 \<le> tsk_exit_signal q)
     \<and> 0 \<le> exit_signal args \<and> 0 \<le> tsk_exit_signal (the (tasks k (tsk_group_leader (cur k))))
     \<and> tasks k (tsk_real_parent (cur k)) \<noteq> None"

lemma clear_nproc_fields [simp]:
  "current (clear_nproc k) = current k" "filess (clear_nproc k) = filess k" "fss (clear_nproc k) = fss k"
  "sighands (clear_nproc k) = sighands k" "signals (clear_nproc k) = signals k" "mms (clear_nproc k) = mms k"
  "task_list (clear_nproc k) = task_list k" "nr_threads (clear_nproc k) = nr_threads k" "total_forks (clear_nproc k) = total_forks k"
  "max_threads (clear_nproc k) = max_threads k"
  "stack_state (clear_nproc k) = stack_state k" "filter_refs (clear_nproc k) = filter_refs k"
  "tasks (clear_nproc k) u = None \<longleftrightarrow> tasks k u = None"
  by (simp_all add: clear_nproc_def upd_def stack_state_def)

lemma cur_clear:
  assumes "tasks k (current k) = Some c"
  shows "cur (clear_nproc k) = c\<lparr>tsk_flags := tsk_flags c AND NOT PF_NPROC_EXCEEDED\<rparr>"
  using assms by (simp add: clear_nproc_def)

lemma delay_counts:
  "count_of sigcnt (signals (delay_signals fl k) a) = count_of sigcnt (signals k a)"
  "task_list (delay_signals fl k) = task_list k" "nr_threads (delay_signals fl k) = nr_threads k"
  "total_forks (delay_signals fl k) = total_forks k" "max_threads (delay_signals fl k) = max_threads k" "map_option thread_head (signals (delay_signals fl k) a) = map_option thread_head (signals k a)"
  by (simp_all add: delay_signals_def count_of_upd map_option_upd)

lemma has_or: "has fl (a OR b) \<longleftrightarrow> has fl a \<or> has fl b"
proof -
  have "fl AND (a OR b) = (fl AND a) OR (fl AND b)" by (simp add: bit.conj_disj_distrib)
  moreover have "x OR y = 0 \<longleftrightarrow> x = 0 \<and> y = 0" for x y :: "64 word" by (rule or_eq_0_iff)
  ultimately show ?thesis by (simp add: has_def)
qed

text \<open>The task after the steps, from the one that \<open>dup_task_struct\<close> made.\<close>

lemma fork_steps_effect:
  assumes run: "fork_steps env args None t k p = (Inr p', k')" and ready: "shared_ready env t k p" and "pid_ok env"
  shows "\<exists>x k1 p1 y io nr. nr_threads k < max_threads k
    \<and> parts_copied (flags args) t (k\<lparr>ext := x\<rparr>) (init_child k (p\<lparr>tsk_cred := new_cred env (tsk_cred p)\<rparr>)) k1 p1
    \<and> k' = (take_filter env k1)\<lparr>ext := y\<rparr> \<and> 0 < nr \<and> p' = late_task env args t k1 (p1\<lparr>tsk_io_context := io, tsk_pid := nr\<rparr>)"
proof -
  obtain x where steps: "shared_steps env (flags args) t (late_steps env args None t) (k\<lparr>ext := x\<rparr>)
      (init_child k (p\<lparr>tsk_cred := new_cred env (tsk_cred p)\<rparr>)) = (Inr p', k')" and room: "nr_threads k < max_threads k"
    using early_effect [OF run [unfolded fork_steps_def]] by blast
  have "shared_ready env t (k\<lparr>ext := x\<rparr>) (init_child k (p\<lparr>tsk_cred := new_cred env (tsk_cred p)\<rparr>))" using ready by simp
  from shared_effect [OF steps this] obtain k1 p1 where late: "late_steps env args None t k1 p1 = (Inr p', k')"
    and parts: "parts_copied (flags args) t (k\<lparr>ext := x\<rparr>) (init_child k (p\<lparr>tsk_cred := new_cred env (tsk_cred p)\<rparr>)) k1 p1" by blast
  show ?thesis using late_effect [OF late] assms(3) parts room by blast
qed

lemmas late_defs = late_task_def fork_rseq_def rseq_fork_def with_seccomp_def set_parent_def set_group_def stop_tracing_def
  clear_tsk_thread_flag_def set_tsk_thread_flag_def task_set_no_new_privs_def TASK_PFA_SET_def Let_def

lemma late_fields [simp]:
  "tsk_files (late_task env args t k p) = tsk_files p" "tsk_fs (late_task env args t k p) = tsk_fs p"
  "tsk_sighand (late_task env args t k p) = tsk_sighand p" "tsk_signal (late_task env args t k p) = tsk_signal p"
  "tsk_mm (late_task env args t k p) = tsk_mm p" "tsk_children (late_task env args t k p) = tsk_children p"
  "tsk_comm (late_task env args t k p) = tsk_comm p" "tsk_fork_count (late_task env args t k p) = tsk_fork_count p"
  "tsk_pid (late_task env args t k p) = tsk_pid p" "tsk_nvcsw (late_task env args t k p) = tsk_nvcsw p"
  "tsk_nivcsw (late_task env args t k p) = tsk_nivcsw p" "tsk_utime (late_task env args t k p) = tsk_utime p"
  "tsk_stime (late_task env args t k p) = tsk_stime p" "tsk_stack (late_task env args t k p) = tsk_stack p"
  "tsk_usage (late_task env args t k p) = tsk_usage p" "tsk_rcu_users (late_task env args t k p) = tsk_rcu_users p"
  "tsk_stack_refcount (late_task env args t k p) = tsk_stack_refcount p" "tsk_pi_waiters (late_task env args t k p) = tsk_pi_waiters p"
  "tsk_pi_top_task (late_task env args t k p) = tsk_pi_top_task p" "tsk_pi_blocked_on (late_task env args t k p) = tsk_pi_blocked_on p"
  "tsk_rcu_read_lock_nesting (late_task env args t k p) = tsk_rcu_read_lock_nesting p"
  "tsk_rcu_read_unlock_special (late_task env args t k p) = tsk_rcu_read_unlock_special p"
  by (simp_all add: late_defs)

lemma late_set:
  "tsk_tgid (late_task env args t k p) = (if has (flags args) CLONE_THREAD then tsk_tgid (cur k) else tsk_pid p)"
  "tsk_group_leader (late_task env args t k p) = (if has (flags args) CLONE_THREAD then tsk_group_leader (cur k) else t)"
  "tsk_real_parent (late_task env args t k p) =
     (if has (flags args) (CLONE_PARENT OR CLONE_THREAD) then tsk_real_parent (cur k) else current k)"
  "tsk_exit_signal (late_task env args t k p) =
     (if has (flags args) CLONE_THREAD then - 1
      else if has (flags args) CLONE_PARENT then tsk_exit_signal (the (tasks k (tsk_group_leader (cur k)))) else exit_signal args)"
  by (simp_all add: late_defs has_or)

lemma late_restrictions:
  "tsk_seccomp_mode (late_task env args t k p) = tsk_seccomp_mode (cur k)" "tsk_seccomp_filter (late_task env args t k p) = tsk_seccomp_filter (cur k)"
  "tsk_rseq (late_task env args t k p) = (if has (flags args) CLONE_VM then 0 else tsk_rseq (cur k))"
  "tsk_rseq_sig (late_task env args t k p) = (if has (flags args) CLONE_VM then 0 else tsk_rseq_sig (cur k))"
  "tsk_rseq_event_mask (late_task env args t k p) = (if has (flags args) CLONE_VM then 0 else tsk_rseq_event_mask (cur k))"
  by (simp_all add: late_defs)

lemma late_flags:
  "test_tsk_thread_flag m (late_task env args t k p) \<longleftrightarrow>
     m = TIF_SECCOMP \<and> tsk_seccomp_mode (cur k) \<noteq> 0 \<or> m \<noteq> TIF_SYSCALL_TRACE \<and> m \<noteq> TIF_SYSCALL_EMU \<and> test_tsk_thread_flag m p"
  "TASK_PFA_TEST n (late_task env args t k p) \<longleftrightarrow> n = PFA_NO_NEW_PRIVS \<and> task_no_new_privs (cur k) \<or> TASK_PFA_TEST n p"
  by (auto simp: late_defs test_tsk_thread_flag_def TASK_PFA_TEST_def bit_simps thread_flag_defs atomic_flag_defs)

lemma clear_nproc_exit_signal: "tsk_exit_signal (the (tasks (clear_nproc k) g)) = tsk_exit_signal (the (tasks k g))"
  if "tasks k (current k) = Some c"
  using that by (simp add: clear_nproc_def upd_def)

text \<open>The fields that \<open>init_child\<close> leaves or sets.\<close>

lemma init_fields [simp]:
  "tsk_files (init_child k p) = tsk_files p" "tsk_fs (init_child k p) = tsk_fs p" "tsk_sighand (init_child k p) = tsk_sighand p"
  "tsk_signal (init_child k p) = tsk_signal p" "tsk_children (init_child k p) = []" "tsk_comm (init_child k p) = tsk_comm p"
  "tsk_fork_count (init_child k p) = tsk_fork_count p" "tsk_utime (init_child k p) = 0" "tsk_stime (init_child k p) = 0"
  by (simp_all add: init_child_def rcu_copy_process_def)

text \<open>The private fields when the shared parts are copied.\<close>

definition first_private :: "nat \<Rightarrow> task_struct \<Rightarrow> task_struct \<Rightarrow> bool" where
  "first_private s c p \<longleftrightarrow> private_fields p =
     ((unset_bit TIF_NEED_RESCHED (tsk_thread_flags c), tsk_atomic_flags c, Some s), (1, 2, 1), ([], None, None), (0, 0))"

lemma start_private: "first_private s c (init_child k ((rt_mutex_init_task (set_tids args (own_fields s c)))\<lparr>tsk_cred := cr\<rparr>))"
  by (simp add: first_private_def private_fields_def init_child_def rcu_copy_process_def rt_mutex_init_task_def set_tids_def own_fields_def
      clear_tsk_need_resched_def clear_tsk_thread_flag_def)

lemma cur_flags: "tasks k (current k) = Some c \<Longrightarrow> the (tasks (clear_nproc k) (current k)) = c\<lparr>tsk_flags := tsk_flags c AND NOT PF_NPROC_EXCEEDED\<rparr>"
  using cur_clear [of k c] by simp

lemma signal_part:
  assumes "if thread then h3 = h1 \<and> g = c else h (g :: nat) = None \<and> (\<exists>s. h3 = h1(g \<mapsto> s) \<and> sigcnt s = 1 \<and> thread_head s = [t])"
    and "\<And>a. count_of sigcnt (h1 a) = count_of sigcnt (h a)" and "\<And>a. h1 a = None \<longleftrightarrow> h a = None"
    and "\<And>a. map_option thread_head (h1 a) = map_option thread_head (h a)"
  shows "gains sigcnt h h3 (if thread then None else Some g)" and "shared_or_new thread h (Some c) (Some g)"
    and "h c \<noteq> None \<Longrightarrow> h3 c \<noteq> None" and "thread_joins t (if thread then None else Some g) h h3"
proof -
  show "gains sigcnt h h3 (if thread then None else Some g)" "shared_or_new thread h (Some c) (Some g)"
    "thread_joins t (if thread then None else Some g) h h3"
    using assms(1,2,4) by (auto simp: gains_def shared_or_new_def thread_joins_def option.map_disc_iff split: if_splits)
  show "h3 c \<noteq> None" if "h c \<noteq> None"
    using assms(1) assms(3) [of c] that by (auto split: if_splits)
qed

lemma take_filter_refs:
  assumes "seccomp_ok env"
  shows "filter_refs (take_filter env k) a = filter_refs k a + (if tsk_seccomp_filter (cur k) = Some a then 1 else 0)"
  using assms by (auto simp: take_filter_def seccomp_ok_def split: option.splits)

text \<open>
  The new task and the state before the steps that follow the shared parts, in terms of the state at the call: \<open>s\<close> is the
  new stack.
\<close>

definition built :: "64 word \<Rightarrow> nat \<Rightarrow> nat \<Rightarrow> 'x kern \<Rightarrow> 'x kern \<Rightarrow> task_struct \<Rightarrow> bool" where
  "built fl t s k k5 p5 \<longleftrightarrow>
     tasks k t = None \<and> tasks k5 = tasks (clear_nproc k) \<and> current k5 = current k \<and> task_list k5 = task_list k
     \<and> nr_threads k5 = nr_threads k \<and> nr_threads k < max_threads k \<and> max_threads k5 = max_threads k \<and> total_forks k5 = total_forks k \<and> filter_refs k5 = filter_refs k \<and> holds_stack k s k5
     \<and> child_shares fl p5 k \<and> signals k5 (tsk_signal (cur k)) \<noteq> None
     \<and> gains files_count (filess k) (filess k5) (tsk_files p5) \<and> gains fs_users (fss k) (fss k5) (tsk_fs p5)
     \<and> gains sighand_count (sighands k) (sighands k5) (Some (tsk_sighand p5)) \<and> gains mm_users (mms k) (mms k5) (tsk_mm p5)
     \<and> gains sigcnt (signals k) (signals k5) (if has fl CLONE_THREAD then None else Some (tsk_signal p5))
     \<and> thread_joins t (if has fl CLONE_THREAD then None else Some (tsk_signal p5)) (signals k) (signals k5)
     \<and> (has fl CLONE_THREAD \<longrightarrow> tsk_signal p5 = tsk_signal (cur k)) \<and> first_private s (cur k) p5
     \<and> tsk_children p5 = [] \<and> tsk_fork_count p5 = tsk_fork_count (cur k) \<and> tsk_comm p5 = tsk_comm (cur k)
     \<and> tsk_utime p5 = 0 \<and> tsk_stime p5 = 0 \<and> tsk_nvcsw p5 = 0 \<and> tsk_nivcsw p5 = 0"

lemma holds_stack_cong:
  assumes "holds_stack k s k2" and "stack_state k = stack_state j" and "stack_state k2 = stack_state j2"
  shows "holds_stack j s j2"
proof -
  have "in_use k = in_use j" "in_use k2 = in_use j2" "cache_ok k2 = cache_ok j2"
    by (rule stacks_cong; use assms(2,3) in \<open>simp add: stack_state_def\<close>)+
  then show ?thesis using assms by (simp add: holds_stack_def stack_state_def)
qed

lemma copy_process_built:
  fixes k k' :: "'x kern"
  assumes ok: "subsystems_ok env" and ready: "fork_ready env k" and run: "copy_process env None trace args k = (Inr t, k')"
  shows "\<exists>s k5 p5 y io nr. built (flags args) t s k k5 p5 \<and> 0 < nr
    \<and> k' = publish env args trace t (late_task env args t k5 (p5\<lparr>tsk_io_context := io, tsk_pid := nr\<rparr>)) ((take_filter env k5)\<lparr>ext := y\<rparr>)"
proof -
  let ?fl = "flags args" and ?k1 = "delay_signals (flags args) k"
  obtain c sg where cur: "tasks k (current k) = Some c" "signals k (tsk_signal c) = Some sg"
    using ready by (auto simp: fork_ready_def)
  obtain p0 k2 p1 k3 where dup: "dup_task_struct env (cur ?k1) ?k1 = (Some (t, p0), k2)"
    and steps: "fork_steps env args None t (clear_nproc k2) (rt_mutex_init_task (set_tids args p0)) = (Inr p1, k3)"
    and k': "k' = publish env args trace t p1 k3"
    using run by (auto simp: copy_process_def Let_def split: if_splits prod.splits option.splits sum.splits)
  have "\<forall>s. vmalloc_stack env = Some s \<longrightarrow> \<not> stacks ?k1 s" "\<forall>s. \<not> in_use ?k1 s \<longrightarrow> uncharged s (acct ?k1)" "cache_ok ?k1"
    using ready by (auto simp: fork_ready_def)
  note dup = dup_task_Some [OF dup this]
  obtain s where p0: "p0 = own_fields s (cur k)" and held: "holds_stack ?k1 s k2" using dup(2) by auto
  obtain sl c2 st2 a2 where k2: "k2 = ?k1\<lparr>task_slab := sl, cached_stacks := c2, stacks := st2, acct := a2\<rparr>" using dup(3) by blast
  have "pid_ok env" using ok by (simp add: subsystems_ok_def)
  moreover have "shared_ready env t (clear_nproc k2) (rt_mutex_init_task (set_tids args p0))"
    unfolding k2 p0 by (rule shared_ready_start [OF ready dup(1)])
  ultimately obtain x k5 p5 y io nr where room: "nr_threads (clear_nproc k2) < max_threads (clear_nproc k2)" and parts: "parts_copied ?fl t ((clear_nproc k2)\<lparr>ext := x\<rparr>) (init_child (clear_nproc k2)
      ((rt_mutex_init_task (set_tids args p0))\<lparr>tsk_cred := new_cred env (tsk_cred (rt_mutex_init_task (set_tids args p0)))\<rparr>)) k5 p5"
    and k3: "k3 = (take_filter env k5)\<lparr>ext := y\<rparr>" and nr: "0 < nr" and p1: "p1 = late_task env args t k5 (p5\<lparr>tsk_io_context := io, tsk_pid := nr\<rparr>)"
    using fork_steps_effect [OF steps] by blast
  note parts = parts [unfolded parts_copied_def]
  have keep: "filess k2 = filess k" "fss k2 = fss k" "sighands k2 = sighands k" "mms k2 = mms k" "task_list k2 = task_list k"
    "nr_threads k2 = nr_threads k" "total_forks k2 = total_forks k" "max_threads k2 = max_threads k" "signals k2 = signals ?k1" "current k2 = current k"
    "tasks k2 = tasks k" "filter_refs k2 = filter_refs k" by (simp_all add: k2 delay_counts)
  have tasks5: "tasks k5 = tasks (clear_nproc k)" using parts by (simp add: k2 clear_nproc_def)
  have "stack_state k5 = stack_state k2" "stack_state ?k1 = stack_state k" using parts by (simp_all add: delay_signals_def)
  then have held5: "holds_stack k s k5" using holds_stack_cong [OF held, of k k5] by simp
  have own: "first_private s c p5"
    using parts start_private [of s c "clear_nproc k2"] cur(1) by (simp add: first_private_def p0)
  have sig: "if has ?fl CLONE_THREAD then signals k5 = signals ?k1 \<and> tsk_signal p5 = tsk_signal c
      else signals k (tsk_signal p5) = None \<and> (\<exists>s. signals k5 = (signals ?k1)(tsk_signal p5 \<mapsto> s) \<and> sigcnt s = 1 \<and> thread_head s = [t])"
    using parts cur(1) by (auto simp: keep p0 split: if_splits)
  note signal = signal_part [OF sig delay_counts(1) delay_signals_simps(14) delay_counts(6)]
  have "tasks k t = None" using ready dup(1) by (simp add: fork_ready_def)
  moreover have "tsk_mm (cur (clear_nproc k2)) = tsk_mm c" using cur(1) by (simp add: clear_nproc_def keep)
  then have "child_shares ?fl p5 k" unfolding child_shares_def using parts cur(1) signal(2) by (simp add: keep p0)
  ultimately have "built ?fl t s k k5 p5"
    unfolding built_def using parts signal(1,3,4) cur sig held5 own room
    by (simp add: keep tasks5 p0 split: if_splits)
  then show ?thesis using k' k3 nr p1 by blast
qed

text \<open>The task after the later steps: who it is, what restricts it and what is its own.\<close>

lemma built_cur:
  assumes "built fl t s k k5 p5" and "tasks k (current k) = Some c"
  shows "cur k5 = c\<lparr>tsk_flags := tsk_flags c AND NOT PF_NPROC_EXCEEDED\<rparr>"
  using assms cur_flags [OF assms(2)] by (simp add: built_def)

lemma built_identity:
  assumes "built (flags args) t s k k5 p5" and "fork_ready env k" and "fork_sane env args k" and "0 < nr"
  shows "child_identity (flags args) t (late_task env args t k5 (p5\<lparr>tsk_io_context := io, tsk_pid := nr\<rparr>)) k"
proof -
  obtain c where c: "tasks k (current k) = Some c" using assms(2) by (auto simp: fork_ready_def)
  note b = assms(1) [unfolded built_def]
  show ?thesis
    unfolding child_identity_def using b assms(3,4) c
    by (simp add: late_set cur_flags [OF c] clear_nproc_exit_signal [OF c] fork_sane_def has_or)
qed

lemma built_restricted:
  assumes "built (flags args) t s k k5 p5" and "fork_ready env k"
  shows "child_restricted (flags args) (late_task env args t k5 (p5\<lparr>tsk_io_context := io, tsk_pid := nr\<rparr>)) k"
proof -
  obtain c where c: "tasks k (current k) = Some c" using assms(2) by (auto simp: fork_ready_def)
  note cur5 = built_cur [OF assms(1) c]
  have "tsk_atomic_flags p5 = tsk_atomic_flags c"
    using assms(1) c by (simp add: built_def first_private_def private_fields_def)
  then have "TASK_PFA_TEST n (p5\<lparr>tsk_io_context := io, tsk_pid := nr\<rparr>) = TASK_PFA_TEST n c"
    "TASK_PFA_TEST n (c\<lparr>tsk_flags := f\<rparr>) = TASK_PFA_TEST n c" for n f by (simp_all add: TASK_PFA_TEST_def)
  then show ?thesis
    using c by (auto simp: child_restricted_def late_restrictions late_flags cur5 task_no_new_privs_def)
qed

lemma built_own:
  assumes "built (flags args) t s k k5 p5" and "stack_state k' = stack_state k5"
  shows "child_own (late_task env args t k5 (p5\<lparr>tsk_io_context := io, tsk_pid := nr\<rparr>)) k k'"
proof -
  note b = assms(1) [unfolded built_def]
  have held: "holds_stack k s k'" using holds_stack_cong [of k s k5 k k'] b assms(2) by simp
  have "tsk_thread_flags p5 = unset_bit TIF_NEED_RESCHED (tsk_thread_flags (cur k))" and
    "tsk_stack p5 = Some s \<and> tsk_usage p5 = 1 \<and> tsk_rcu_users p5 = 2 \<and> tsk_stack_refcount p5 = 1 \<and> tsk_pi_waiters p5 = []
      \<and> tsk_pi_top_task p5 = None \<and> tsk_pi_blocked_on p5 = None \<and> tsk_rcu_read_lock_nesting p5 = 0 \<and> tsk_rcu_read_unlock_special p5 = 0"
    using b by (simp_all add: first_private_def private_fields_def)
  moreover from this(1) have "\<not> test_tsk_thread_flag TIF_NEED_RESCHED (p5\<lparr>tsk_io_context := io, tsk_pid := nr\<rparr>)"
    by (simp add: test_tsk_thread_flag_def bit_simps)
  ultimately show ?thesis
    unfolding child_own_def using held by (simp add: holds_stack_def test_tsk_need_resched_def late_flags) (simp add: thread_flag_defs)
qed

definition new_child :: "64 word \<Rightarrow> nat \<Rightarrow> task_struct \<Rightarrow> 'x kern \<Rightarrow> 'x kern \<Rightarrow> bool" where
  "new_child fl t p k k' \<longleftrightarrow> child_linked fl t p k k' \<and> child_identity fl t p k \<and> child_shares fl p k \<and> child_counts p k k'
     \<and> child_own p k k' \<and> child_restricted fl p k"

lemma built_published:
  assumes built: "built (flags args) t s k k5 p5" and id: "child_identity (flags args) t p k" and ready: "fork_ready env k"
    and sane: "fork_sane env args k" and k3: "k3 = (take_filter env k5)\<lparr>ext := y\<rparr>"
  shows "published env (\<not> has (flags args) CLONE_THREAD) t p k3 (publish env args trace t p k3)"
    and "tsk_signal (cur k3) = tsk_signal (cur k)"
proof -
  obtain c where c: "tasks k (current k) = Some c" using ready by (auto simp: fork_ready_def)
  note b = built [unfolded built_def] and cur5 = built_cur [OF built c]
  show cur3: "tsk_signal (cur k3) = tsk_signal (cur k)" using cur5 c by (simp add: k3)
  then obtain s3 where s3: "signals k3 (tsk_signal (cur k3)) = Some s3" using b by (auto simp: k3)
  have free: "tasks k t = None" "tasks k3 t = None" "current k3 = current k" using b by (simp_all add: k3)
  have "tsk_real_parent p = tsk_real_parent c \<or> tsk_real_parent p = current k" "tsk_pid p \<noteq> 0"
    using id c by (simp_all add: child_identity_def)
  moreover have "tasks k (tsk_real_parent c) \<noteq> None" using sane c by (simp add: fork_sane_def)
  ultimately have "tsk_real_parent p \<noteq> t" "tsk_pid p \<noteq> 0" using free(1) c by auto
  moreover note free(2)
  moreover have "current k3 \<noteq> t" using free c by auto
  moreover have "0 \<le> tsk_exit_signal p \<longleftrightarrow> \<not> has (flags args) CLONE_THREAD" using id by (simp add: child_identity_def)
  ultimately show "published env (\<not> has (flags args) CLONE_THREAD) t p k3 (publish env args trace t p k3)"
    using publish_effect [OF _ _ _ _ s3, of p t env args trace] sane by (simp add: fork_sane_def)
qed

lemma published_child:
  assumes pub: "published env (\<not> has fl CLONE_THREAD) t p k3 k'" and built: "built fl t s k k5 p5" and k3: "k3 = (take_filter env k5)\<lparr>ext := y\<rparr>"
    and sig: "tsk_signal (cur k3) = tsk_signal (cur k)" and ok: "seccomp_ok env"
    and same: "tsk_signal p = tsk_signal p5" "tsk_files p = tsk_files p5" "tsk_fs p = tsk_fs p5" "tsk_sighand p = tsk_sighand p5"
      "tsk_mm p = tsk_mm p5" "tsk_seccomp_filter p = tsk_seccomp_filter (cur k5)"
  shows "\<exists>par. child_linked fl t (p\<lparr>tsk_parent := par, tsk_thread_pid := Some (tsk_pid p)\<rparr>) k k'
    \<and> child_counts (p\<lparr>tsk_parent := par, tsk_thread_pid := Some (tsk_pid p)\<rparr>) k k' \<and> stack_state k' = stack_state k5"
proof -
  note b = built [unfolded built_def]
  note pub = pub [unfolded published_def, THEN conjunct1] pub [unfolded published_def, THEN conjunct2]
  obtain par where at: "tasks k' t = Some (p\<lparr>tsk_parent := par, tsk_thread_pid := Some (tsk_pid p)\<rparr>)"
    using pub(1) by blast
  have others: "\<forall>u. u \<noteq> t \<longrightarrow> tasks k' u = (if \<not> has fl CLONE_THREAD \<and> u = tsk_real_parent p
       then map_option (\<lambda>q. q\<lparr>tsk_children := tsk_children q @ [t]\<rparr>) (tasks k3 u) else tasks k3 u)"
    and rest: "current k' = current k3" "filess k' = filess k3" "fss k' = fss k3" "sighands k' = sighands k3"
      "stack_state k' = stack_state k3" "filter_refs k' = filter_refs k3"
      "\<forall>a. count_of mm_users (mms k' a) = count_of mm_users (mms k3 a)"
      "\<forall>a. count_of sigcnt (signals k' a) = count_of sigcnt (signals k3 a) + (if \<not> \<not> has fl CLONE_THREAD \<and> a = tsk_signal (cur k3) then 1 else 0)"
      "thread_joins t (if \<not> has fl CLONE_THREAD then None else Some (tsk_signal (cur k3))) (signals k3) (signals k')"
      "task_list k' = (if \<not> has fl CLONE_THREAD then task_list k3 @ [t] else task_list k3)"
      "nr_threads k' = nr_threads k3 + 1" "total_forks k' = total_forks k3 + 1" "max_threads k' = max_threads k3"
    using pub(2) by - (elim conjE, assumption)+
  have "thread_joins t (Some (tsk_signal p)) (signals k) (signals k')"
    using b rest(9) sig same(1) thread_joins_trans(1) [of t "signals k" "signals k5" _ "signals k'"]
      thread_joins_trans(2) [of t _ "signals k" "signals k5" "signals k'"]
    by (cases "has fl CLONE_THREAD") (simp_all add: k3)
  then have "child_linked fl t (p\<lparr>tsk_parent := par, tsk_thread_pid := Some (tsk_pid p)\<rparr>) k k'"
    unfolding child_linked_def using at others rest(1,10-13) b by (simp add: k3)
  moreover have "gains sigcnt (signals k) (signals k') (Some (tsk_signal p))"
    using b rest(8) sig same(1) by (auto simp: gains_def k3)
  moreover have "filter_refs k' a = filter_refs k a + (if tsk_seccomp_filter p = Some a then 1 else 0)" for a
    using take_filter_refs [OF ok, of k5 a] b rest(6) same(6) by (simp add: k3)
  moreover have "stack_state k' = stack_state k5" using rest(5) by (simp add: k3 stack_state_def take_filter_def split: option.splits)
  ultimately show ?thesis
    unfolding child_counts_def using rest(2-4,7) b same by (intro exI [of _ par]) (simp add: gains_def k3)
qed

lemma copy_process_success:
  assumes ok: "subsystems_ok env" and ready: "fork_ready env k" and sane: "fork_sane env args k"
    and run: "copy_process env None trace args k = (Inr t, k')"
  shows "\<exists>p. new_child (flags args) t p k k' \<and> tsk_thread_pid p = Some (tsk_pid p)"
proof -
  let ?fl = "flags args"
  obtain s k5 p5 y io nr where built: "built ?fl t s k k5 p5" and nr: "0 < nr"
    and k': "k' = publish env args trace t (late_task env args t k5 (p5\<lparr>tsk_io_context := io, tsk_pid := nr\<rparr>)) ((take_filter env k5)\<lparr>ext := y\<rparr>)"
    using copy_process_built [OF ok ready run] by blast
  define p where "p = late_task env args t k5 (p5\<lparr>tsk_io_context := io, tsk_pid := nr\<rparr>)"
  have id: "child_identity ?fl t p k" unfolding p_def by (rule built_identity [OF built ready sane nr])
  have "seccomp_ok env" using ok by (simp add: subsystems_ok_def)
  from published_child [OF built_published(1) [OF built id ready sane refl] built refl built_published(2) [OF built id ready sane refl] this]
  obtain par where linked: "child_linked ?fl t (p\<lparr>tsk_parent := par, tsk_thread_pid := Some (tsk_pid p)\<rparr>) k k'"
    "child_counts (p\<lparr>tsk_parent := par, tsk_thread_pid := Some (tsk_pid p)\<rparr>) k k'" "stack_state k' = stack_state k5"
    by (auto simp: k' p_def late_restrictions)
  let ?p = "p\<lparr>tsk_parent := par, tsk_thread_pid := Some (tsk_pid p)\<rparr>"
  note own = built_own [OF built linked(3), where env = env and io = io and nr = nr]
    and restr = built_restricted [OF built ready, where io = io and nr = nr]
  have "child_shares ?fl p k" using built by (simp add: built_def child_shares_def p_def)
  moreover have "child_identity ?fl t ?p k \<longleftrightarrow> child_identity ?fl t p k" "child_shares ?fl ?p k \<longleftrightarrow> child_shares ?fl p k"
    "child_own ?p k k' \<longleftrightarrow> child_own p k k'" "child_restricted ?fl ?p k \<longleftrightarrow> child_restricted ?fl p k"
    by (simp_all add: child_identity_def child_shares_def child_own_def child_restricted_def test_tsk_thread_flag_def
        test_tsk_need_resched_def TASK_PFA_TEST_def)
  ultimately show ?thesis using id linked own restr by (intro exI [of _ ?p]) (simp add: new_child_def p_def)
qed

end
