(* ===== verification/Do_Fork.thy ===== *)
theory Do_Fork
  imports Fork_Child
begin

section \<open>The fork system calls (Assignment2-1, fork.c)\<close>

text \<open>
  \<open>_do_fork\<close> with the fork counter of the project, \<open>vfork\<close> completion, and the entry points that build
  and check its arguments.  Writes to user memory and tracer notifications are not modelled; what
  \<open>ptrace_event_enabled\<close>, \<open>pid_vnr\<close>, \<open>wake_up_new_task\<close> and the wait for completion do is the environment.
\<close>

definition SIGCHLD :: int where "SIGCHLD = 17"
definition PTRACE_EVENT_FORK :: nat where "PTRACE_EVENT_FORK = 1"
definition PTRACE_EVENT_VFORK :: nat where "PTRACE_EVENT_VFORK = 2"
definition PTRACE_EVENT_CLONE :: nat where "PTRACE_EVENT_CLONE = 3"

record 'x do_env =
  fork_part :: "'x fork_env"
  ptrace_event_enabled :: "nat \<Rightarrow> bool"
  pid_vnr :: "int \<Rightarrow> int"
  wake_state :: "64 word"
  vfork_killed :: bool

subsection \<open>vfork\<close>

definition complete_vfork_done :: "nat \<Rightarrow> 'x kern \<Rightarrow> 'x kern" where
  "complete_vfork_done t k = k\<lparr>tasks := upd t (\<lambda>p. p\<lparr>tsk_vfork_done := False\<rparr>) (tasks k)\<rparr>"

text \<open>
  \<open>wait_for_vfork_done\<close>: it ends when the child has run \<open>complete_vfork_done\<close>, or early when the parent
  is killed, and then clears the child's pointer itself; the reference to the child is dropped.
\<close>

definition wait_for_vfork_done :: "bool \<Rightarrow> nat \<Rightarrow> 'x kern \<Rightarrow> bool \<times> 'x kern" where
  "wait_for_vfork_done killed t k =
     (let k1 = (if killed then k\<lparr>tasks := upd t (\<lambda>p. p\<lparr>tsk_vfork_done := False\<rparr>) (tasks k)\<rparr> else complete_vfork_done t k) in
      (killed, k1\<lparr>tasks := upd t (\<lambda>p. p\<lparr>tsk_usage := tsk_usage p - 1\<rparr>) (tasks k1)\<rparr>))"

definition SIGNAL_GROUP_COREDUMP :: "32 word" where "SIGNAL_GROUP_COREDUMP = 0x00000008"

text \<open>
  \<open>mm_release\<close>: whether user space is told that the thread id is gone, and the task afterwards.
\<close>

definition mm_release :: "nat \<Rightarrow> nat \<Rightarrow> 'x kern \<Rightarrow> bool \<times> 'x kern" where
  "mm_release t mm k =
     (let p = the (tasks k t);
          wake = (tsk_clear_child_tid p \<noteq> 0
                  \<and> sig_flags (the (signals k (tsk_signal p))) AND SIGNAL_GROUP_COREDUMP = 0
                  \<and> mm_users (the (mms k mm)) > 1);
          k1 = k\<lparr>tasks := upd t (\<lambda>p. p\<lparr>tsk_clear_child_tid := 0\<rparr>) (tasks k)\<rparr> in
      (wake, if tsk_vfork_done p then complete_vfork_done t k1 else k1))"

text \<open>\<open>futex_exit_release\<close> and \<open>futex_exec_release\<close> are the argument.\<close>

definition exit_mm_release :: "(nat \<Rightarrow> 'x \<Rightarrow> 'x) \<Rightarrow> nat \<Rightarrow> nat \<Rightarrow> 'x kern \<Rightarrow> bool \<times> 'x kern" where
  "exit_mm_release futex_exit_release t mm k = mm_release t mm (k\<lparr>ext := futex_exit_release t (ext k)\<rparr>)"

definition exec_mm_release :: "(nat \<Rightarrow> 'x \<Rightarrow> 'x) \<Rightarrow> nat \<Rightarrow> nat \<Rightarrow> 'x kern \<Rightarrow> bool \<times> 'x kern" where
  "exec_mm_release futex_exec_release t mm k = mm_release t mm (k\<lparr>ext := futex_exec_release t (ext k)\<rparr>)"

definition set_tid_address :: "(int \<Rightarrow> int) \<Rightarrow> 64 word \<Rightarrow> 'x kern \<Rightarrow> int \<times> 'x kern" where
  "set_tid_address vnr tidptr k =
     (let k1 = k\<lparr>tasks := upd (current k) (\<lambda>p. p\<lparr>tsk_clear_child_tid := tidptr\<rparr>) (tasks k)\<rparr> in
      (vnr (tsk_pid (cur k1)), k1))"

subsection \<open>The main routine\<close>

definition fork_event :: "'x do_env \<Rightarrow> kernel_clone_args \<Rightarrow> nat" where
  "fork_event env args =
     (if has (flags args) CLONE_UNTRACED then 0
      else
        let trace = (if has (flags args) CLONE_VFORK then PTRACE_EVENT_VFORK
                     else if exit_signal args \<noteq> SIGCHLD then PTRACE_EVENT_CLONE
                     else PTRACE_EVENT_FORK) in
        if ptrace_event_enabled env trace then trace else 0)"

text \<open>\<open>p->fork_count = 0; current->fork_count++;\<close>\<close>

definition count_fork :: "nat \<Rightarrow> 'x kern \<Rightarrow> 'x kern" where
  "count_fork t k =
     (let ts = upd t (\<lambda>p. p\<lparr>tsk_fork_count := 0\<rparr>) (tasks k) in
      k\<lparr>tasks := upd (current k) (\<lambda>c. c\<lparr>tsk_fork_count := tsk_fork_count c + 1\<rparr>) ts\<rparr>)"

definition do_fork_main :: "'x do_env \<Rightarrow> kernel_clone_args \<Rightarrow> 'x kern \<Rightarrow> (int + int) \<times> 'x kern" where
  "do_fork_main env args k =
     (case copy_process (fork_part env) None (fork_event env args \<noteq> 0) args k of
        (Inl e, k1) \<Rightarrow> (Inl e, k1)
      | (Inr t, k1) \<Rightarrow>
          let k2 = count_fork t k1;
              nr = pid_vnr env (tsk_pid (the (tasks k2 t)));
              k3 = (if has (flags args) CLONE_VFORK
                    then k2\<lparr>tasks := upd t (\<lambda>p. p\<lparr>tsk_vfork_done := True, tsk_usage := tsk_usage p + 1\<rparr>) (tasks k2)\<rparr> else k2);
              k4 = k3\<lparr>tasks := upd t (\<lambda>p. p\<lparr>tsk_state := wake_state env\<rparr>) (tasks k3)\<rparr>;
              k5 = (if has (flags args) CLONE_VFORK then snd (wait_for_vfork_done (vfork_killed env) t k4) else k4) in
          (Inr nr, k5))"

definition ret_of :: "(int + int) \<times> 'x kern \<Rightarrow> int \<times> 'x kern" where
  "ret_of r = (case fst r of Inl e \<Rightarrow> e | Inr nr \<Rightarrow> nr, snd r)"

subsection \<open>Arguments\<close>

definition lower_32_bits :: "64 word \<Rightarrow> 64 word" where
  "lower_32_bits n = n AND 0xffffffff"

definition legacy_clone_args_valid :: "kernel_clone_args \<Rightarrow> bool" where
  "legacy_clone_args_valid kargs \<longleftrightarrow> \<not> (has (flags kargs) CLONE_PIDFD \<and> has (flags kargs) CLONE_PARENT_SETTID)"

definition do_fork_args :: "64 word \<Rightarrow> 64 word \<Rightarrow> 64 word \<Rightarrow> 64 word \<Rightarrow> 64 word \<Rightarrow> kernel_clone_args" where
  "do_fork_args clone_flags stack_start stk_size parent_tidptr child_tidptr =
     \<lparr>flags = lower_32_bits clone_flags AND NOT CSIGNAL, pidfd = parent_tidptr, child_tid = child_tidptr,
      parent_tid = parent_tidptr, exit_signal = uint (lower_32_bits clone_flags AND CSIGNAL),
      stack = stack_start, stack_size = stk_size, tls = 0\<rparr>"

definition clone_syscall_args :: "64 word \<Rightarrow> 64 word \<Rightarrow> 64 word \<Rightarrow> 64 word \<Rightarrow> 64 word \<Rightarrow> kernel_clone_args" where
  "clone_syscall_args clone_flags newsp parent_tidptr child_tidptr tls_value =
     \<lparr>flags = lower_32_bits clone_flags AND NOT CSIGNAL, pidfd = parent_tidptr, child_tid = child_tidptr,
      parent_tid = parent_tidptr, exit_signal = uint (lower_32_bits clone_flags AND CSIGNAL),
      stack = newsp, stack_size = 0, tls = tls_value\<rparr>"

definition kernel_thread_args :: "64 word \<Rightarrow> 64 word \<Rightarrow> 64 word \<Rightarrow> kernel_clone_args" where
  "kernel_thread_args fn arg fl =
     \<lparr>flags = (lower_32_bits fl OR CLONE_VM OR CLONE_UNTRACED) AND NOT CSIGNAL, pidfd = 0, child_tid = 0,
      parent_tid = 0, exit_signal = uint (lower_32_bits fl AND CSIGNAL), stack = fn, stack_size = arg, tls = 0\<rparr>"

definition plain_args :: "64 word \<Rightarrow> kernel_clone_args" where
  "plain_args fl =
     \<lparr>flags = fl, pidfd = 0, child_tid = 0, parent_tid = 0, exit_signal = SIGCHLD, stack = 0, stack_size = 0, tls = 0\<rparr>"

text \<open>\<open>struct clone_args\<close> of user space, and the checks of \<open>clone3\<close>.\<close>

record clone_args =
  u_flags :: "64 word"
  u_pidfd :: "64 word"
  u_child_tid :: "64 word"
  u_parent_tid :: "64 word"
  u_exit_signal :: "64 word"
  u_stack :: "64 word"
  u_stack_size :: "64 word"
  u_tls :: "64 word"

definition CLONE_ARGS_SIZE_VER0 :: nat where "CLONE_ARGS_SIZE_VER0 = 64"

definition copy_clone_args_from_user ::
  "nat \<Rightarrow> (64 word \<Rightarrow> bool) \<Rightarrow> int + clone_args \<Rightarrow> nat \<Rightarrow> int + kernel_clone_args" where
  "copy_clone_args_from_user page_size valid_signal uargs usize =
     (if usize > page_size then Inl (- E2BIG)
      else if usize < CLONE_ARGS_SIZE_VER0 then Inl (- EINVAL)
      else
        (case uargs of
           Inl err \<Rightarrow> Inl err
         | Inr a \<Rightarrow>
             if has (u_exit_signal a) (NOT CSIGNAL) \<or> \<not> valid_signal (u_exit_signal a) then Inl (- EINVAL)
             else Inr \<lparr>flags = u_flags a, pidfd = u_pidfd a, child_tid = u_child_tid a, parent_tid = u_parent_tid a,
                       exit_signal = uint (u_exit_signal a), stack = u_stack a, stack_size = u_stack_size a, tls = u_tls a\<rparr>))"

definition clone3_stack_valid :: "(64 word \<Rightarrow> 64 word \<Rightarrow> bool) \<Rightarrow> kernel_clone_args \<Rightarrow> kernel_clone_args option" where
  "clone3_stack_valid access_ok kargs =
     (if stack kargs = 0 then (if stack_size kargs > 0 then None else Some kargs)
      else if stack_size kargs = 0 then None
      else if \<not> access_ok (stack kargs) (stack_size kargs) then None
      else Some (kargs\<lparr>stack := stack kargs + stack_size kargs\<rparr>))"

definition clone3_args_valid :: "(64 word \<Rightarrow> 64 word \<Rightarrow> bool) \<Rightarrow> kernel_clone_args \<Rightarrow> kernel_clone_args option" where
  "clone3_args_valid access_ok kargs =
     (if has (flags kargs) (NOT CLONE_LEGACY_FLAGS) then None
      else if has (flags kargs) (CLONE_DETACHED OR CSIGNAL) then None
      else if has (flags kargs) (CLONE_THREAD OR CLONE_PARENT) \<and> exit_signal kargs \<noteq> 0 then None
      else clone3_stack_valid access_ok kargs)"

subsection \<open>Entry points\<close>

definition do_fork :: "'x do_env \<Rightarrow> 64 word \<Rightarrow> 64 word \<Rightarrow> 64 word \<Rightarrow> 64 word \<Rightarrow> 64 word \<Rightarrow> 'x kern \<Rightarrow> int \<times> 'x kern" where
  "do_fork env clone_flags stack_start stk_size parent_tidptr child_tidptr k =
     (let args = do_fork_args clone_flags stack_start stk_size parent_tidptr child_tidptr in
      if \<not> legacy_clone_args_valid args then (- EINVAL, k) else ret_of (do_fork_main env args k))"

definition kernel_thread :: "'x do_env \<Rightarrow> 64 word \<Rightarrow> 64 word \<Rightarrow> 64 word \<Rightarrow> 'x kern \<Rightarrow> int \<times> 'x kern" where
  "kernel_thread env fn arg fl k = ret_of (do_fork_main env (kernel_thread_args fn arg fl) k)"

definition sys_fork :: "'x do_env \<Rightarrow> 'x kern \<Rightarrow> int \<times> 'x kern" where
  "sys_fork env k = ret_of (do_fork_main env (plain_args 0) k)"

definition sys_vfork :: "'x do_env \<Rightarrow> 'x kern \<Rightarrow> int \<times> 'x kern" where
  "sys_vfork env k = ret_of (do_fork_main env (plain_args (CLONE_VFORK OR CLONE_VM)) k)"

definition sys_clone :: "'x do_env \<Rightarrow> 64 word \<Rightarrow> 64 word \<Rightarrow> 64 word \<Rightarrow> 64 word \<Rightarrow> 64 word \<Rightarrow> 'x kern \<Rightarrow> int \<times> 'x kern" where
  "sys_clone env clone_flags newsp parent_tidptr child_tidptr tls_value k =
     (let args = clone_syscall_args clone_flags newsp parent_tidptr child_tidptr tls_value in
      if \<not> legacy_clone_args_valid args then (- EINVAL, k) else ret_of (do_fork_main env args k))"

definition sys_clone3 ::
  "'x do_env \<Rightarrow> nat \<Rightarrow> (64 word \<Rightarrow> bool) \<Rightarrow> (64 word \<Rightarrow> 64 word \<Rightarrow> bool) \<Rightarrow> int + clone_args \<Rightarrow> nat \<Rightarrow> 'x kern \<Rightarrow> int \<times> 'x kern" where
  "sys_clone3 env page_size valid_signal access_ok uargs usize k =
     (case copy_clone_args_from_user page_size valid_signal uargs usize of
        Inl err \<Rightarrow> (err, k)
      | Inr kargs \<Rightarrow>
          (case clone3_args_valid access_ok kargs of
             None \<Rightarrow> (- EINVAL, k)
           | Some kargs' \<Rightarrow> ret_of (do_fork_main env kargs' k)))"

text \<open>\<open>fork_idle\<close>: an idle task for a processor, with the number of the first task; \<open>init_idle\<close> of the scheduler is an argument.\<close>

definition init_idle_pids :: "nat \<Rightarrow> 'x kern \<Rightarrow> 'x kern" where
  "init_idle_pids idle k =
     (let (p, sigs) = fold (\<lambda>type. init_task_pid type (Some 0)) [PIDTYPE_PID, PIDTYPE_TGID, PIDTYPE_PGID, PIDTYPE_SID]
                        (the (tasks k idle), signals k) in
      k\<lparr>tasks := (tasks k)(idle \<mapsto> p), signals := sigs\<rparr>)"

definition fork_idle :: "'x fork_env \<Rightarrow> (nat \<Rightarrow> 'x kern \<Rightarrow> 'x kern) \<Rightarrow> 'x kern \<Rightarrow> (int + nat) \<times> 'x kern" where
  "fork_idle env init_idle k =
     (case copy_process env (Some 0) False
             \<lparr>flags = CLONE_VM, pidfd = 0, child_tid = 0, parent_tid = 0, exit_signal = 0, stack = 0, stack_size = 0, tls = 0\<rparr> k of
        (Inl e, k1) \<Rightarrow> (Inl e, k1)
      | (Inr t, k1) \<Rightarrow> (Inr t, init_idle t (init_idle_pids t k1)))"

text \<open>All four numbers of an idle task are that of the first task.\<close>

lemma init_idle_pids_effect:
  assumes "tasks k t = Some p" and "signals k (tsk_signal p) = Some s"
  shows "\<exists>q s'. tasks (init_idle_pids t k) t = Some q \<and> task_pid q = Some 0
    \<and> signals (init_idle_pids t k) (tsk_signal q) = Some s' \<and> (\<forall>type. type \<noteq> PIDTYPE_PID \<longrightarrow> sig_pids s' type = Some 0)"
proof -
  have "sig_pids s' type = Some 0" if "type \<noteq> PIDTYPE_PID"
    "s' = s\<lparr>sig_pids := (sig_pids s)(PIDTYPE_TGID \<mapsto> 0, PIDTYPE_PGID \<mapsto> 0, PIDTYPE_SID \<mapsto> 0)\<rparr>" for s' type
    using that by (cases type) simp_all
  then show ?thesis
    using assms by (simp add: init_idle_pids_def init_task_pid_def task_pid_def upd_def Let_def)
qed

subsection \<open>The arguments are sane\<close>

text \<open>What \<open>_do_fork\<close> expects its callers to have checked.\<close>

definition sane_args :: "kernel_clone_args \<Rightarrow> bool" where
  "sane_args args \<longleftrightarrow> 0 \<le> exit_signal args \<and> exit_signal args \<le> 255 \<and> \<not> has (flags args) CSIGNAL"

lemma masked_signal: "uint (w AND CSIGNAL) \<le> 255" "0 \<le> uint (w AND CSIGNAL)"
proof -
  have "w AND CSIGNAL \<le> CSIGNAL" by (rule word_and_le1)
  then have "uint (w AND CSIGNAL) \<le> uint CSIGNAL" by (simp add: word_le_def)
  then show "uint (w AND CSIGNAL) \<le> 255" by (simp add: CSIGNAL_def)
qed simp

lemma unmasked_flags: "\<not> has (w AND NOT CSIGNAL) CSIGNAL"
  by (simp add: has_def and.assoc CSIGNAL_def)

lemma clone3_sane:
  assumes "copy_clone_args_from_user page_size valid_signal uargs usize = Inr a" and "clone3_args_valid access_ok a = Some b"
  shows "sane_args b"
proof -
  have fields: "flags b = flags a" "exit_signal b = exit_signal a" and "\<not> has (flags a) (CLONE_DETACHED OR CSIGNAL)"
    using assms(2) by (auto simp: clone3_args_valid_def clone3_stack_valid_def split: if_splits)
  moreover obtain u where "exit_signal a = uint u" "u AND NOT CSIGNAL = 0"
    using assms(1) by (auto simp: copy_clone_args_from_user_def has_def split: if_splits sum.splits)
  moreover have "u AND CSIGNAL = u" if "u AND NOT CSIGNAL = 0" for u
  proof -
    have "u = (u AND CSIGNAL) OR (u AND NOT CSIGNAL)" by (simp flip: bit.conj_disj_distrib)
    then show ?thesis using that by simp
  qed
  ultimately show ?thesis using masked_signal [of u] by (simp add: sane_args_def has_or)
qed

end
