(* ===== verification/Process_Tree.thy ===== *)
theory Process_Tree
  imports Kernel
begin

section \<open>Walking the process tree (Assignment2-1, fork.c)\<close>

text \<open>
  \<open>walk_process_tree\<close> visits the descendants of a process without recursion: it keeps the current thread group,
  thread and child, and finds its way up again through the parent pointers.  The state is what its two loops still
  have to do; each jump of the source is a step.
\<close>

definition threads_of :: "'x kern \<Rightarrow> nat \<Rightarrow> nat list" where
  "threads_of k leader = thread_head (the (signals k (tsk_signal (the (tasks k leader)))))"

definition children_of :: "'x kern \<Rightarrow> nat \<Rightarrow> nat list" where
  "children_of k p = tsk_children (the (tasks k p))"

text \<open>Continuing a list loop behind the element \<open>x\<close>.\<close>

definition after :: "nat \<Rightarrow> nat list \<Rightarrow> nat list" where
  "after x xs = tl (dropWhile (\<lambda>y. y \<noteq> x) xs)"

record 'd walk =
  w_leader :: nat
  w_threads :: "nat list"
  w_children :: "nat list"
  w_data :: 'd

type_synonym 'd visitor = "nat \<Rightarrow> 'd \<Rightarrow> int \<times> 'd"

definition walk_step :: "'x kern \<Rightarrow> 'd visitor \<Rightarrow> nat \<Rightarrow> 'd walk \<Rightarrow> ('d + 'd walk) outcome" where
  "walk_step k visitor topmost w =
     (case w_children w of
        child # cs \<Rightarrow>
          let (res, d) = visitor child (w_data w) in
          if res \<noteq> 0 then
            if res < 0 then Inr (Inl d)
            else Inr (Inr \<lparr>w_leader = child, w_threads = threads_of k child, w_children = [], w_data = d\<rparr>)
          else Inr (Inr (w\<lparr>w_children := cs, w_data := d\<rparr>))
      | [] \<Rightarrow>
          (case w_threads w of
             parent # ts \<Rightarrow> Inr (Inr (w\<lparr>w_threads := ts, w_children := children_of k parent\<rparr>))
           | [] \<Rightarrow>
               if w_leader w \<noteq> topmost then
                 let child = w_leader w;
                     parent = tsk_real_parent (the (tasks k child));
                     leader = tsk_group_leader (the (tasks k parent)) in
                 Inr (Inr \<lparr>w_leader = leader, w_threads = after parent (threads_of k leader),
                           w_children = after child (children_of k parent), w_data = w_data w\<rparr>)
               else Inr (Inl (w_data w))))"

definition walk_process_tree :: "'x kern \<Rightarrow> nat \<Rightarrow> 'd visitor \<Rightarrow> 'd \<Rightarrow> 'd outcome" where
  "walk_process_tree k topmost visitor d =
     (let topmost = tsk_group_leader (the (tasks k topmost)) in
      run_loop (walk_step k visitor topmost)
        \<lparr>w_leader = topmost, w_threads = threads_of k topmost, w_children = [], w_data = d\<rparr>)"

subsection \<open>The tree\<close>

datatype ptree = Node (root: nat) (subtrees: "ptree list")

text \<open>
  \<open>tree_ok\<close>: the processes below a group leader, as the pointers of the kernel describe them.
\<close>

fun tree_ok :: "'x kern \<Rightarrow> ptree \<Rightarrow> bool" where
  "tree_ok k (Node l ss) \<longleftrightarrow>
     map root ss = concat (map (children_of k) (threads_of k l)) \<and> distinct (threads_of k l)
     \<and> (\<forall>p\<in>set (threads_of k l). tsk_group_leader (the (tasks k p)) = l \<and> distinct (children_of k p)
          \<and> (\<forall>c\<in>set (children_of k p). tsk_real_parent (the (tasks k c)) = p))
     \<and> (\<forall>s\<in>set ss. tree_ok k s)"

fun nodes :: "ptree \<Rightarrow> nat set" where
  "nodes (Node l ss) = insert l (\<Union>s\<in>set ss. nodes s)"

text \<open>The recursive walk: whether to go on, and the data.\<close>

fun visit_all :: "'d visitor \<Rightarrow> ptree list \<Rightarrow> 'd \<Rightarrow> bool \<times> 'd" where
  "visit_all visitor [] d = (True, d)"
| "visit_all visitor (Node c ss # ts) d =
     (let (res, d1) = visitor c d in
      if res < 0 then (False, d1)
      else if res = 0 then visit_all visitor ts d1
      else
        (case visit_all visitor ss d1 of
           (False, d2) \<Rightarrow> (False, d2)
         | (True, d2) \<Rightarrow> visit_all visitor ts d2))"

subsection \<open>The walk follows the tree\<close>

abbreviation conf :: "nat \<Rightarrow> nat list \<Rightarrow> nat list \<Rightarrow> 'd \<Rightarrow> 'd walk" where
  "conf l ts cs d \<equiv> \<lparr>w_leader = l, w_threads = ts, w_children = cs, w_data = d\<rparr>"

definition position :: "'x kern \<Rightarrow> nat \<Rightarrow> nat list \<Rightarrow> nat list \<Rightarrow> bool" where
  "position k l ts cs \<longleftrightarrow>
     (if cs = [] then \<exists>a. threads_of k l = a @ ts else \<exists>a p b. threads_of k l = a @ p # ts \<and> children_of k p = b @ cs)"

lemma after_split: "distinct (xs @ x # ys) \<Longrightarrow> after x (xs @ x # ys) = ys"
  by (simp add: after_def dropWhile_append)

lemma skip_threads:
  assumes "threads_of k l = a @ ts"
  shows "\<exists>ts' cs'. run_loop (walk_step k v topmost) (conf l ts [] d) = run_loop (walk_step k v topmost) (conf l ts' cs' d)
    \<and> concat (map (children_of k) ts) = cs' @ concat (map (children_of k) ts')
    \<and> (cs' = [] \<longrightarrow> ts' = []) \<and> position k l ts' cs'"
  using assms
proof (induction ts arbitrary: a)
  case Nil
  then show ?case by (intro exI [of _ "[]"]) (simp add: position_def)
next
  case (Cons p ts)
  have step: "run_loop (walk_step k v topmost) (conf l (p # ts) [] d) = run_loop (walk_step k v topmost) (conf l ts (children_of k p) d)"
    by (subst run_loop_unfold) (simp add: walk_step_def)
  show ?case
  proof (cases "children_of k p = []")
    case True
    then show ?thesis using Cons.IH [of "a @ [p]"] Cons.prems step by simp
  next
    case False
    then show ?thesis
      using step Cons.prems by (intro exI [of _ ts] exI [of _ "children_of k p"]) (auto simp: position_def)
  qed
qed

lemma reach_child:
  assumes "position k l ts cs" and "c # map root rest = cs @ concat (map (children_of k) ts)"
  obtains ts' cs' where "run_loop (walk_step k v topmost) (conf l ts cs d) = run_loop (walk_step k v topmost) (conf l ts' (c # cs') d)"
    "map root rest = cs' @ concat (map (children_of k) ts')" "position k l ts' (c # cs')"
proof (cases cs)
  case Nil
  with assms(1) obtain a where "threads_of k l = a @ ts" by (auto simp: position_def)
  from skip_threads [OF this, of v topmost d] assms(2) Nil obtain ts' cs' where
    "run_loop (walk_step k v topmost) (conf l ts [] d) = run_loop (walk_step k v topmost) (conf l ts' cs' d)"
    "c # map root rest = cs' @ concat (map (children_of k) ts')" "cs' = [] \<longrightarrow> ts' = []" "position k l ts' cs'" by auto
  then show ?thesis using that Nil by (cases cs') auto
qed (use assms that in auto)

lemma walk_forest:
  assumes "tree_ok k (Node l ss0)" and "set ss \<subseteq> set ss0" and "topmost \<notin> (\<Union>s\<in>set ss. nodes s)"
    and "position k l ts cs" and "map root ss = cs @ concat (map (children_of k) ts)"
  shows "run_loop (walk_step k v topmost) (conf l ts cs d) =
    (case visit_all v ss d of (False, d') \<Rightarrow> Inr d' | (True, d') \<Rightarrow> run_loop (walk_step k v topmost) (conf l [] [] d'))"
  using assms
proof (induction v ss d arbitrary: l ss0 ts cs rule: visit_all.induct)
  case (1 v d)
  then have "cs = []" "concat (map (children_of k) ts) = []" by auto
  moreover obtain a where "threads_of k l = a @ ts" using 1(4) \<open>cs = []\<close> by (auto simp: position_def)
  ultimately obtain ts' cs' where "run_loop (walk_step k v topmost) (conf l ts [] d) = run_loop (walk_step k v topmost) (conf l ts' cs' d)"
    "cs' @ concat (map (children_of k) ts') = []" "cs' = [] \<longrightarrow> ts' = []"
    using skip_threads [of k l a ts v topmost d] by metis
  then show ?case using \<open>cs = []\<close> by simp
next
  case (2 v c ss rest d)
  obtain ts' cs' where go: "run_loop (walk_step k v topmost) (conf l ts cs d) = run_loop (walk_step k v topmost) (conf l ts' (c # cs') d)"
    and rest: "map root rest = cs' @ concat (map (children_of k) ts')" and pos: "position k l ts' (c # cs')"
    using reach_child [OF 2(7), of c rest v topmost d] 2(8) by auto
  obtain a p b where p: "threads_of k l = a @ p # ts'" "children_of k p = b @ c # cs'" using pos by (auto simp: position_def)
  have "p \<in> set (threads_of k l)" "c \<in> set (children_of k p)" by (simp_all add: p)
  then have up: "tsk_real_parent (the (tasks k c)) = p" "tsk_group_leader (the (tasks k p)) = l"
    "after c (children_of k p) = cs'" "after p (threads_of k l) = ts'"
    using 2(4) after_split [of b c cs'] after_split [of a p ts'] by (auto simp: p)
  have pos': "position k l ts' cs'"
    unfolding position_def using p by (metis append.assoc append_Cons append_Nil)
  have sub: "tree_ok k (Node c ss)" "set rest \<subseteq> set ss0" "topmost \<notin> (\<Union>s\<in>set rest. nodes s)" "topmost \<notin> (\<Union>s\<in>set ss. nodes s)" "c \<noteq> topmost"
    using 2(4-6) by auto
  obtain res d1 where v: "v c d = (res, d1)" by fastforce
  consider "res < 0" | "res = 0" | "res > 0" by linarith
  then show ?case
  proof cases
    case 1
    then show ?thesis unfolding go by (subst run_loop_unfold) (simp add: walk_step_def v)
  next
    case z: 2
    have "run_loop (walk_step k v topmost) (conf l ts' (c # cs') d) = run_loop (walk_step k v topmost) (conf l ts' cs' d1)"
      by (subst run_loop_unfold) (simp add: walk_step_def v z)
    then show ?thesis
      using 2(1) [OF v [symmetric] refl _ z 2(4) sub(2,3) pos' rest] by (simp add: go v z)
  next
    case 3
    have down: "run_loop (walk_step k v topmost) (conf l ts' (c # cs') d) = run_loop (walk_step k v topmost) (conf c (threads_of k c) [] d1)"
      by (subst run_loop_unfold) (use 3 in \<open>simp add: walk_step_def v\<close>)
    have upw: "run_loop (walk_step k v topmost) (conf c [] [] d2) = run_loop (walk_step k v topmost) (conf l ts' cs' d2)" for d2
      by (subst run_loop_unfold) (simp add: walk_step_def up sub(5) Let_def)
    have "position k c (threads_of k c) []" "map root ss = [] @ concat (map (children_of k) (threads_of k c))"
      using sub(1) by (auto simp: position_def)
    from 2(2) [OF v [symmetric] refl _ _ sub(1) order_refl sub(4) this] 3
    have inner: "run_loop (walk_step k v topmost) (conf c (threads_of k c) [] d1) =
      (case visit_all v ss d1 of (False, d') \<Rightarrow> Inr d' | (True, d') \<Rightarrow> run_loop (walk_step k v topmost) (conf c [] [] d'))" by simp
    show ?thesis
    proof (cases "visit_all v ss d1")
      case (Pair ok d2)
      show ?thesis
      proof (cases ok)
        case True
        then show ?thesis
          using 2(3) [OF v [symmetric] refl _ _ Pair [symmetric] _ 2(4) sub(2,3) pos' rest] 3 by (simp add: go down inner upw v Pair)
      qed (use 3 Pair in \<open>simp add: go down inner v\<close>)
    qed
  qed
qed

lemma walk_process_tree_visits:
  assumes "tree_ok k (Node l ss)" and "l = tsk_group_leader (the (tasks k t))" and "l \<notin> (\<Union>s\<in>set ss. nodes s)"
  shows "walk_process_tree k t visitor d = Inr (snd (visit_all visitor ss d))"
proof -
  have "position k l (threads_of k l) []" "map root ss = [] @ concat (map (children_of k) (threads_of k l))"
    using assms(1) by (auto simp: position_def)
  note walk = walk_forest [OF assms(1) order_refl assms(3) this, of visitor d]
  have stop: "run_loop (walk_step k visitor l) (conf l [] [] d') = Inr d'" for d'
    by (subst run_loop_unfold) (simp add: walk_step_def)
  show ?thesis
    unfolding walk_process_tree_def Let_def assms(2) [symmetric] walk
    by (cases "visit_all visitor ss d") (auto simp: stop split: bool.splits)
qed

end
