(* ===== verification/Fork_Family.thy ===== *)
theory Fork_Family
  imports Do_Fork Process_Tree
begin

section \<open>The family of processes\<close>

text \<open>
  An abstract view of the tasks: who is whose parent, which tasks form a thread group and which are listed as processes.
  \<open>join\<close> is what a fork does to it, \<open>wf_family\<close> is the invariant that makes it a forest, and a kernel with such a
  family has, below every group leader, the tree that \<open>walk_process_tree\<close> follows.
\<close>

subsection \<open>The abstract family\<close>

record kinship =
  kin_parent :: nat
  kin_leader :: nat
  kin_group :: nat
  kin_leads :: bool
  kin_children :: "nat list"
  kin_number :: int

record family =
  kins :: "nat \<Rightarrow> kinship option"
  groups :: "nat \<Rightarrow> nat list option"
  listed :: "nat list"

definition join :: "nat \<Rightarrow> kinship \<Rightarrow> family \<Rightarrow> family" where
  "join t q F =
     \<lparr>kins = (if kin_leads q then upd (kin_parent q) (\<lambda>r. r\<lparr>kin_children := kin_children r @ [t]\<rparr>) (kins F) else kins F)(t \<mapsto> q),
      groups = (groups F)(kin_group q \<mapsto> thread_list (groups F (kin_group q)) @ [t]),
      listed = (if kin_leads q then listed F @ [t] else listed F)\<rparr>"

text \<open>The threads of a group and the children of a task are those that say so; every process but the first is below another.\<close>

definition group_ok :: "family \<Rightarrow> kinship \<Rightarrow> bool" where
  "group_ok F q \<longleftrightarrow>
     (\<exists>l. kins F (kin_leader q) = Some l \<and> kin_leader l = kin_leader q \<and> kin_group l = kin_group q)
     \<and> (\<exists>ts. groups F (kin_group q) = Some ts \<and> distinct ts \<and> set ts = {u. \<exists>r. kins F u = Some r \<and> kin_leader r = kin_leader q})"

definition children_ok :: "family \<Rightarrow> nat \<Rightarrow> kinship \<Rightarrow> bool" where
  "children_ok F t q \<longleftrightarrow> distinct (kin_children q)
     \<and> set (kin_children q) = {c. c \<noteq> t \<and> (\<exists>r. kins F c = Some r \<and> kin_leads r \<and> kin_parent r = t)}"

definition kin_ok :: "family \<Rightarrow> nat \<Rightarrow> kinship \<Rightarrow> bool" where
  "kin_ok F t q \<longleftrightarrow> kins F (kin_parent q) \<noteq> None \<and> (kin_leads q \<longleftrightarrow> kin_leader q = t) \<and> group_ok F q \<and> children_ok F t q"

definition ranked :: "family \<Rightarrow> (nat \<Rightarrow> nat) \<Rightarrow> bool" where
  "ranked F rank \<longleftrightarrow> (\<forall>t q r. kins F t = Some q \<and> kin_leads q \<and> kin_parent q \<noteq> t \<and> kins F (kin_parent q) = Some r
     \<longrightarrow> rank (kin_leader r) < rank t)"

definition wf_family :: "family \<Rightarrow> bool" where
  "wf_family F \<longleftrightarrow> (\<forall>t q. kins F t = Some q \<longrightarrow> kin_ok F t q)
     \<and> distinct (listed F) \<and> set (listed F) = {t. \<exists>q. kins F t = Some q \<and> kin_leads q \<and> kin_number q \<noteq> 0}
     \<and> (\<exists>rank. ranked F rank)"

subsection \<open>A new member\<close>

text \<open>Who may join: a process with a new thread group, or a thread of an existing one.\<close>

definition may_join :: "family \<Rightarrow> nat \<Rightarrow> kinship \<Rightarrow> bool" where
  "may_join F t q \<longleftrightarrow> kins F t = None \<and> kins F (kin_parent q) \<noteq> None \<and> kin_children q = [] \<and> kin_number q \<noteq> 0
     \<and> (if kin_leads q then kin_leader q = t \<and> groups F (kin_group q) = None
        else \<exists>l. kins F (kin_leader q) = Some l \<and> kin_leader l = kin_leader q \<and> kin_group l = kin_group q)"

lemma join_kins:
  "kins (join t q F) u = (if u = t then Some q else if kin_leads q \<and> u = kin_parent q
     then map_option (\<lambda>r. r\<lparr>kin_children := kin_children r @ [t]\<rparr>) (kins F u) else kins F u)"
  by (simp add: join_def upd_def)

text \<open>The fields that joining does not change in the others.\<close>

lemma join_others:
  assumes "u \<noteq> t"
  shows "map_option kin_parent (kins (join t q F) u) = map_option kin_parent (kins F u)"
    and "map_option kin_leader (kins (join t q F) u) = map_option kin_leader (kins F u)"
    and "map_option kin_group (kins (join t q F) u) = map_option kin_group (kins F u)"
    and "map_option kin_leads (kins (join t q F) u) = map_option kin_leads (kins F u)"
    and "map_option kin_number (kins (join t q F) u) = map_option kin_number (kins F u)"
  using assms by (simp_all add: join_kins option.map_comp comp_def)

lemma join_cases:
  assumes "kins (join t q F) u = Some r"
  obtains "u = t" "r = q"
  | r0 where "u \<noteq> t" "kins F u = Some r0"
      "r = (if kin_leads q \<and> u = kin_parent q then r0\<lparr>kin_children := kin_children r0 @ [t]\<rparr> else r0)"
  using assms by (auto simp: join_kins split: if_splits)

lemma join_leader_iff:
  assumes "kins F t = None"
  shows "(\<exists>r. kins (join t q F) u = Some r \<and> kin_leader r = l) \<longleftrightarrow> u = t \<and> kin_leader q = l \<or> (\<exists>r. kins F u = Some r \<and> kin_leader r = l)"
  using assms join_others(2) [of u t q F] by (cases "u = t") (auto simp: join_kins)

lemma join_child_iff:
  assumes "kins F t = None"
  shows "(\<exists>r. kins (join t q F) c = Some r \<and> kin_leads r \<and> kin_parent r = u)
    \<longleftrightarrow> c = t \<and> kin_leads q \<and> kin_parent q = u \<or> (\<exists>r. kins F c = Some r \<and> kin_leads r \<and> kin_parent r = u)"
  using assms by (cases "c = t") (auto simp: join_kins)

lemma wf_kin: "wf_family F \<Longrightarrow> kins F t = Some q \<Longrightarrow> kin_ok F t q"
  by (simp add: wf_family_def)

lemma same_group:
  assumes "wf_family F" and "kins F t = Some q" and "kins F u = Some r" and "kin_group q = kin_group r"
  shows "kin_leader q = kin_leader r"
proof -
  have "group_ok F q" "group_ok F r" using assms wf_kin by (auto simp: kin_ok_def)
  then have "{u. \<exists>r. kins F u = Some r \<and> kin_leader r = kin_leader q} = {u. \<exists>s. kins F u = Some s \<and> kin_leader s = kin_leader r}"
    using assms(4) by (auto simp: group_ok_def)
  moreover have "t \<in> {u. \<exists>r. kins F u = Some r \<and> kin_leader r = kin_leader q}" using assms(2) by simp
  ultimately have "t \<in> {u. \<exists>s. kins F u = Some s \<and> kin_leader s = kin_leader r}" by simp
  then show ?thesis using assms(2) by simp
qed

lemma group_join_new:
  assumes "wf_family F" and "may_join F t q"
  shows "group_ok (join t q F) q"
proof (cases "kin_leads q")
  case True
  then have q: "kin_leader q = t" "groups F (kin_group q) = None" "kins F t = None" using assms(2) by (auto simp: may_join_def)
  have "\<not> (\<exists>r. kins F u = Some r \<and> kin_leader r = t)" for u
    using wf_kin [OF assms(1), of u] q(3) by (auto simp: kin_ok_def group_ok_def)
  then have "{u. \<exists>r. kins (join t q F) u = Some r \<and> kin_leader r = t} = {t}"
    using q by (auto simp: join_leader_iff)
  then show ?thesis using q by (simp add: group_ok_def join_kins) (simp add: join_def)
next
  case False
  then obtain l where l: "kins F (kin_leader q) = Some l" "kin_leader l = kin_leader q" "kin_group l = kin_group q" and t: "kins F t = None"
    using assms(2) by (auto simp: may_join_def)
  then obtain ts where ts: "groups F (kin_group q) = Some ts" "distinct ts" "set ts = {u. \<exists>r. kins F u = Some r \<and> kin_leader r = kin_leader q}"
    using wf_kin [OF assms(1) l(1)] by (auto simp: kin_ok_def group_ok_def)
  have "t \<notin> set ts" "kin_leader q \<noteq> t" using ts t l by auto
  then show ?thesis
    using ts l t False by (auto simp: group_ok_def join_leader_iff) (auto simp: join_def)
qed

lemma group_join_old:
  assumes "wf_family F" and "may_join F t q" and "kins F u = Some r"
  shows "group_ok (join t q F) r"
proof -
  have t: "kins F t = None" using assms(2) by (simp add: may_join_def)
  obtain l ts where l: "kins F (kin_leader r) = Some l" "kin_leader l = kin_leader r" "kin_group l = kin_group r"
    and ts: "groups F (kin_group r) = Some ts" "distinct ts" "set ts = {u. \<exists>s. kins F u = Some s \<and> kin_leader s = kin_leader r}"
    using wf_kin [OF assms(1,3)] by (auto simp: kin_ok_def group_ok_def)
  have new: "t \<notin> set ts" "kin_leader r \<noteq> t" using ts t l by auto
  have same: "kin_leader q = kin_leader r \<longleftrightarrow> kin_group q = kin_group r"
  proof (cases "kin_leads q")
    case True
    then show ?thesis using assms(2) new ts by (auto simp: may_join_def)
  next
    case False
    then obtain m where m: "kins F (kin_leader q) = Some m" "kin_leader m = kin_leader q" "kin_group m = kin_group q"
      using assms(2) by (auto simp: may_join_def)
    then show ?thesis using same_group [OF assms(1) m(1) assms(3)] l by auto
  qed
  have "{u. \<exists>s. kins (join t q F) u = Some s \<and> kin_leader s = kin_leader r} = (if kin_group q = kin_group r then insert t (set ts) else set ts)"
    using same by (auto simp: join_leader_iff [OF t] ts)
  moreover have "groups (join t q F) (kin_group r) = Some (if kin_group q = kin_group r then ts @ [t] else ts)"
    using ts by (auto simp: join_def)
  moreover have "\<exists>l. kins (join t q F) (kin_leader r) = Some l \<and> kin_leader l = kin_leader r \<and> kin_group l = kin_group r"
    using l new by (auto simp: join_kins)
  ultimately show ?thesis using ts new by (auto simp: group_ok_def)
qed

lemma children_join:
  assumes "kins F t = None" and "kins F u = Some r" and "children_ok F u r" and "u \<noteq> t"
  shows "children_ok (join t q F) u (if kin_leads q \<and> u = kin_parent q then r\<lparr>kin_children := kin_children r @ [t]\<rparr> else r)"
proof -
  have "t \<notin> set (kin_children r)" using assms(1,3) by (auto simp: children_ok_def)
  then show ?thesis
    using assms(3,4) unfolding children_ok_def join_child_iff [OF assms(1)] by auto
qed

lemma ranked_join:
  assumes "wf_family F" and "may_join F t q" and "ranked F rank"
  shows "\<exists>rank'. ranked (join t q F) rank'"
proof -
  have t: "kins F t = None" using assms(2) by (simp add: may_join_def)
  obtain r where r: "kins F (kin_parent q) = Some r" using assms(2) by (auto simp: may_join_def)
  have old: "kin_leader s \<noteq> t" "kin_parent s \<noteq> t" if "kins F u = Some s" for u s
    using wf_kin [OF assms(1) that] t by (auto simp: kin_ok_def group_ok_def)
  have up: "kin_parent q \<noteq> t" "kin_leader r \<noteq> t" using r t old [OF r] by auto
  have "ranked (join t q F) (rank(t := Suc (rank (kin_leader r))))"
    unfolding ranked_def
  proof (intro allI impI, elim conjE)
    fix u s v
    assume u: "kins (join t q F) u = Some s" "kin_leads s" "kin_parent s \<noteq> u" "kins (join t q F) (kin_parent s) = Some v"
    from u(1) show "(rank(t := Suc (rank (kin_leader r)))) (kin_leader v) < (rank(t := Suc (rank (kin_leader r)))) u"
    proof (cases rule: join_cases)
      case 1
      then have "kin_leader v = kin_leader r" using u(4) r up by (auto simp: join_kins split: if_splits)
      then show ?thesis using 1 up by simp
    next
      case (2 s0)
      then have s: "kin_leads s0" "kin_parent s = kin_parent s0" "kin_parent s0 \<noteq> u" "kin_parent s0 \<noteq> t"
        using u old by (auto split: if_splits)
      then obtain v0 where v: "kins F (kin_parent s0) = Some v0" "kin_leader v = kin_leader v0"
        using u(4) by (auto simp: join_kins split: if_splits)
      then show ?thesis using assms(3) 2 s old [OF v(1)] by (auto simp: ranked_def)
    qed
  qed
  then show ?thesis by blast
qed

lemma kin_join:
  assumes "wf_family F" and "may_join F t q" and "kins (join t q F) u = Some r"
  shows "kin_ok (join t q F) u r"
  using assms(3)
proof (cases rule: join_cases)
  case 1
  have "\<not> (\<exists>s. kins F c = Some s \<and> kin_leads s \<and> kin_parent s = t)" for c
    using wf_kin [OF assms(1), of c] assms(2) by (auto simp: kin_ok_def may_join_def)
  then have "children_ok (join t q F) t q"
    using assms(2) by (auto simp: children_ok_def may_join_def join_child_iff)
  then show ?thesis
    using 1 group_join_new [OF assms(1,2)] assms(2) by (auto simp: kin_ok_def may_join_def join_kins)
next
  case (2 r0)
  have ok: "kin_ok F u r0" using wf_kin [OF assms(1)] 2 by simp
  have t: "kins F t = None" using assms(2) by (simp add: may_join_def)
  have "children_ok (join t q F) u r" using children_join [OF t 2(2) _ 2(1), of q] ok 2(3) by (simp add: kin_ok_def)
  moreover have "group_ok (join t q F) r" using group_join_old [OF assms(1,2) 2(2)] 2(3) by (simp add: group_ok_def)
  moreover have "kins (join t q F) (kin_parent r) \<noteq> None" using ok 2(3) by (auto simp: kin_ok_def join_kins)
  ultimately show ?thesis using ok 2(3) by (simp add: kin_ok_def)
qed

theorem wf_join:
  assumes "wf_family F" and "may_join F t q"
  shows "wf_family (join t q F)"
proof -
  have t: "kins F t = None" "kin_number q \<noteq> 0" using assms(2) by (simp_all add: may_join_def)
  have "set (listed (join t q F)) = {u. \<exists>r. kins (join t q F) u = Some r \<and> kin_leads r \<and> kin_number r \<noteq> 0}"
  proof (intro set_eqI iffI)
    fix u
    note F = assms(1) [unfolded wf_family_def] and others = join_others(4,5) [of u t q F]
    show "u \<in> {u. \<exists>r. kins (join t q F) u = Some r \<and> kin_leads r \<and> kin_number r \<noteq> 0}" if "u \<in> set (listed (join t q F))"
      using that F t by (cases "u = t") (auto simp: join_kins, auto simp: join_def split: if_splits)
    show "u \<in> set (listed (join t q F))" if "u \<in> {u. \<exists>r. kins (join t q F) u = Some r \<and> kin_leads r \<and> kin_number r \<noteq> 0}"
      using that F t by (cases "u = t") (auto simp: join_kins split: if_splits, auto simp: join_def split: if_splits)
  qed
  moreover have "distinct (listed (join t q F))" using assms(1) t by (auto simp: wf_family_def join_def)
  moreover obtain rank where "ranked F rank" using assms(1) by (auto simp: wf_family_def)
  ultimately show ?thesis
    unfolding wf_family_def [of "join t q F"] using kin_join [OF assms] ranked_join [OF assms] by blast
qed

subsection \<open>The family of a kernel\<close>

definition kin :: "task_struct \<Rightarrow> kinship" where
  "kin p = \<lparr>kin_parent = tsk_real_parent p, kin_leader = tsk_group_leader p, kin_group = tsk_signal p,
     kin_leads = 0 \<le> tsk_exit_signal p, kin_children = tsk_children p, kin_number = tsk_pid p\<rparr>"

definition family_of :: "'x kern \<Rightarrow> family" where
  "family_of k = \<lparr>kins = \<lambda>t. map_option kin (tasks k t), groups = \<lambda>a. map_option thread_head (signals k a), listed = task_list k\<rparr>"

lemma family_of_sels [simp]:
  "kins (family_of k) t = map_option kin (tasks k t)" "groups (family_of k) a = map_option thread_head (signals k a)"
  "listed (family_of k) = task_list k"
  by (simp_all add: family_of_def)

lemma kin_sels [simp]:
  "kin_parent (kin p) = tsk_real_parent p" "kin_leader (kin p) = tsk_group_leader p" "kin_group (kin p) = tsk_signal p"
  "kin_leads (kin p) \<longleftrightarrow> 0 \<le> tsk_exit_signal p" "kin_children (kin p) = tsk_children p" "kin_number (kin p) = tsk_pid p"
  by (simp_all add: kin_def)

lemma kin_updates [simp]:
  "kin (p\<lparr>tsk_flags := f\<rparr>) = kin p" "kin (p\<lparr>tsk_children := cs\<rparr>) = (kin p)\<lparr>kin_children := cs\<rparr>"
  by (simp_all add: kin_def)

text \<open>A fork refines \<open>join\<close>, and what it makes may join.\<close>

lemma fork_joins:
  assumes "new_child fl t p k k'"
  shows "family_of k' = join t (kin p) (family_of k)"
proof -
  note link = assms [unfolded new_child_def child_linked_def, THEN conjunct1] and id = assms [unfolded new_child_def child_identity_def]
  have leads: "has fl CLONE_THREAD \<longleftrightarrow> \<not> 0 \<le> tsk_exit_signal p" using id by blast
  have clear: "map_option kin (tasks (clear_nproc k) u) = map_option kin (tasks k u)" for u
    by (simp add: clear_nproc_def upd_def option.map_comp comp_def)
  have "map_option kin (tasks k' u) = kins (join t (kin p) (family_of k)) u" for u
  proof (cases "u = t")
    case False
    then have "map_option kin (tasks k' u) =
        (if \<not> has fl CLONE_THREAD \<and> u = tsk_real_parent p then map_option (\<lambda>r. r\<lparr>kin_children := kin_children r @ [t]\<rparr>) (map_option kin (tasks (clear_nproc k) u))
         else map_option kin (tasks (clear_nproc k) u))"
      using link by (simp add: option.map_comp comp_def)
    then show ?thesis using False leads by (simp only: clear join_kins) simp
  qed (use link in \<open>simp add: join_kins\<close>)
  moreover have "map_option thread_head (signals k' a) = groups (join t (kin p) (family_of k)) a" for a
    using link by (simp add: thread_joins_def join_def)
  ultimately show ?thesis
    using link leads by (intro family.equality) (auto simp: join_def)
qed

lemma fork_may_join:
  assumes "new_child fl t p k k'" and "wf_family (family_of k)" and "tasks k (current k) = Some c"
  shows "may_join (family_of k) t (kin p)"
proof -
  have fresh: "tasks k t = None" and pid: "0 < tsk_pid p" "tsk_children p = []" and leads: "0 \<le> tsk_exit_signal p \<longleftrightarrow> \<not> has fl CLONE_THREAD"
    and par: "tsk_real_parent p = (if has fl (CLONE_PARENT OR CLONE_THREAD) then tsk_real_parent c else current k)"
    and grp: "if has fl CLONE_THREAD then tsk_group_leader p = tsk_group_leader c \<and> tsk_signal p = tsk_signal c
      else tsk_group_leader p = t \<and> signals k (tsk_signal p) = None"
    using assms(1,3) by (auto simp: new_child_def child_linked_def child_identity_def child_shares_def shared_or_new_def)
  have c: "kin_ok (family_of k) (current k) (kin c)" using wf_kin [OF assms(2)] assms(3) by simp
  then have "tasks k (tsk_real_parent p) \<noteq> None" using par assms(3) by (auto simp: kin_ok_def)
  moreover have "\<exists>l. tasks k (tsk_group_leader c) = Some l \<and> tsk_group_leader l = tsk_group_leader c \<and> tsk_signal l = tsk_signal c"
    using c by (auto simp: kin_ok_def group_ok_def)
  ultimately show ?thesis using fresh pid leads grp by (auto simp: may_join_def split: if_splits)
qed

end
