(* ===== verification/Fork_Tree.thy ===== *)
theory Fork_Tree
  imports Fork_Family
begin

section \<open>The tree below a process\<close>

text \<open>
  In a kernel whose family is well formed, the processes below a group leader are a tree, and the walk without recursion
  of \<open>walk_process_tree\<close> meets every one of them exactly once.
\<close>

subsection \<open>The order of processes\<close>

text \<open>A process and the one whose thread is its parent.\<close>

definition child_of :: "'x kern \<Rightarrow> (nat \<times> nat) set" where
  "child_of k = {(c, l). \<exists>q r. tasks k c = Some q \<and> tsk_group_leader q = c \<and> tsk_real_parent q \<noteq> c
     \<and> tasks k (tsk_real_parent q) = Some r \<and> tsk_group_leader r = l}"

definition below :: "'x kern \<Rightarrow> nat \<Rightarrow> nat set" where
  "below k l = {c. (c, l) \<in> (child_of k)\<^sup>+}"

lemma child_of_single: "single_valued (child_of k)"
  by (auto simp: single_valued_def child_of_def)

lemma rank_below:
  assumes "wf_family (family_of k)" and "ranked (family_of k) rank"
  shows "(c, l) \<in> (child_of k)\<^sup>* \<Longrightarrow> rank l \<le> rank c" and "(c, l) \<in> (child_of k)\<^sup>+ \<Longrightarrow> rank l < rank c"
proof -
  have step: "rank l < rank c" if "(c, l) \<in> child_of k" for c l
  proof -
    from that obtain q r where q: "tasks k c = Some q" "tsk_group_leader q = c" "tsk_real_parent q \<noteq> c"
      "tasks k (tsk_real_parent q) = Some r" "tsk_group_leader r = l" by (auto simp: child_of_def)
    moreover have "0 \<le> tsk_exit_signal q" using wf_kin [OF assms(1), of c "kin q"] q by (simp add: kin_ok_def)
    ultimately show ?thesis using assms(2) [unfolded ranked_def, rule_format, of c "kin q" "kin r"] by simp
  qed
  show "rank l < rank c" if "(c, l) \<in> (child_of k)\<^sup>+" using that
    by (induction rule: trancl_induct) (auto dest: step)
  then show "rank l \<le> rank c" if "(c, l) \<in> (child_of k)\<^sup>*" using that by (auto simp: rtrancl_eq_or_trancl)
qed

text \<open>Two children of the same process have no common descendant.\<close>

lemma below_disjoint:
  assumes wf: "wf_family (family_of k)" and c: "(c1, l) \<in> child_of k" "(c2, l) \<in> child_of k"
    and n: "(n, c1) \<in> (child_of k)\<^sup>*" "(n, c2) \<in> (child_of k)\<^sup>*"
  shows "c1 = c2"
proof (rule ccontr)
  assume ne: "c1 \<noteq> c2"
  obtain rank where rank: "ranked (family_of k) rank" using wf by (auto simp: wf_family_def)
  have clash: False if "(a, b) \<in> (child_of k)\<^sup>*" "a \<noteq> b" "(a, l) \<in> child_of k" "(b, l) \<in> child_of k" for a b
  proof -
    from that(1,2) obtain m where "(a, m) \<in> child_of k" "(m, b) \<in> (child_of k)\<^sup>*" by (meson converse_rtranclE)
    moreover from this that(3) have "m = l" using child_of_single by (auto simp: single_valued_def)
    ultimately have "rank b \<le> rank l" "rank l < rank b"
      using rank_below(1) [OF wf rank] rank_below(2) [OF wf rank] that(4) by blast+
    then show False by simp
  qed
  have "(c1, c2) \<in> (child_of k)\<^sup>* \<or> (c2, c1) \<in> (child_of k)\<^sup>*"
    using single_valued_confluent [OF child_of_single n] .
  then show False using clash c ne by blast
qed

subsection \<open>Children and threads\<close>

definition child_list :: "'x kern \<Rightarrow> nat \<Rightarrow> nat list" where
  "child_list k l = concat (map (children_of k) (threads_of k l))"

lemma threads_facts:
  assumes wf: "wf_family (family_of k)" and l: "tasks k l = Some q" "tsk_group_leader q = l"
  shows "distinct (threads_of k l)" and "p \<in> set (threads_of k l) \<longleftrightarrow> (\<exists>r. tasks k p = Some r \<and> tsk_group_leader r = l)"
  using wf_kin [OF wf, of l "kin q"] l by (auto simp: kin_ok_def group_ok_def threads_of_def)

lemma children_facts:
  assumes wf: "wf_family (family_of k)" and p: "tasks k p = Some r"
  shows "distinct (children_of k p)"
    and "c \<in> set (children_of k p) \<longleftrightarrow> c \<noteq> p \<and> (\<exists>q. tasks k c = Some q \<and> tsk_group_leader q = c \<and> tsk_real_parent q = p)"
proof -
  have ok: "kin_ok (family_of k) p (kin r)" using wf_kin [OF wf] p by simp
  then show "distinct (children_of k p)" using p by (simp add: kin_ok_def children_ok_def children_of_def)
  have "0 \<le> tsk_exit_signal q \<longleftrightarrow> tsk_group_leader q = c" if "tasks k c = Some q" for q
    using wf_kin [OF wf, of c "kin q"] that by (simp add: kin_ok_def)
  then show "c \<in> set (children_of k p) \<longleftrightarrow> c \<noteq> p \<and> (\<exists>q. tasks k c = Some q \<and> tsk_group_leader q = c \<and> tsk_real_parent q = p)"
    using ok p by (auto simp: kin_ok_def children_ok_def children_of_def)
qed

lemma child_list_facts:
  assumes wf: "wf_family (family_of k)" and l: "tasks k l = Some q" "tsk_group_leader q = l"
  shows "set (child_list k l) = {c. (c, l) \<in> child_of k}" and "distinct (child_list k l)"
proof -
  note thr = threads_facts [OF wf l] and ch = children_facts [OF wf]
  show "set (child_list k l) = {c. (c, l) \<in> child_of k}"
  proof (intro set_eqI iffI)
    fix c
    assume "c \<in> set (child_list k l)"
    then obtain p where "p \<in> set (threads_of k l)" and c: "c \<in> set (children_of k p)" by (auto simp: child_list_def)
    then obtain r where r: "tasks k p = Some r" "tsk_group_leader r = l" using thr(2) by blast
    from c [unfolded ch(2) [OF r(1)]] r show "c \<in> {c. (c, l) \<in> child_of k}" by (auto simp: child_of_def)
  next
    fix c
    assume "c \<in> {c. (c, l) \<in> child_of k}"
    then obtain r s where c: "tasks k c = Some s" "tsk_group_leader s = c" "tsk_real_parent s \<noteq> c"
      and r: "tasks k (tsk_real_parent s) = Some r" "tsk_group_leader r = l" by (auto simp: child_of_def)
    have "c \<in> set (children_of k (tsk_real_parent s))" unfolding ch(2) [OF r(1)] using c by auto
    moreover have "tsk_real_parent s \<in> set (threads_of k l)" unfolding thr(2) using r by blast
    ultimately show "c \<in> set (child_list k l)" by (auto simp: child_list_def)
  qed
  have parent: "tsk_real_parent (the (tasks k c)) = p" if p: "p \<in> set (threads_of k l)" and c: "c \<in> set (children_of k p)" for p c
  proof -
    obtain r where r: "tasks k p = Some r" using p [unfolded thr(2)] by blast
    show ?thesis using c [unfolded ch(2) [OF r]] by auto
  qed
  have "distinct (concat (map (children_of k) ts))" if "distinct ts" "set ts \<subseteq> set (threads_of k l)" for ts
    using that
  proof (induction ts)
    case (Cons p ts)
    then have "set (children_of k p) \<inter> set (concat (map (children_of k) ts)) = {}"
      using parent by auto (metis subsetD)
    moreover obtain r where "tasks k p = Some r" using Cons.prems(2) thr(2) [of p] by auto
    ultimately show ?case using Cons ch(1) by simp
  qed simp
  then show "distinct (child_list k l)" using thr(1) by (simp add: child_list_def)
qed

subsection \<open>Growing the tree\<close>

fun preorder :: "ptree \<Rightarrow> nat list" where
  "preorder (Node l ss) = l # concat (map preorder ss)"

lemma preorder_nodes: "set (preorder s) = nodes s"
  by (induction s) simp

definition grown :: "'x kern \<Rightarrow> nat \<Rightarrow> ptree \<Rightarrow> bool" where
  "grown k l s \<longleftrightarrow> root s = l \<and> tree_ok k s \<and> distinct (preorder s) \<and> nodes s = {c. (c, l) \<in> (child_of k)\<^sup>*}"

text \<open>A tree for each child gives the tree of the process.\<close>

lemma grow:
  assumes wf: "wf_family (family_of k)" and l: "tasks k l = Some q" "tsk_group_leader q = l"
    and sub: "\<And>c. c \<in> set (child_list k l) \<Longrightarrow> grown k c (f c)"
  shows "grown k l (Node l (map f (child_list k l)))"
proof -
  let ?cs = "child_list k l" and ?R = "child_of k"
  note cs = child_list_facts [OF wf l] and thr = threads_facts [OF wf l]
  have "(\<Union>s\<in>set (map f ?cs). nodes s) = (\<Union>c\<in>set ?cs. {n. (n, c) \<in> ?R\<^sup>*})" using sub by (simp add: grown_def)
  also have "\<dots> = {n. (n, l) \<in> ?R\<^sup>+}" using cs(1) by (auto simp: trancl_unfold_right)
  finally have un: "(\<Union>s\<in>set (map f ?cs). nodes s) = below k l" by (simp add: below_def)
  obtain rank where "ranked (family_of k) rank" using wf by (auto simp: wf_family_def)
  then have "l \<notin> below k l" using rank_below(2) [OF wf, of rank l l] by (auto simp: below_def)
  moreover have "distinct (concat (map (preorder \<circ> f) ds))" if "distinct ds" "set ds \<subseteq> set ?cs" for ds
    using that
  proof (induction ds)
    case (Cons d ds)
    have "set (preorder (f d)) \<inter> set (concat (map (preorder \<circ> f) ds)) = {}"
    proof (rule ccontr)
      assume "\<not> ?thesis"
      then obtain e n where "e \<in> set ds" "n \<in> nodes (f d)" "n \<in> nodes (f e)" by (auto simp: preorder_nodes)
      then have "d = e" using below_disjoint [OF wf, of d l e n] sub [of d] sub [of e] Cons.prems cs(1) by (auto simp: grown_def)
      then show False using Cons.prems \<open>e \<in> set ds\<close> by simp
    qed
    then show ?case using Cons sub [of d] by (simp add: grown_def)
  qed simp
  moreover have "set (concat (map (preorder \<circ> f) ?cs)) = below k l" using un by (auto simp: preorder_nodes)
  ultimately have "distinct (preorder (Node l (map f ?cs)))" using cs(2) by simp
  moreover have "tree_ok k (Node l (map f ?cs))"
  proof -
    have "map root (map f ?cs) = ?cs" using sub by (simp add: grown_def map_idI)
    moreover have "tsk_group_leader (the (tasks k p)) = l \<and> distinct (children_of k p)
        \<and> (\<forall>c\<in>set (children_of k p). tsk_real_parent (the (tasks k c)) = p)" if "p \<in> set (threads_of k l)" for p
      using that children_facts [OF wf, of p] by (auto simp: thr(2))
    ultimately show ?thesis using thr(1) sub by (auto simp: child_list_def grown_def)
  qed
  moreover have "nodes (Node l (map f ?cs)) = {c. (c, l) \<in> ?R\<^sup>*}" using un by (auto simp: below_def rtrancl_eq_or_trancl)
  ultimately show ?thesis by (simp add: grown_def)
qed

lemma tree_exists:
  assumes wf: "wf_family (family_of k)" and fin: "finite (dom (tasks k))" and "tasks k l = Some q" and "tsk_group_leader q = l"
  shows "\<exists>s. grown k l s"
proof -
  obtain rank where rank: "ranked (family_of k) rank" using wf by (auto simp: wf_family_def)
  define top where "top = Max (rank ` dom (tasks k))"
  have le: "rank u \<le> top" if "tasks k u = Some r" for u r
    unfolding top_def using that fin by (intro Max_ge) auto
  show ?thesis using assms(3,4)
  proof (induction "top - rank l" arbitrary: l q rule: less_induct)
    case less
    have "\<exists>s. grown k c s" if "c \<in> set (child_list k l)" for c
    proof -
      have "(c, l) \<in> child_of k" using that child_list_facts(1) [OF wf less.prems] by simp
      then obtain r where r: "tasks k c = Some r" "tsk_group_leader r = c" by (auto simp: child_of_def)
      moreover have "rank l < rank c" using rank_below(2) [OF wf rank] \<open>(c, l) \<in> child_of k\<close> by blast
      moreover have "rank c \<le> top" using le r(1) .
      ultimately show ?thesis using less.hyps [OF _ r] by (simp add: diff_less_mono2)
    qed
    then obtain f where "\<And>c. c \<in> set (child_list k l) \<Longrightarrow> grown k c (f c)" by metis
    then show ?case using grow [OF wf less.prems] by blast
  qed
qed

subsection \<open>The walk\<close>

lemma visit_all_collects: "visit_all (\<lambda>c d. (1, d @ [c])) ss d = (True, d @ concat (map preorder ss))"
proof -
  have "visit_all v ss d = (True, d @ concat (map preorder ss))" if "v = (\<lambda>c d. (1, d @ [c]))" for v
    using that by (induction v ss d rule: visit_all.induct) simp_all
  then show ?thesis by simp
qed

lemma walk_below:
  assumes wf: "wf_family (family_of k)" and fin: "finite (dom (tasks k))" and t: "tasks k t = Some p"
  obtains ss where "tree_ok k (Node (tsk_group_leader p) ss)" "distinct (concat (map preorder ss))" "set (concat (map preorder ss)) = below k (tsk_group_leader p)"
    "\<And>visitor d. walk_process_tree k t visitor d = Inr (snd (visit_all visitor ss d))"
proof -
  let ?l = "tsk_group_leader p"
  have "kin_ok (family_of k) t (kin p)" using wf_kin [OF wf] t by simp
  then obtain l where l: "tasks k ?l = Some l" "tsk_group_leader l = ?l" by (auto simp: kin_ok_def group_ok_def)
  obtain s where s: "grown k ?l s" using tree_exists [OF wf fin l] by blast
  obtain ss where ss: "s = Node ?l ss" using s by (cases s) (simp add: grown_def)
  have root: "?l \<notin> (\<Union>s\<in>set ss. nodes s)" using s by (auto simp: ss grown_def preorder_nodes)
  have "set (concat (map preorder ss)) = (\<Union>s\<in>set ss. nodes s)" by (simp add: preorder_nodes)
  also have "\<dots> = below k ?l"
  proof -
    have "insert ?l (\<Union>s\<in>set ss. nodes s) = insert ?l (below k ?l)" using s by (auto simp: ss grown_def below_def rtrancl_eq_or_trancl)
    moreover obtain rank where "ranked (family_of k) rank" using wf by (auto simp: wf_family_def)
    then have "?l \<notin> below k ?l" using rank_below(2) [OF wf, of rank ?l ?l] by (auto simp: below_def)
    ultimately show ?thesis using root by (meson insert_ident)
  qed
  finally have set: "set (concat (map preorder ss)) = below k ?l" .
  have tree: "tree_ok k (Node ?l ss)" "distinct (concat (map preorder ss))" using s by (simp_all add: ss grown_def)
  have "?l = tsk_group_leader (the (tasks k t))" using t by simp
  from that [OF tree set walk_process_tree_visits [OF tree(1) this root]] show ?thesis .
qed

end
