(* ===== verification/Unshare.thy ===== *)
theory Unshare
  imports Fork_Child
begin

section \<open>Unsharing (Assignment2-1, fork.c)\<close>

text \<open>
  \<open>unshare\<close> gives the calling task its own file system structure, file table, credentials and
  namespaces.  It either leaves the kernel as it was or moves the task's references to new objects.
\<close>

record 'x unshare_env =
  copies :: "'x fork_env"
  group_empty :: bool
  single_threaded :: bool
  unshare_userns :: "64 word \<Rightarrow> 'x \<Rightarrow> (int + nat option) \<times> 'x"
  unshare_nsproxy :: "64 word \<Rightarrow> nat option \<Rightarrow> nat option \<Rightarrow> 'x \<Rightarrow> (int + nat option) \<times> 'x"
  put_cred :: "nat \<Rightarrow> 'x \<Rightarrow> 'x"
  commit_creds :: "nat \<Rightarrow> 'x \<Rightarrow> 'x"
  switch_namespaces :: "nat \<Rightarrow> 'x \<Rightarrow> 'x"
  exit_sem :: "'x \<Rightarrow> 'x"
  exit_shm :: "'x \<Rightarrow> 'x"
  shm_init_task :: "'x \<Rightarrow> 'x"
  perf_event_namespaces :: "'x \<Rightarrow> 'x"

definition check_unshare_flags :: "'x unshare_env \<Rightarrow> 64 word \<Rightarrow> 'x kern \<Rightarrow> int" where
  "check_unshare_flags env fl k =
     (if has fl (NOT (CLONE_THREAD OR CLONE_FS OR CLONE_NEWNS OR CLONE_SIGHAND OR CLONE_VM OR CLONE_FILES OR
          CLONE_SYSVSEM OR CLONE_NEWUTS OR CLONE_NEWIPC OR CLONE_NEWNET OR CLONE_NEWUSER OR CLONE_NEWPID OR CLONE_NEWCGROUP))
      then - EINVAL
      else if has fl (CLONE_THREAD OR CLONE_SIGHAND OR CLONE_VM) \<and> \<not> group_empty env then - EINVAL
      else if has fl (CLONE_SIGHAND OR CLONE_VM) \<and> sighand_count (the (sighands k (tsk_sighand (cur k)))) > 1 then - EINVAL
      else if has fl CLONE_VM \<and> \<not> single_threaded env then - EINVAL
      else 0)"

definition unshare_fs :: "'x unshare_env \<Rightarrow> 64 word \<Rightarrow> 'x kern \<Rightarrow> (int + nat option) \<times> 'x kern" where
  "unshare_fs env fl k =
     (case tsk_fs (cur k) of
        None \<Rightarrow> (Inr None, k)
      | Some a \<Rightarrow>
          if \<not> has fl CLONE_FS then (Inr None, k)
          else if fs_users (the (fss k a)) = 1 then (Inr None, k)
          else
            (case copy_fs_struct (copies env) (the (fss k a)) of
               None \<Rightarrow> (Inl (- ENOMEM), k)
             | Some (b, f) \<Rightarrow> (Inr (Some b), k\<lparr>fss := (fss k)(b \<mapsto> f)\<rparr>)))"

definition unshare_fd :: "'x unshare_env \<Rightarrow> 64 word \<Rightarrow> 'x kern \<Rightarrow> (int + nat option) \<times> 'x kern" where
  "unshare_fd env fl k =
     (case tsk_files (cur k) of
        None \<Rightarrow> (Inr None, k)
      | Some a \<Rightarrow>
          if has fl CLONE_FILES \<and> files_count (the (filess k a)) > 1 then
            (case dup_fd (copies env) (the (filess k a)) of
               Inl err \<Rightarrow> (Inl err, k)
             | Inr (b, f) \<Rightarrow> (Inr (Some b), k\<lparr>filess := (filess k)(b \<mapsto> f)\<rparr>))
          else (Inr None, k))"

text \<open>The flags that others imply.\<close>

definition implied_flags :: "64 word \<Rightarrow> 64 word" where
  "implied_flags fl =
     (let fl = (if has fl CLONE_NEWUSER then fl OR (CLONE_THREAD OR CLONE_FS) else fl);
          fl = (if has fl CLONE_VM then fl OR CLONE_SIGHAND else fl);
          fl = (if has fl CLONE_SIGHAND then fl OR CLONE_THREAD else fl) in
      if has fl CLONE_NEWNS then fl OR CLONE_FS else fl)"

definition free_fs_opt :: "nat option \<Rightarrow> 'x kern \<Rightarrow> 'x kern" where
  "free_fs_opt r k = (case r of None \<Rightarrow> k | Some a \<Rightarrow> k\<lparr>fss := (fss k)(a := None)\<rparr>)"

definition put_files_opt :: "'x unshare_env \<Rightarrow> nat option \<Rightarrow> 'x kern \<Rightarrow> 'x kern" where
  "put_files_opt env r k = (case r of None \<Rightarrow> k | Some a \<Rightarrow> k\<lparr>filess := put_files (copies env) a (filess k)\<rparr>)"

definition put_cred_opt :: "'x unshare_env \<Rightarrow> nat option \<Rightarrow> 'x kern \<Rightarrow> 'x kern" where
  "put_cred_opt env r k = (case r of None \<Rightarrow> k | Some a \<Rightarrow> k\<lparr>ext := put_cred env a (ext k)\<rparr>)"

text \<open>Installing a new file system structure: what remains to be freed is the old one if it had no other user.\<close>

definition install_fs :: "nat option \<Rightarrow> 'x kern \<Rightarrow> nat option \<times> 'x kern" where
  "install_fs new_fs k =
     (case new_fs of
        None \<Rightarrow> (None, k)
      | Some b \<Rightarrow>
          let a = the (tsk_fs (cur k));
              h = upd a (\<lambda>f. f\<lparr>fs_users := fs_users f - 1\<rparr>) (fss k);
              left = fs_users (the (h a)) in
          (if left \<noteq> 0 then None else Some a,
           k\<lparr>fss := h, tasks := upd (current k) (\<lambda>c. c\<lparr>tsk_fs := Some b\<rparr>) (tasks k)\<rparr>))"

definition install_fd :: "nat option \<Rightarrow> 'x kern \<Rightarrow> nat option \<times> 'x kern" where
  "install_fd new_fd k =
     (case new_fd of
        None \<Rightarrow> (None, k)
      | Some b \<Rightarrow> (tsk_files (cur k), k\<lparr>tasks := upd (current k) (\<lambda>c. c\<lparr>tsk_files := Some b\<rparr>) (tasks k)\<rparr>))"

definition leave_namespaces :: "'x unshare_env \<Rightarrow> 64 word \<Rightarrow> nat option \<Rightarrow> 'x \<Rightarrow> 'x" where
  "leave_namespaces env fl new_nsproxy y =
     (let y = (if has fl (CLONE_NEWIPC OR CLONE_SYSVSEM) then exit_sem env y else y);
          y = (if has fl CLONE_NEWIPC then shm_init_task env (exit_shm env y) else y) in
      case new_nsproxy of None \<Rightarrow> y | Some n \<Rightarrow> switch_namespaces env n y)"

definition install_unshared ::
    "'x unshare_env \<Rightarrow> 64 word \<Rightarrow> nat option \<Rightarrow> nat option \<Rightarrow> nat option \<Rightarrow> nat option \<Rightarrow> 'x kern
      \<Rightarrow> nat option \<times> nat option \<times> 'x kern" where
  "install_unshared env fl new_fs new_fd ucred new_nsproxy k =
     (let do_sysvsem = has fl (CLONE_NEWIPC OR CLONE_SYSVSEM) in
      if new_fs \<noteq> None \<or> new_fd \<noteq> None \<or> do_sysvsem \<or> ucred \<noteq> None \<or> new_nsproxy \<noteq> None then
        let (old_fs, k1) = install_fs new_fs (k\<lparr>ext := leave_namespaces env fl new_nsproxy (ext k)\<rparr>);
            (old_fd, k2) = install_fd new_fd k1 in
        (old_fs, old_fd, case ucred of None \<Rightarrow> k2 | Some c \<Rightarrow> k2\<lparr>ext := commit_creds env c (ext k2)\<rparr>)
      else (new_fs, new_fd, k))"

definition ksys_unshare :: "'x unshare_env \<Rightarrow> 64 word \<Rightarrow> 'x kern \<Rightarrow> int \<times> 'x kern" where
  "ksys_unshare env unshare_flags k =
     (let fl = implied_flags unshare_flags; err = check_unshare_flags env fl k in
      if err \<noteq> 0 then (err, k)
      else
        (case unshare_fs env fl k of
           (Inl e, k1) \<Rightarrow> (e, k1)
         | (Inr new_fs, k1) \<Rightarrow>
             (case unshare_fd env fl k1 of
                (Inl e, k2) \<Rightarrow> (e, free_fs_opt new_fs k2)
              | (Inr new_fd, k2) \<Rightarrow>
                  (case unshare_userns env fl (ext k2) of
                     (Inl e, x) \<Rightarrow> (e, free_fs_opt new_fs (put_files_opt env new_fd (k2\<lparr>ext := x\<rparr>)))
                   | (Inr ucred, x) \<Rightarrow>
                       (case unshare_nsproxy env fl ucred new_fs x of
                          (Inl e, y) \<Rightarrow>
                            (e, free_fs_opt new_fs (put_files_opt env new_fd (put_cred_opt env ucred (k2\<lparr>ext := y\<rparr>))))
                        | (Inr new_nsproxy, y) \<Rightarrow>
                            let (old_fs, old_fd, k3) = install_unshared env fl new_fs new_fd ucred new_nsproxy (k2\<lparr>ext := y\<rparr>) in
                            (0, free_fs_opt old_fs (put_files_opt env old_fd (k3\<lparr>ext := perf_event_namespaces env (ext k3)\<rparr>))))))))"

definition unshare_files :: "'x unshare_env \<Rightarrow> 'x kern \<Rightarrow> int \<times> nat option \<times> 'x kern" where
  "unshare_files env k =
     (case unshare_fd env CLONE_FILES k of
        (Inl e, k1) \<Rightarrow> (e, None, k1)
      | (Inr None, k1) \<Rightarrow> (0, None, k1)
      | (Inr (Some b), k1) \<Rightarrow>
          (0, tsk_files (cur k), k1\<lparr>tasks := upd (current k) (\<lambda>c. c\<lparr>tsk_files := Some b\<rparr>) (tasks k1)\<rparr>))"

subsection \<open>References move\<close>

text \<open>What \<open>unshare\<close> relies on, and the state it starts from.\<close>

definition unshare_env_ok :: "'x unshare_env \<Rightarrow> bool" where
  "unshare_env_ok env \<longleftrightarrow> put_files_ok (copies env)
     \<and> (\<forall>fl x e x'. unshare_userns env fl x = (Inl e, x') \<longrightarrow> x' = x \<and> e \<noteq> 0)
     \<and> (\<forall>fl x x'. unshare_userns env fl x = (Inr None, x') \<longrightarrow> x' = x)
     \<and> (\<forall>fl x c x'. unshare_userns env fl x = (Inr (Some c), x') \<longrightarrow> put_cred env c x' = x)
     \<and> (\<forall>fl c f x e x'. unshare_nsproxy env fl c f x = (Inl e, x') \<longrightarrow> x' = x \<and> e \<noteq> 0)"

lemma unshare_laws:
  assumes "unshare_env_ok env"
  shows "put_files_ok (copies env)"
    and "unshare_userns env fl x = (Inl e, x') \<Longrightarrow> x' = x \<and> e \<noteq> 0"
    and "unshare_userns env fl x = (Inr None, x') \<Longrightarrow> x' = x"
    and "unshare_userns env fl x = (Inr (Some c), x') \<Longrightarrow> put_cred env c x' = x"
    and "unshare_nsproxy env fl d f x = (Inl e, x') \<Longrightarrow> x' = x \<and> e \<noteq> 0"
  using assms by (auto simp only: unshare_env_ok_def)

definition unshare_ready :: "'x unshare_env \<Rightarrow> 'x kern \<Rightarrow> bool" where
  "unshare_ready env k \<longleftrightarrow> tasks k (current k) \<noteq> None \<and> files_ready (copies env) k \<and> fs_ready (copies env) k
     \<and> (\<forall>f e. dup_fd (copies env) f = Inl e \<longrightarrow> e \<noteq> 0)"

lemma unshare_fs_effect:
  assumes "unshare_fs env fl k = (r, k1)" and "fs_ready (copies env) k"
  shows "(\<exists>e. r = Inl e \<and> e \<noteq> 0 \<and> k1 = k) \<or> r = Inr None \<and> k1 = k \<and> (has fl CLONE_FS \<longrightarrow> fs_users (the (fss k (the (tsk_fs (cur k))))) = 1)
    \<or> (\<exists>b f. r = Inr (Some b) \<and> k1 = k\<lparr>fss := (fss k)(b \<mapsto> f)\<rparr> \<and> fss k b = None \<and> fs_users f = 1
         \<and> has fl CLONE_FS \<and> fs_users (the (fss k (the (tsk_fs (cur k))))) > 1)"
  using assms by (auto simp: unshare_fs_def fs_ready_def errno_defs split: option.splits if_splits)

lemma unshare_fd_effect:
  assumes "unshare_fd env fl k = (r, k1)" and "files_ready (copies env) k" and "\<forall>f e. dup_fd (copies env) f = Inl e \<longrightarrow> e \<noteq> 0"
  shows "(\<exists>e. r = Inl e \<and> e \<noteq> 0 \<and> k1 = k)
    \<or> r = Inr None \<and> k1 = k \<and> (\<forall>a. has fl CLONE_FILES \<longrightarrow> tsk_files (cur k) = Some a \<longrightarrow> files_count (the (filess k a)) = 1)
    \<or> (\<exists>a b f. r = Inr (Some b) \<and> k1 = k\<lparr>filess := (filess k)(b \<mapsto> f)\<rparr> \<and> filess k b = None \<and> files_count f = 1
         \<and> tsk_files (cur k) = Some a \<and> files_count (the (filess k a)) > 1)"
  using assms unfolding unshare_fd_def files_ready_def
  by (auto split: option.splits if_splits sum.splits)

text \<open>A pointer moves from one object to another, and the counts with it.\<close>

definition moved :: "('a \<Rightarrow> nat) \<Rightarrow> (nat \<Rightarrow> 'a option) \<Rightarrow> (nat \<Rightarrow> 'a option) \<Rightarrow> nat option \<Rightarrow> nat option \<Rightarrow> bool" where
  "moved cnt h h' r r' \<longleftrightarrow> (\<forall>a. count_of cnt (h' a) + (if r = Some a then 1 else 0) = count_of cnt (h a) + (if r' = Some a then 1 else 0))"

lemma moved_same [simp]: "moved cnt h h r r"
  by (simp add: moved_def)

lemma owners_move:
  assumes "finite (dom (tasks k))" and "tasks k t = Some p" and "tasks k' = (tasks k)(t \<mapsto> p')"
  shows "card (owners f k' a) + (if f p = Some a then 1 else 0) = card (owners f k a) + (if f p' = Some a then 1 else 0)"
proof -
  let ?O = "{s. s \<noteq> t \<and> (\<exists>q. tasks k s = Some q \<and> f q = Some a)}"
  have "owners f k a = (if f p = Some a then insert t ?O else ?O)" "owners f k' a = (if f p' = Some a then insert t ?O else ?O)"
    using assms(2,3) by (auto simp: owners_def)
  moreover have "finite ?O" by (rule finite_subset [OF _ assms(1)]) auto
  ultimately show ?thesis by simp
qed

lemma refs_move:
  assumes "finite (dom (tasks k))" and "tasks k t = Some p" and "tasks k' = (tasks k)(t \<mapsto> p')"
    and "\<forall>a. count_of cnt (h a) = card (owners f k a)" and "moved cnt h h' (f p) (f p')"
  shows "\<forall>a. count_of cnt (h' a) = card (owners f k' a)"
proof
  fix a
  show "count_of cnt (h' a) = card (owners f k' a)"
    using owners_move [OF assms(1-3), of f a] assms(4) assms(5) [unfolded moved_def, rule_format, of a] by simp
qed

definition unshared :: "64 word \<Rightarrow> 'x kern \<Rightarrow> 'x kern \<Rightarrow> bool" where
  "unshared fl k k' \<longleftrightarrow> (\<exists>p hs hf r d y. tasks k (current k) = Some p
     \<and> k' = k\<lparr>fss := hs, filess := hf, ext := y, tasks := (tasks k)(current k \<mapsto> p\<lparr>tsk_fs := r, tsk_files := d\<rparr>)\<rparr>
     \<and> (tsk_fs p \<noteq> None \<longrightarrow> r \<noteq> None) \<and> moved fs_users (fss k) hs (tsk_fs p) r \<and> moved files_count (filess k) hf (tsk_files p) d
     \<and> (has fl CLONE_FS \<longrightarrow> (\<forall>a. r = Some a \<longrightarrow> count_of fs_users (hs a) = 1))
     \<and> (has fl CLONE_FILES \<longrightarrow> (\<forall>a. d = Some a \<longrightarrow> count_of files_count (hf a) = 1)))"

lemma unshared_refs:
  assumes "unshared fl k k'" and "refs_ok k"
  shows "refs_ok k'"
proof -
  from assms(1) obtain p hs hf r d y where p: "tasks k (current k) = Some p"
    and k': "k' = k\<lparr>fss := hs, filess := hf, ext := y, tasks := (tasks k)(current k \<mapsto> p\<lparr>tsk_fs := r, tsk_files := d\<rparr>)\<rparr>"
    and mv: "moved fs_users (fss k) hs (tsk_fs p) r" "moved files_count (filess k) hf (tsk_files p) d"
    unfolding unshared_def by blast
  have fin: "finite (dom (tasks k))" using assms(2) by (simp add: refs_ok_def)
  have t: "tasks k' = (tasks k)(current k \<mapsto> p\<lparr>tsk_fs := r, tsk_files := d\<rparr>)" by (simp add: k')
  note move = refs_move [OF fin p t] and ok = assms(2) [unfolded refs_ok_def]
  have "\<forall>a. count_of files_count (hf a) = card (owners tsk_files k' a)" "\<forall>a. count_of fs_users (hs a) = card (owners tsk_fs k' a)"
    using ok mv by (auto intro!: move [rule_format])
  moreover have "\<forall>a. count_of sighand_count (sighands k a) = card (owners (Some \<circ> tsk_sighand) k' a)"
    using ok move [where cnt = sighand_count and h = "sighands k" and h' = "sighands k" and f = "Some \<circ> tsk_sighand"] by simp
  moreover have "\<forall>a. count_of sigcnt (signals k a) = card (owners counted_signal k' a)"
    using ok move [where cnt = sigcnt and h = "signals k" and h' = "signals k" and f = counted_signal] by (simp add: counted_signal_def)
  moreover have "\<forall>a. count_of mm_users (mms k a) = card (owners tsk_mm k' a)"
    using ok move [where cnt = mm_users and h = "mms k" and h' = "mms k" and f = tsk_mm] by simp
  moreover have "\<forall>a. card (owners tsk_seccomp_filter k' a) \<le> filter_refs k a"
    using ok owners_move [OF fin p t, of tsk_seccomp_filter] by simp
  ultimately show ?thesis
    using fin t unfolding refs_ok_def by (simp add: k')
qed

text \<open>The new structures are in place but not installed.\<close>

definition prepared :: "64 word \<Rightarrow> 'x kern \<Rightarrow> nat option \<Rightarrow> nat option \<Rightarrow> 'x kern \<Rightarrow> bool" where
  "prepared fl k new_fs new_fd k2 \<longleftrightarrow> (\<exists>hs hf. k2 = k\<lparr>fss := hs, filess := hf\<rparr>
     \<and> (case new_fs of
          None \<Rightarrow> hs = fss k \<and> (has fl CLONE_FS \<longrightarrow> fs_users (the (fss k (the (tsk_fs (cur k))))) = 1)
        | Some b \<Rightarrow> \<exists>f. hs = (fss k)(b \<mapsto> f) \<and> fss k b = None \<and> fs_users f = 1
            \<and> fs_users (the (fss k (the (tsk_fs (cur k))))) > 1)
     \<and> (case new_fd of
          None \<Rightarrow> hf = filess k \<and> (\<forall>a. has fl CLONE_FILES \<longrightarrow> tsk_files (cur k) = Some a \<longrightarrow> files_count (the (filess k a)) = 1)
        | Some b \<Rightarrow> \<exists>a f. hf = (filess k)(b \<mapsto> f) \<and> filess k b = None \<and> files_count f = 1
            \<and> tsk_files (cur k) = Some a \<and> files_count (the (filess k a)) > 1))"

lemma prepare:
  assumes "unshare_fs env fl k = (Inr new_fs, k1)" and "unshare_fd env fl k1 = (Inr new_fd, k2)" and "unshare_ready env k"
  shows "prepared fl k new_fs new_fd k2"
proof -
  have rd: "fs_ready (copies env) k" "files_ready (copies env) k" "\<forall>f e. dup_fd (copies env) f = Inl e \<longrightarrow> e \<noteq> 0"
    using assms(3) by (simp_all add: unshare_ready_def)
  from unshare_fs_effect [OF assms(1) rd(1)] obtain hs where k1: "k1 = k\<lparr>fss := hs\<rparr>"
    and fs: "case new_fs of
          None \<Rightarrow> hs = fss k \<and> (has fl CLONE_FS \<longrightarrow> fs_users (the (fss k (the (tsk_fs (cur k))))) = 1)
        | Some b \<Rightarrow> \<exists>f. hs = (fss k)(b \<mapsto> f) \<and> fss k b = None \<and> fs_users f = 1
            \<and> fs_users (the (fss k (the (tsk_fs (cur k))))) > 1"
    by (cases new_fs) auto
  have "files_ready (copies env) k1" using rd(2) by (simp add: files_ready_def k1)
  from unshare_fd_effect [OF assms(2) this rd(3)] show ?thesis
    using fs by (cases new_fd) (auto simp: prepared_def k1)
qed

lemma drop_prepared:
  assumes "prepared fl k new_fs new_fd k2" and "put_files_ok (copies env)"
  shows "free_fs_opt new_fs (put_files_opt env new_fd k2) = k"
proof -
  from assms(1) obtain hs hf where k2: "k2 = k\<lparr>fss := hs, filess := hf\<rparr>"
    and s: "case new_fs of None \<Rightarrow> hs = fss k | Some b \<Rightarrow> hs(b := None) = fss k"
    and f: "case new_fd of None \<Rightarrow> hf = filess k | Some b \<Rightarrow> \<exists>u. hf = (filess k)(b \<mapsto> u) \<and> filess k b = None \<and> files_count u = 1"
    unfolding prepared_def by (elim exE conjE) (cases new_fs; cases new_fd; fastforce simp: fun_upd_idem)
  have "put_files_opt env new_fd k2 = k2\<lparr>filess := filess k\<rparr>"
    using f assms(2) by (cases new_fd) (auto simp: put_files_opt_def put_files_simps(2) k2)
  then show ?thesis
    using s by (cases new_fs) (simp_all add: free_fs_opt_def k2)
qed

text \<open>The final file system and file table heaps.\<close>

lemma install_fs_moved:
  assumes "install_fs new_fs k = (old_fs, k1)" and "tasks k (current k) = Some p" and "tsk_fs p = Some a" and "g a = Some f"
    and "case new_fs of None \<Rightarrow> fss k = g | Some b \<Rightarrow> \<exists>u. fss k = g(b \<mapsto> u) \<and> g b = None \<and> fs_users u = 1 \<and> fs_users f > 1"
  shows "\<exists>hs. old_fs = None \<and> k1 = k\<lparr>fss := hs, tasks := (tasks k)(current k \<mapsto> p\<lparr>tsk_fs := if new_fs = None then Some a else new_fs\<rparr>)\<rparr>
    \<and> moved fs_users g hs (Some a) (if new_fs = None then Some a else new_fs)
    \<and> (\<forall>b. new_fs = Some b \<longrightarrow> count_of fs_users (hs b) = 1) \<and> (new_fs = None \<longrightarrow> hs = g)"
proof (cases new_fs)
  case None
  then show ?thesis
    using assms by (intro exI [of _ g]) (auto simp: install_fs_def fun_upd_idem)
next
  case (Some b)
  with assms(5) obtain u where u: "fss k = g(b \<mapsto> u)" "g b = None" "fs_users u = 1" "fs_users f > 1" by auto
  with assms(4) have "a \<noteq> b" by auto
  then show ?thesis
    using assms(1-4) u Some
    by (intro exI [of _ "upd a (\<lambda>f. f\<lparr>fs_users := fs_users f - 1\<rparr>) (fss k)"])
      (auto simp: install_fs_def Let_def moved_def upd_def)
qed

lemma install_fd_moved:
  assumes "install_fd new_fd k = (old_fd, k1)" and "put_files_ok (copies env)" and "tasks k (current k) = Some p"
    and "case new_fd of None \<Rightarrow> filess k = g
       | Some b \<Rightarrow> \<exists>u a f. filess k = g(b \<mapsto> u) \<and> g b = None \<and> files_count u = 1 \<and> tsk_files p = Some a \<and> g a = Some f \<and> files_count f > 1"
  shows "\<exists>hf d. put_files_opt env old_fd k1 = k\<lparr>filess := hf, tasks := (tasks k)(current k \<mapsto> p\<lparr>tsk_files := d\<rparr>)\<rparr>
    \<and> moved files_count g hf (tsk_files p) d \<and> (if new_fd = None then d = tsk_files p \<and> hf = g else d = new_fd)
    \<and> (\<forall>b. new_fd = Some b \<longrightarrow> count_of files_count (hf b) = 1)"
proof (cases new_fd)
  case None
  then show ?thesis
    using assms by (intro exI [of _ g] exI [of _ "tsk_files p"]) (auto simp: install_fd_def put_files_opt_def fun_upd_idem)
next
  case (Some b)
  with assms(4) obtain u a f where u: "filess k = g(b \<mapsto> u)" "g b = None" "files_count u = 1"
    "tsk_files p = Some a" "g a = Some f" "files_count f > 1" by auto
  then have "a \<noteq> b" by auto
  with u have "put_files (copies env) a (filess k) = (filess k)(a \<mapsto> f\<lparr>files_count := files_count f - 1\<rparr>)"
    using assms(2) [unfolded put_files_ok_def, rule_format, of "filess k" a f] by simp
  moreover have "old_fd = Some a" "k1 = k\<lparr>tasks := (tasks k)(current k \<mapsto> p\<lparr>tsk_files := Some b\<rparr>)\<rparr>"
    using assms(1,3) u(4) Some by (auto simp: install_fd_def upd_def)
  ultimately show ?thesis
    using u Some \<open>a \<noteq> b\<close>
    by (intro exI [of _ "(filess k)(a \<mapsto> f\<lparr>files_count := files_count f - 1\<rparr>)"] exI [of _ "Some b"])
      (auto simp: put_files_opt_def moved_def)
qed

lemma install_moved:
  assumes "prepared fl k new_fs new_fd k2" and "put_files_ok (copies env)" and "unshare_ready env k"
    and "install_fs new_fs (k2\<lparr>ext := y\<rparr>) = (old_fs, k3)" and "install_fd new_fd k3 = (old_fd, k4)"
  shows "unshared fl k (free_fs_opt old_fs (put_files_opt env old_fd (k4\<lparr>ext := z\<rparr>)))"
proof -
  from assms(3) obtain p where t: "tasks k (current k) = Some p" by (auto simp: unshare_ready_def)
  with assms(3) obtain a f where p: "tasks k (current k) = Some p" "tsk_fs p = Some a" "fss k a = Some f"
    by (auto simp: unshare_ready_def fs_ready_def)
  have fd: "\<forall>a. tsk_files p = Some a \<longrightarrow> (\<exists>g. filess k a = Some g)"
    using assms(3) t by (auto simp: unshare_ready_def files_ready_def)
  from assms(1) obtain hs hf where k2: "k2 = k\<lparr>fss := hs, filess := hf\<rparr>"
    and s: "case new_fs of None \<Rightarrow> hs = fss k \<and> (has fl CLONE_FS \<longrightarrow> fs_users f = 1)
      | Some b \<Rightarrow> \<exists>u. hs = (fss k)(b \<mapsto> u) \<and> fss k b = None \<and> fs_users u = 1 \<and> fs_users f > 1"
    and d: "case new_fd of None \<Rightarrow> hf = filess k \<and> (\<forall>a. has fl CLONE_FILES \<longrightarrow> tsk_files p = Some a \<longrightarrow> files_count (the (filess k a)) = 1)
      | Some b \<Rightarrow> \<exists>a f. hf = (filess k)(b \<mapsto> f) \<and> filess k b = None \<and> files_count f = 1
          \<and> tsk_files p = Some a \<and> files_count (the (filess k a)) > 1"
    unfolding prepared_def p option.sel by blast
  let ?r = "if new_fs = None then Some a else new_fs" and ?q = "\<lambda>r. p\<lparr>tsk_fs := r\<rparr>"
  from install_fs_moved [OF assms(4), of p a "fss k" f] p s obtain gs where o: "old_fs = None"
    and k3: "k3 = k2\<lparr>ext := y, fss := gs, tasks := (tasks k)(current k \<mapsto> ?q ?r)\<rparr>"
    and gs: "moved fs_users (fss k) gs (Some a) ?r" "\<forall>b. new_fs = Some b \<longrightarrow> count_of fs_users (gs b) = 1" "new_fs = None \<longrightarrow> gs = fss k"
    by (auto simp: k2 split: option.splits)
  have "case new_fd of None \<Rightarrow> filess k3 = filess k
       | Some b \<Rightarrow> \<exists>u a f. filess k3 = (filess k)(b \<mapsto> u) \<and> filess k b = None \<and> files_count u = 1
           \<and> tsk_files (?q ?r) = Some a \<and> filess k a = Some f \<and> files_count f > 1"
    using d fd by (cases new_fd) (fastforce simp: k3 k2)+
  with install_fd_moved [OF assms(5,2), of "?q ?r" "filess k"] obtain gf e
    where k4: "put_files_opt env old_fd k4 = k3\<lparr>filess := gf, tasks := (tasks k)(current k \<mapsto> (?q ?r)\<lparr>tsk_files := e\<rparr>)\<rparr>"
    and gf: "moved files_count (filess k) gf (tsk_files p) e" "if new_fd = None then e = tsk_files p \<and> gf = filess k else e = new_fd"
      "\<forall>b. new_fd = Some b \<longrightarrow> count_of files_count (gf b) = 1"
    by (auto simp: k3 k2)
  have z: "put_files_opt env old_fd (k4\<lparr>ext := z\<rparr>) = (put_files_opt env old_fd k4)\<lparr>ext := z\<rparr>"
    by (cases old_fd) (simp_all add: put_files_opt_def)
  have "has fl CLONE_FS \<longrightarrow> (\<forall>b. ?r = Some b \<longrightarrow> count_of fs_users (gs b) = 1)"
    using gs s p by (cases new_fs) auto
  moreover have "has fl CLONE_FILES \<longrightarrow> (\<forall>b. e = Some b \<longrightarrow> count_of files_count (gf b) = 1)"
  proof (cases new_fd)
    case None
    show ?thesis
    proof (intro impI allI)
      fix b assume "has fl CLONE_FILES" "e = Some b"
      then show "count_of files_count (gf b) = 1"
        using gf(2) d fd [rule_format, of b] None by auto
    qed
  qed (use gf in simp)
  ultimately show ?thesis
    unfolding unshared_def free_fs_opt_def o z k4 k3 k2 using p gs(1) gf(1)
    by (intro exI [of _ p] exI [of _ gs] exI [of _ gf] exI [of _ ?r] exI [of _ e] exI [of _ z]) simp
qed

text \<open>What follows the preparation: user and other namespaces, then the installation.\<close>

lemma install_unshared_moved:
  assumes "prepared fl k new_fs new_fd k2" and "put_files_ok (copies env)" and "unshare_ready env k"
    and "install_unshared env fl new_fs new_fd ucred new_nsproxy (k2\<lparr>ext := y\<rparr>) = (old_fs, old_fd, k3)"
  shows "unshared fl k (free_fs_opt old_fs (put_files_opt env old_fd (k3\<lparr>ext := z\<rparr>)))"
proof -
  have "\<exists>y k1 k2'. install_fs new_fs (k2\<lparr>ext := y\<rparr>) = (old_fs, k1) \<and> install_fd new_fd k1 = (old_fd, k2') \<and> (\<exists>x. k3 = k2'\<lparr>ext := x\<rparr>)"
  proof (cases "new_fs \<noteq> None \<or> new_fd \<noteq> None \<or> has fl (CLONE_NEWIPC OR CLONE_SYSVSEM) \<or> ucred \<noteq> None \<or> new_nsproxy \<noteq> None")
    case True
    obtain f k1 where f: "install_fs new_fs (k2\<lparr>ext := leave_namespaces env fl new_nsproxy y\<rparr>) = (f, k1)" by fastforce
    obtain d k2' where d: "install_fd new_fd k1 = (d, k2')" by fastforce
    have "install_unshared env fl new_fs new_fd ucred new_nsproxy (k2\<lparr>ext := y\<rparr>)
        = (f, d, case ucred of None \<Rightarrow> k2' | Some c \<Rightarrow> k2'\<lparr>ext := commit_creds env c (ext k2')\<rparr>)"
      unfolding install_unshared_def Let_def if_P [OF True] using f d by simp
    with assms(4) have "f = old_fs" "d = old_fd" "\<exists>x. k3 = k2'\<lparr>ext := x\<rparr>"
      by (auto split: option.splits intro: exI [of _ "ext k2'"])
    with f d show ?thesis by blast
  next
    case False
    then have "old_fs = None" "old_fd = None" "k3 = k2\<lparr>ext := y\<rparr>" "new_fs = None" "new_fd = None"
      using assms(4) by (simp_all add: install_unshared_def)
    then show ?thesis
      by (intro exI [of _ y] exI [of _ k3]) (auto simp: install_fs_def install_fd_def intro: exI [of _ y])
  qed
  then obtain y k1 k2' x where "install_fs new_fs (k2\<lparr>ext := y\<rparr>) = (old_fs, k1)" "install_fd new_fd k1 = (old_fd, k2')" "k3 = k2'\<lparr>ext := x\<rparr>"
    by blast
  then show ?thesis using install_moved [OF assms(1-3), of y old_fs k1 old_fd k2' z] by simp
qed

lemma unshare_tail:
  assumes "unshare_env_ok env" and "unshare_ready env k" and "prepared fl k new_fs new_fd k2"
    and "(case unshare_userns env fl (ext k2) of
            (Inl e, x) \<Rightarrow> (e, free_fs_opt new_fs (put_files_opt env new_fd (k2\<lparr>ext := x\<rparr>)))
          | (Inr ucred, x) \<Rightarrow>
              (case unshare_nsproxy env fl ucred new_fs x of
                 (Inl e, y) \<Rightarrow> (e, free_fs_opt new_fs (put_files_opt env new_fd (put_cred_opt env ucred (k2\<lparr>ext := y\<rparr>))))
               | (Inr new_nsproxy, y) \<Rightarrow>
                   let (old_fs, old_fd, k3) = install_unshared env fl new_fs new_fd ucred new_nsproxy (k2\<lparr>ext := y\<rparr>) in
                   (0, free_fs_opt old_fs (put_files_opt env old_fd (k3\<lparr>ext := perf_event_namespaces env (ext k3)\<rparr>))))) = (err, k')"
  shows "if err = 0 then unshared fl k k' else k' = k"
proof -
  note law = unshare_laws [OF assms(1)]
  note drop = drop_prepared [OF assms(3) law(1)]
  obtain r x where 1: "unshare_userns env fl (ext k2) = (r, x)" by fastforce
  show ?thesis
  proof (cases r)
    case (Inl e)
    with law(2) [of fl "ext k2" e x] 1 have "x = ext k2" "e \<noteq> 0" by simp_all
    then show ?thesis using 1 Inl drop assms(4) by simp
  next
    case r: (Inr ucred)
    have undone: "put_cred_opt env ucred (k2\<lparr>ext := x\<rparr>) = k2"
      using law(3,4) [of fl "ext k2"] 1 r by (cases ucred) (simp_all add: put_cred_opt_def)
    obtain q y where 2: "unshare_nsproxy env fl ucred new_fs x = (q, y)" by fastforce
    show ?thesis
    proof (cases q)
      case (Inl e)
      with law(5) [of fl ucred new_fs x e y] 2 have "y = x" "e \<noteq> 0" by simp_all
      then show ?thesis using 1 2 Inl r drop undone assms(4) by simp
    next
      case q: (Inr ns)
      obtain old_fs old_fd k3 where 3: "install_unshared env fl new_fs new_fd ucred ns (k2\<lparr>ext := y\<rparr>) = (old_fs, old_fd, k3)"
        by (metis prod_cases3)
      then show ?thesis
        using 1 2 r q assms(4) install_unshared_moved [OF assms(3) law(1) assms(2) 3] by auto
    qed
  qed
qed

lemma unshare_effect:
  assumes "unshare_env_ok env" and "unshare_ready env k" and "ksys_unshare env unshare_flags k = (err, k')"
  shows "if err = 0 then unshared (implied_flags unshare_flags) k k' else k' = k"
proof -
  let ?fl = "implied_flags unshare_flags"
  have rd: "fs_ready (copies env) k" "files_ready (copies env) k" "\<forall>f e. dup_fd (copies env) f = Inl e \<longrightarrow> e \<noteq> 0"
    using assms(2) by (simp_all add: unshare_ready_def)
  have put: "put_files_ok (copies env)" using assms(1) by (simp add: unshare_env_ok_def)
  show ?thesis
  proof (cases "check_unshare_flags env ?fl k = 0")
    case False
    then show ?thesis using assms(3) by (auto simp: ksys_unshare_def)
  next
    case ok: True
    obtain r1 k1 where 1: "unshare_fs env ?fl k = (r1, k1)" by fastforce
    show ?thesis
    proof (cases r1)
      case (Inl e)
      then show ?thesis using assms(3) ok 1 unshare_fs_effect [OF 1 rd(1)] by (auto simp: ksys_unshare_def)
    next
      case fs: (Inr new_fs)
      obtain r2 k2 where 2: "unshare_fd env ?fl k1 = (r2, k2)" by fastforce
      have k1: "files_ready (copies env) k1" and undone: "free_fs_opt new_fs k1 = k"
        using rd(2) unshare_fs_effect [OF 1 rd(1)] by (auto simp: fs files_ready_def free_fs_opt_def fun_upd_idem)
      show ?thesis
      proof (cases r2)
        case (Inl e)
        then show ?thesis
          using assms(3) ok 1 2 fs undone unshare_fd_effect [OF 2 k1 rd(3)] by (auto simp: ksys_unshare_def)
      next
        case fd: (Inr new_fd)
        have "prepared ?fl k new_fs new_fd k2"
          using prepare 1 2 assms(2) by (metis fs fd)
        then show ?thesis
          by (rule unshare_tail [OF assms(1,2)]) (use assms(3) ok 1 2 fs fd in \<open>simp add: ksys_unshare_def Let_def\<close>)
      qed
    qed
  qed
qed

end
