(* ===== verification/Fork_System.thy ===== *)
theory Fork_System
  imports Fork_Tree Unshare
begin

section \<open>The invariant of the process system\<close>

text \<open>
  \<open>system_ok\<close> collects what holds between calls: the reference counts, the family of processes, the kernel stacks and the
  number of threads.  A new task keeps it, a change that is \<open>quiet\<close> keeps it, and with allocators that hand out fresh
  addresses it is all that \<open>copy_process\<close> and \<open>unshare\<close> ask of the kernel they are called in.
\<close>

subsection \<open>The tail of \<open>_do_fork\<close>\<close>

text \<open>A task without the fields that change in tasks that exist: flags, counts, states, the address for \<open>set_tid_address\<close>.\<close>

definition core :: "task_struct \<Rightarrow> task_struct" where
  "core p = p\<lparr>tsk_flags := 0, tsk_fork_count := 0, tsk_vfork_done := False, tsk_usage := 0, tsk_state := 0, tsk_clear_child_tid := 0,
     tsk_atomic_flags := 0\<rparr>"

lemma core_updates [simp]:
  "core (p\<lparr>tsk_flags := f\<rparr>) = core p" "core (p\<lparr>tsk_fork_count := n\<rparr>) = core p" "core (p\<lparr>tsk_vfork_done := d\<rparr>) = core p"
  "core (p\<lparr>tsk_usage := u\<rparr>) = core p" "core (p\<lparr>tsk_state := s\<rparr>) = core p"
  "core (p\<lparr>tsk_clear_child_tid := a\<rparr>) = core p" "core (p\<lparr>tsk_atomic_flags := b\<rparr>) = core p"
  by (simp_all add: core_def)

lemma core_pfa: "f \<in> set pfa_updates \<Longrightarrow> core (f p) = core p"
  by (auto simp: pfa_updates_def pfa_update_defs TASK_PFA_SET_def TASK_PFA_CLEAR_def)

lemma map_field:
  assumes "map_option g x = map_option g y" and "\<And>p. f (g p) = f p"
  shows "map_option f x = map_option f y"
proof -
  have "map_option f z = map_option f (map_option g z)" for z by (simp add: option.map_comp comp_def assms(2))
  then show ?thesis using assms(1) by metis
qed

lemma core_reads [simp]:
  "tsk_files (core p) = tsk_files p" "tsk_fs (core p) = tsk_fs p" "tsk_sighand (core p) = tsk_sighand p" "tsk_signal (core p) = tsk_signal p"
  "tsk_mm (core p) = tsk_mm p" "tsk_seccomp_filter (core p) = tsk_seccomp_filter p" "tsk_stack (core p) = tsk_stack p" "tsk_pid (core p) = tsk_pid p"
  "kin (core p) = kin p" "tsk_seccomp_mode (core p) = tsk_seccomp_mode p"
  "tsk_thread_flags (core p) = tsk_thread_flags p" "tsk_comm (core p) = tsk_comm p" "tsk_children (core p) = tsk_children p"
  by (simp_all add: core_def kin_def)

lemma do_fork_effect:
  assumes "do_fork_main env args k = (Inr nr, k')"
  obtains t k1 where "copy_process (fork_part env) None (fork_event env args \<noteq> 0) args k = (Inr t, k1)" "k' = k1\<lparr>tasks := tasks k'\<rparr>"
    "\<forall>u. map_option core (tasks k' u) = map_option core (tasks k1 u)" "\<forall>p. tasks k1 t = Some p \<longrightarrow> nr = pid_vnr env (tsk_pid p)"
    "\<forall>u. map_option tsk_atomic_flags (tasks k' u) = map_option tsk_atomic_flags (tasks k1 u)"
    "t \<noteq> current k1 \<longrightarrow> (\<forall>u. map_option tsk_fork_count (tasks k' u) =
       map_option (\<lambda>p. if u = t then 0 else if u = current k1 then tsk_fork_count p + 1 else tsk_fork_count p) (tasks k1 u))"
proof -
  obtain t k1 where run: "copy_process (fork_part env) None (fork_event env args \<noteq> 0) args k = (Inr t, k1)"
    using assms by (auto simp: do_fork_main_def split: prod.splits sum.splits)
  show ?thesis
    by (rule that [OF run])
      (use assms run in \<open>auto simp: do_fork_main_def count_fork_def wait_for_vfork_done_def complete_vfork_done_def Let_def upd_def
         option.map_comp comp_def split: if_splits\<close>)
qed

lemma do_fork_error:
  assumes "do_fork_main env args k = (Inl e, k')"
  shows "copy_process (fork_part env) None (fork_event env args \<noteq> 0) args k = (Inl e, k')"
  using assms by (auto simp: do_fork_main_def Let_def split: prod.splits sum.splits)

subsection \<open>Kernels that differ in nothing that matters\<close>

definition quiet :: "'x kern \<Rightarrow> 'x kern \<Rightarrow> bool" where
  "quiet k k' \<longleftrightarrow> (\<forall>u. map_option core (tasks k' u) = map_option core (tasks k u))
     \<and> current k' = current k \<and> filess k' = filess k \<and> fss k' = fss k \<and> sighands k' = sighands k \<and> signals k' = signals k
     \<and> mms k' = mms k \<and> filter_refs k' = filter_refs k \<and> task_list k' = task_list k \<and> nr_threads k' = nr_threads k
     \<and> max_threads k' = max_threads k \<and> acct k' = acct k \<and> in_use k' = in_use k \<and> (cache_ok k \<longrightarrow> cache_ok k')"

lemma quiet_field: "quiet k k' \<Longrightarrow> (\<And>p. f (core p) = f p) \<Longrightarrow> map_option f (tasks k' u) = map_option f (tasks k u)"
  using map_field [of core "tasks k' u" "tasks k u" f] by (simp add: quiet_def)

lemma quiet_tasks: "quiet k k' \<Longrightarrow> tasks k' u = None \<longleftrightarrow> tasks k u = None"
  using quiet_field [of k k' "\<lambda>_. ()" u] by (metis map_option_is_None)

lemma unchanged_quiet:
  assumes "unchanged k k'"
  shows "quiet k k'"
proof -
  have "map_option core (tasks (clear_nproc k) u) = map_option core (tasks k u)" for u
    by (simp add: clear_nproc_def upd_def option.map_comp comp_def)
  moreover have "in_use (clear_nproc k) = in_use k" "cache_ok (clear_nproc k) = cache_ok k"
    by (rule stacks_cong; simp add: clear_nproc_def)+
  moreover have "acct (clear_nproc k) = acct k" by (simp add: clear_nproc_def)
  ultimately show ?thesis
    using assms unfolding unchanged_def same_but_stacks_def quiet_def by (elim disjE conjE exE) simp_all
qed

lemma tail_quiet:
  assumes "k' = k\<lparr>tasks := ts\<rparr>" and "\<forall>u. map_option core (tasks k' u) = map_option core (tasks k u)"
  shows "quiet k k'"
proof -
  have "in_use k' = in_use k" "cache_ok k' = cache_ok k" by (rule stacks_cong; simp add: assms(1))+
  then show ?thesis using assms by (simp add: quiet_def)
qed

text \<open>The other tasks when a new one is linked.\<close>

lemma child_others:
  assumes "child_linked fl t p k k'" and "u \<noteq> t" and "\<And>p cs. f ((core p)\<lparr>tsk_children := cs\<rparr>) = f p"
  shows "map_option f (tasks k' u) = map_option f (tasks k u)"
proof (rule map_field [where g = "\<lambda>p. (core p)\<lparr>tsk_children := []\<rparr>"])
  have "(core (p\<lparr>tsk_children := cs\<rparr>))\<lparr>tsk_children := []\<rparr> = (core p)\<lparr>tsk_children := []\<rparr>" for p cs by (simp add: core_def)
  then show "map_option (\<lambda>p. (core p)\<lparr>tsk_children := []\<rparr>) (tasks k' u) = map_option (\<lambda>p. (core p)\<lparr>tsk_children := []\<rparr>) (tasks k u)"
    using assms(1,2) by (auto simp: child_linked_def clear_nproc_def upd_def option.map_comp comp_def)
qed (rule assms(3))

subsection \<open>References\<close>

lemma owners_same:
  assumes "\<And>u. map_option f (tasks k' u) = map_option f (tasks k u)"
  shows "owners f k' a = owners f k a"
proof -
  have "(\<exists>p. tasks k' u = Some p \<and> f p = Some a) \<longleftrightarrow> (\<exists>p. tasks k u = Some p \<and> f p = Some a)" for u
    using assms [of u] by (cases "tasks k' u"; cases "tasks k u") auto
  then show ?thesis by (simp add: owners_def)
qed

lemma quiet_refs:
  assumes "quiet k k'" and "refs_ok k"
  shows "refs_ok k'"
proof -
  have "owners f k' a = owners f k a" if "\<And>p. f (core p) = f p" for f a
    using owners_same quiet_field [OF assms(1), of f] that by blast
  then have "owners tsk_files k' = owners tsk_files k" "owners tsk_fs k' = owners tsk_fs k" "owners tsk_mm k' = owners tsk_mm k"
    "owners (Some \<circ> tsk_sighand) k' = owners (Some \<circ> tsk_sighand) k" "owners counted_signal k' = owners counted_signal k"
    "owners tsk_seccomp_filter k' = owners tsk_seccomp_filter k"
    by (simp_all add: fun_eq_iff counted_signal_def)
  moreover have "dom (tasks k') = dom (tasks k)" using quiet_tasks [OF assms(1)] by (auto simp: dom_def)
  ultimately show ?thesis using assms by (simp add: refs_ok_def quiet_def)
qed

lemma refs_linked:
  assumes "child_linked fl t p k k'" and "finite (dom (tasks k))" and "\<And>p cs. f ((core p)\<lparr>tsk_children := cs\<rparr>) = f p"
  shows "gains cnt h h' (f p) \<Longrightarrow> \<forall>a. count_of cnt (h a) = card (owners f k a) \<Longrightarrow> \<forall>a. count_of cnt (h' a) = card (owners f k' a)"
    and "card (owners f k' a) = card (owners f k a) + (if f p = Some a then 1 else 0)"
proof -
  have new: "tasks k t = None" "tasks k' t = Some p" using assms(1) by (simp_all add: child_linked_def)
  note others = child_others [OF assms(1), where f = f, OF _ assms(3)]
  show "\<forall>a. count_of cnt (h' a) = card (owners f k' a)" if "gains cnt h h' (f p)" "\<forall>a. count_of cnt (h a) = card (owners f k a)"
    by (rule refs_insert [OF assms(2) new others that])
  show "card (owners f k' a) = card (owners f k a) + (if f p = Some a then 1 else 0)"
    using owners_insert [OF new, where f = f, OF others] owners_finite [OF assms(2)] by simp
qed

lemma refs_child:
  assumes "refs_ok k" and "new_child fl t p k k'"
  shows "refs_ok k'"
proof -
  have link: "child_linked fl t p k k'" and pid: "0 < tsk_pid p"
    using assms(2) by (simp_all add: new_child_def child_identity_def)
  have counts: "child_counts p k k'" using assms(2) by (simp add: new_child_def)
  note counts = counts [unfolded child_counts_def] and ok = assms(1) [unfolded refs_ok_def]
  have fin: "finite (dom (tasks k))" using ok by simp
  note one = refs_linked [OF link fin]
  have "tasks k' u = None \<longleftrightarrow> tasks k u = None" if "u \<noteq> t" for u
    using child_others [OF link that, of "\<lambda>_. ()"] by (metis map_option_is_None)
  then have "dom (tasks k') \<subseteq> insert t (dom (tasks k))" by (metis domIff insertCI subsetI)
  then have "finite (dom (tasks k'))" using fin by (meson finite.insertI finite_subset)
  moreover have "\<forall>a. count_of files_count (filess k' a) = card (owners tsk_files k' a)"
    by (rule one(1) [where h = "filess k"]) (use ok counts in simp_all)
  moreover have "\<forall>a. count_of fs_users (fss k' a) = card (owners tsk_fs k' a)"
    by (rule one(1) [where h = "fss k"]) (use ok counts in simp_all)
  moreover have "\<forall>a. count_of sighand_count (sighands k' a) = card (owners (Some \<circ> tsk_sighand) k' a)"
    by (rule one(1) [where h = "sighands k"]) (use ok counts in simp_all)
  moreover have "\<forall>a. count_of sigcnt (signals k' a) = card (owners counted_signal k' a)"
    by (rule one(1) [where h = "signals k"]) (use ok counts pid in \<open>simp_all add: counted_signal_def\<close>)
  moreover have "\<forall>a. count_of mm_users (mms k' a) = card (owners tsk_mm k' a)"
    by (rule one(1) [where h = "mms k"]) (use ok counts in simp_all)
  moreover have "card (owners tsk_seccomp_filter k' a) \<le> filter_refs k' a" for a
    using one(2) [of tsk_seccomp_filter a] ok counts by simp
  ultimately show ?thesis by (simp add: refs_ok_def)
qed

subsection \<open>The invariant\<close>

text \<open>Every task has a kernel stack of its own, and stacks that no task uses are charged to nobody.\<close>

definition stacks_ok :: "'x kern \<Rightarrow> bool" where
  "stacks_ok k \<longleftrightarrow> cache_ok k \<and> (\<forall>s. \<not> in_use k s \<longrightarrow> uncharged s (acct k))
     \<and> (\<forall>t p. tasks k t = Some p \<longrightarrow> (\<exists>s. tsk_stack p = Some s \<and> in_use k s \<and> owners tsk_stack k s = {t}))"

text \<open>The threads that count are those with a number; there are never more than the limit.\<close>

definition numbered :: "'x kern \<Rightarrow> nat set" where
  "numbered k = {t. \<exists>p. tasks k t = Some p \<and> tsk_pid p \<noteq> 0}"

definition threads_ok :: "'x kern \<Rightarrow> bool" where
  "threads_ok k \<longleftrightarrow> nr_threads k = int (card (numbered k)) \<and> nr_threads k \<le> max_threads k"

definition system_ok :: "'x kern \<Rightarrow> bool" where
  "system_ok k \<longleftrightarrow> tasks k (current k) \<noteq> None \<and> (\<forall>t p. tasks k t = Some p \<longrightarrow> tsk_fs p \<noteq> None)
     \<and> refs_ok k \<and> wf_family (family_of k) \<and> stacks_ok k \<and> threads_ok k"

definition number_of :: "task_struct \<Rightarrow> nat option" where
  "number_of p = (if tsk_pid p = 0 then None else Some 0)"

lemma numbered_owners: "numbered k = owners number_of k 0"
  by (auto simp: numbered_def owners_def number_of_def)

lemma quiet_fs:
  assumes "quiet k k'" and "\<forall>t p. tasks k t = Some p \<longrightarrow> f p \<noteq> None" and "\<And>p. f (core p) = f p"
  shows "\<forall>t p. tasks k' t = Some p \<longrightarrow> f p \<noteq> None"
proof (intro allI impI)
  fix t p
  assume "tasks k' t = Some p"
  then show "f p \<noteq> None" using quiet_field [OF assms(1), of f t, OF assms(3)] assms(2) by (cases "tasks k t") auto
qed

lemma quiet_system:
  assumes "quiet k k'" and "system_ok k"
  shows "system_ok k'"
proof -
  have own: "owners f k' a = owners f k a" if "\<And>p. f (core p) = f p" for f a
    using owners_same quiet_field [OF assms(1), of f] that by blast
  have "kins (family_of k') = kins (family_of k)" using quiet_field [OF assms(1), of kin] by (simp add: fun_eq_iff)
  then have "family_of k' = family_of k" using assms(1) by (intro family.equality) (simp_all add: quiet_def fun_eq_iff)
  moreover have "numbered k' = numbered k" unfolding numbered_owners by (rule own) (simp add: number_of_def)
  then have "threads_ok k'" using assms by (simp add: threads_ok_def quiet_def system_ok_def)
  moreover have "stacks_ok k'"
  proof -
    have "\<exists>s. tsk_stack p = Some s \<and> in_use k s \<and> owners tsk_stack k' s = {t}" if "tasks k' t = Some p" for t p
      using quiet_field [OF assms(1), of tsk_stack t] that assms(2) own [of tsk_stack] by (cases "tasks k t") (auto simp: system_ok_def stacks_ok_def)
    then show ?thesis using assms by (simp add: stacks_ok_def quiet_def system_ok_def)
  qed
  moreover have "\<forall>t p. tasks k' t = Some p \<longrightarrow> tsk_fs p \<noteq> None"
    by (rule quiet_fs [OF assms(1)]) (use assms(2) in \<open>simp_all add: system_ok_def\<close>)
  moreover have "tasks k' (current k') \<noteq> None" using assms quiet_tasks [OF assms(1)] by (simp add: system_ok_def quiet_def)
  ultimately show ?thesis using assms quiet_refs [OF assms(1)] by (simp add: system_ok_def)
qed

lemma stacks_child:
  assumes "stacks_ok k" and "new_child fl t p k k'"
  shows "stacks_ok k'"
proof -
  have link: "child_linked fl t p k k'" and own: "child_own p k k'" using assms(2) by (simp_all add: new_child_def)
  have new: "tasks k t = None" "tasks k' t = Some p" using link by (simp_all add: child_linked_def)
  obtain s where s: "tsk_stack p = Some s" "\<not> in_use k s" "in_use k' = (in_use k)(s := True)"
    "\<And>u. u \<noteq> s \<Longrightarrow> uncharged u (acct k') = uncharged u (acct k)" and "cache_ok k'"
    using own by (auto simp: child_own_def)
  note others = child_others [OF link, where f = tsk_stack] and ok = assms(1) [unfolded stacks_ok_def]
  have ins: "owners tsk_stack k' a = (if a = s then insert t (owners tsk_stack k a) else owners tsk_stack k a)" for a
    using owners_insert(1) [OF new, of tsk_stack a] others s(1) by simp
  have "owners tsk_stack k s = {}" using ok s(2) by (fastforce simp: owners_def)
  moreover have "\<exists>b. tsk_stack q = Some b \<and> in_use k' b \<and> owners tsk_stack k' b = {u}" if u: "tasks k' u = Some q" "u \<noteq> t" for u q
  proof -
    obtain q0 where q0: "tasks k u = Some q0" "tsk_stack q0 = tsk_stack q" using others [of u] u by (cases "tasks k u") auto
    then obtain b where "tsk_stack q = Some b" "in_use k b" "owners tsk_stack k b = {u}" using ok by fastforce
    then show ?thesis using s(2,3) ins [of b] by auto
  qed
  moreover have "uncharged u (acct k')" if "\<not> in_use k' u" for u
    using that s(3,4) ok by (auto split: if_splits)
  ultimately show ?thesis
    unfolding stacks_ok_def using \<open>cache_ok k'\<close> new(2) s(1,3) ins [of s] by (metis fun_upd_apply option.inject)
qed

lemma child_system:
  assumes "system_ok k" and "new_child fl t p k k'"
  shows "system_ok k'"
proof -
  note ok = assms(1) [unfolded system_ok_def]
  have link: "child_linked fl t p k k'" and shares: "child_shares fl p k" and pid: "0 < tsk_pid p"
    using assms(2) by (simp_all add: new_child_def child_identity_def)
  obtain c where c: "tasks k (current k) = Some c" using ok by auto
  have new: "tasks k t = None" "tasks k' t = Some p" "current k' = current k" using link by (simp_all add: child_linked_def)
  have fin: "finite (dom (tasks k))" using ok by (simp add: refs_ok_def)
  have "wf_family (family_of k')"
    using wf_join [OF _ fork_may_join [OF assms(2) _ c]] fork_joins [OF assms(2)] ok by simp
  moreover have "threads_ok k'"
  proof -
    have "card (owners number_of k' 0) = card (owners number_of k 0) + 1"
      using refs_linked(2) [OF link fin, of number_of 0] pid by (simp add: number_of_def)
    then show ?thesis using ok link by (simp add: threads_ok_def numbered_owners child_linked_def)
  qed
  moreover have "tsk_fs q \<noteq> None" if "tasks k' u = Some q" for u q
  proof (cases "u = t")
    case True
    then show ?thesis using that new(2) ok c shares by (auto simp: child_shares_def shared_or_new_def split: if_splits)
  next
    case False
    then show ?thesis using child_others [OF link, of u tsk_fs] that ok by (cases "tasks k u") auto
  qed
  moreover have "tasks k' (current k') \<noteq> None"
    using child_others [OF link, of "current k" "\<lambda>_. ()"] c new by (cases "current k = t") auto
  ultimately show ?thesis
    using ok stacks_child [OF _ assms(2)] refs_child [OF _ assms(2)] by (simp add: system_ok_def)
qed

subsection \<open>What the allocators promise\<close>

text \<open>Every new object is at an address that nothing uses; a copied table has one user.\<close>

definition fresh :: "'x fork_env \<Rightarrow> 'x kern \<Rightarrow> bool" where
  "fresh env k \<longleftrightarrow>
     (\<forall>t. alloc_task env = Some t \<longrightarrow> \<not> task_slab k t \<and> tasks k t = None \<and> (\<forall>a m. mms k a = Some m \<longrightarrow> mm_owner m \<noteq> Some t))
     \<and> (\<forall>s. vmalloc_stack env = Some s \<longrightarrow> \<not> stacks k s)
     \<and> (\<forall>a. new_mm (mm_part env) = Some a \<longrightarrow> mms k a = None) \<and> (\<forall>a. new_sighand env = Some a \<longrightarrow> sighands k a = None)
     \<and> (\<forall>a. new_signal env = Some a \<longrightarrow> signals k a = None)
     \<and> (\<forall>f b g. dup_fd env f = Inr (b, g) \<longrightarrow> filess k b = None \<and> files_count g = 1)
     \<and> (\<forall>f b g. copy_fs_struct env f = Some (b, g) \<longrightarrow> fss k b = None \<and> fs_users g = 1)"

text \<open>What a task points to exists and is in use.\<close>

lemma refs_exist:
  assumes "finite (dom (tasks k))" and "\<forall>a. count_of cnt (h a) = card (owners f k a)" and "tasks k t = Some p" and "f p = Some a"
  shows "\<exists>x. h a = Some x \<and> 0 < cnt x"
proof -
  have "t \<in> owners f k a" using assms(3,4) by (simp add: owners_def)
  then have "0 < card (owners f k a)" using owners_finite [OF assms(1)] by (metis card_gt_0_iff empty_iff)
  then have "0 < count_of cnt (h a)" using assms(2) by simp
  then show ?thesis by (cases "h a") auto
qed

lemma objects_ready:
  assumes "system_ok k" and "fresh env k"
  shows "files_ready env k" and "fs_ready env k" and "sighand_ready env k"
proof -
  note ok = assms(1) [unfolded system_ok_def] and fr = assms(2) [unfolded fresh_def]
  obtain c where c: "tasks k (current k) = Some c" using ok by auto
  have refs: "finite (dom (tasks k))" "\<forall>a. count_of files_count (filess k a) = card (owners tsk_files k a)"
    "\<forall>a. count_of fs_users (fss k a) = card (owners tsk_fs k a)"
    "\<forall>a. count_of sighand_count (sighands k a) = card (owners (Some \<circ> tsk_sighand) k a)"
    using ok by (simp_all add: refs_ok_def)
  show "files_ready env k" using refs_exist [OF refs(1,2) c] fr c by (fastforce simp: files_ready_def)
  obtain a where a: "tsk_fs c = Some a" using ok c by fastforce
  then show "fs_ready env k" using refs_exist [OF refs(1,3) c a] fr c by (fastforce simp: fs_ready_def)
  show "sighand_ready env k" using refs_exist [OF refs(1,4) c, of "tsk_sighand c"] fr c by (auto simp: sighand_ready_def)
qed

lemma system_ready:
  assumes "system_ok k" and "fresh env k" and "subsystems_ok env"
  shows "fork_ready env k"
proof -
  note ok = assms(1) [unfolded system_ok_def] and fr = assms(2) [unfolded fresh_def]
  obtain c where c: "tasks k (current k) = Some c" using ok by auto
  have fin: "finite (dom (tasks k))" using ok by (simp add: refs_ok_def)
  have "kin_ok (family_of k) (current k) (kin c)" using wf_kin ok c by simp
  then have "\<exists>s. signals k (tsk_signal c) = Some s" by (auto simp: kin_ok_def group_ok_def)
  moreover have "mm_ready (mm_part env) t k" if "alloc_task env = Some t" for t
    using refs_exist [OF fin, of mm_users "mms k" tsk_mm "current k" c] ok c fr that assms(3)
    by (fastforce simp: mm_ready_def refs_ok_def subsystems_ok_def)
  moreover have "seccomp_ready k"
  proof -
    have "0 < filter_refs k f" if "tsk_seccomp_filter c = Some f" for f
    proof -
      have "current k \<in> owners tsk_seccomp_filter k f" using c that by (simp add: owners_def)
      then have "0 < card (owners tsk_seccomp_filter k f)" using owners_finite [OF fin] by (metis card_gt_0_iff empty_iff)
      moreover have "card (owners tsk_seccomp_filter k f) \<le> filter_refs k f" using ok by (simp add: refs_ok_def)
      ultimately show ?thesis by (rule less_le_trans)
    qed
    then show ?thesis using c by (simp add: seccomp_ready_def)
  qed
  ultimately show ?thesis
    unfolding fork_ready_def using c objects_ready [OF assms(1,2)] fr ok by (auto simp: signal_ready_def stacks_ok_def)
qed

lemma system_sane:
  assumes "system_ok k" and "sane_args args" and "\<forall>q. thread_group_leader env q \<longleftrightarrow> 0 \<le> tsk_exit_signal q"
  shows "fork_sane env args k"
proof -
  note ok = assms(1) [unfolded system_ok_def]
  obtain c where c: "tasks k (current k) = Some c" using ok by auto
  have wf: "wf_family (family_of k)" using ok by simp
  have "kin_ok (family_of k) (current k) (kin c)" using wf_kin [OF wf] c by simp
  then obtain l where l: "tasks k (tsk_group_leader c) = Some l" "tsk_group_leader l = tsk_group_leader c" and "tasks k (tsk_real_parent c) \<noteq> None"
    by (auto simp: kin_ok_def group_ok_def)
  moreover have "0 \<le> tsk_exit_signal l" using wf_kin [OF wf, of "tsk_group_leader c" "kin l"] l by (simp add: kin_ok_def)
  ultimately show ?thesis using assms(2,3) c by (simp add: fork_sane_def sane_args_def)
qed

end
