(* ===== verification/First_Task.thy ===== *)
theory First_Task
  imports Kernel
begin

section \<open>The first task (Assignment2-1, init_task.c)\<close>

text \<open>
  The statically initialised task, signal structure and signal handlers that the kernel starts with.  Fields without an
  initialiser are zero.  Objects of other files are arguments: the credentials, the stack, and the addresses of
  \<open>init_mm\<close>, \<open>init_fs\<close> and \<open>init_files\<close>; \<open>init_struct_pid\<close> has the number 0.
\<close>

definition INIT_TASK :: nat where "INIT_TASK = 0"

definition init_signals :: signal_struct where
  "init_signals =
     \<lparr>sig_nr_threads = 1, live = 0, sigcnt = 0, thread_head = [INIT_TASK], multiprocess = 0, sig_flags = 0, rlim_nproc = 0,
      oom_score_adj = 0, oom_score_adj_min = 0, oom_mm = None, has_child_subreaper = False, is_child_subreaper = False,
      sig_pids = \<lambda>_. Some 0\<rparr>"

text \<open>The 64 actions are \<open>SIG_DFL\<close>.\<close>

definition init_sighand :: sighand_struct where
  "init_sighand = \<lparr>sighand_count = 1, sig_action = replicate 64 0\<rparr>"

definition init_task :: "cred \<Rightarrow> nat \<Rightarrow> nat \<Rightarrow> nat \<Rightarrow> nat \<Rightarrow> nat \<Rightarrow> nat \<Rightarrow> nat \<Rightarrow> task_struct" where
  "init_task init_cred nr_cpus init_stack init_mm init_fs init_files init_signals_addr init_sighand_addr =
     \<lparr>tsk_thread_flags = 0, tsk_state = 0, tsk_stack = Some init_stack, tsk_usage = 2, tsk_flags = PF_KTHREAD, tsk_cpu = 0,
      tsk_static_prio = MAX_PRIO - 20, tsk_nr_cpus_allowed = nr_cpus, tsk_rcu_read_lock_nesting = 0, tsk_rcu_read_unlock_special = 0,
      tsk_rcu_tasks_holdout = False, tsk_rcu_tasks_idle_cpu = - 1, tsk_mm = None,
      tsk_active_mm = Some init_mm, tsk_exit_state = 0, tsk_exit_signal = 0, tsk_pdeath_signal = 0, tsk_atomic_flags = 0,
      tsk_pid = 0, tsk_tgid = 0, tsk_real_parent = INIT_TASK, tsk_parent = INIT_TASK, tsk_children = [],
      tsk_group_leader = INIT_TASK, tsk_thread_pid = Some 0, tsk_vfork_done = False, tsk_set_child_tid = 0, tsk_clear_child_tid = 0,
      tsk_utime = 0, tsk_stime = 0, tsk_gtime = 0, tsk_nvcsw = 0, tsk_nivcsw = 0, tsk_fork_count = 0,
      tsk_start_time = 0, tsk_min_flt = 0, tsk_maj_flt = 0, tsk_cred = init_cred, tsk_comm = ''swapper'',
      tsk_fs = Some init_fs, tsk_files = Some init_files, tsk_signal = init_signals_addr, tsk_sighand = init_sighand_addr,
      tsk_seccomp_mode = 0, tsk_seccomp_filter = None, tsk_pi_waiters = [], tsk_pi_top_task = None, tsk_pi_blocked_on = None,
      tsk_io_context = None, tsk_parent_exec_id = 0, tsk_self_exec_id = 0, tsk_timer_slack_ns = 50000,
      tsk_default_timer_slack_ns = 0, tsk_rseq = 0, tsk_rseq_sig = 0, tsk_rseq_event_mask = 0, tsk_rcu_users = 0, tsk_stack_refcount = 1\<rparr>"

text \<open>
  The first task is a kernel thread of the default priority, runnable, its own parent and the leader of its group, not yet
  marked as idle, and has the number 0, so it is not the process \<open>is_global_init\<close> looks for.
\<close>

lemma init_task_facts:
  fixes init_cred nr_cpus init_stack init_mm init_fs init_files sig sigh
  defines "t \<equiv> init_task init_cred nr_cpus init_stack init_mm init_fs init_files sig sigh"
  shows "task_nice t = 0" "task_state_to_char t = Inr CHR ''R''" "\<not> is_global_init t" "\<not> is_idle_task t" "pid_alive t"
    "\<not> need_resched t" "\<not> task_no_new_privs t"
  by (simp_all add: t_def init_task_def task_nice_def MAX_PRIO_def DEFAULT_PRIO_def task_state_to_char_def task_index_to_char_def
      task_state_index_def state_char_def task_state_defs is_global_init_def task_tgid_nr_def is_idle_task_def PF_IDLE_def PF_KTHREAD_def
      pid_alive_def need_resched_def test_tsk_thread_flag_def task_no_new_privs_def TASK_PFA_TEST_def)

end
