(* ===== verification/Task_Release.thy ===== *)
theory Task_Release
  imports Fork_Child
begin

section \<open>Releasing tasks, process descriptors, start-up (Assignment2-1, fork.c)\<close>

text \<open>
  What \<open>fork.c\<close> does besides creating tasks: dropping the last reference to a task, polling a file that
  stands for a process, and setting the thread limits when the kernel starts.
\<close>

subsection \<open>The last reference\<close>

text \<open>
  The subsystems that are told, \<open>put_seccomp_filter\<close> on the counts of filters, and the profiler that may keep the task.
\<close>

record 'x release_env =
  release_parts :: "nat \<Rightarrow> 'x \<Rightarrow> 'x"
  free_parts :: "nat \<Rightarrow> 'x \<Rightarrow> 'x"
  put_filter :: "nat \<Rightarrow> (nat \<Rightarrow> nat) \<Rightarrow> (nat \<Rightarrow> nat)"
  free_kthread :: "nat \<Rightarrow> 'x \<Rightarrow> 'x"
  profile_handoff :: "nat \<Rightarrow> bool"

definition put_signal_struct :: "nat \<Rightarrow> 'x kern \<Rightarrow> 'x kern" where
  "put_signal_struct a k =
     (let k1 = k\<lparr>signals := upd a (\<lambda>s. s\<lparr>sigcnt := sigcnt s - 1\<rparr>) (signals k)\<rparr> in
      if count_of sigcnt (signals k1 a) = 0 then free_signal_struct a k1 else k1)"

definition free_task :: "'x release_env \<Rightarrow> nat \<Rightarrow> 'x kern \<Rightarrow> 'x kern" where
  "free_task env t k =
     (let tsk = the (tasks k t);
          x = free_parts env t (ext k);
          h = (case tsk_seccomp_filter tsk of None \<Rightarrow> filter_refs k | Some f \<Rightarrow> put_filter env f (filter_refs k));
          x = (if tsk_flags tsk AND PF_KTHREAD \<noteq> 0 then free_kthread env t x else x) in
      free_task_struct t (k\<lparr>ext := x, filter_refs := h, tasks := (tasks k)(t := None)\<rparr>))"

text \<open>Where memory is accounted, the task is freed by a callback after the readers have left: the list of those that wait.\<close>

definition delayed_free_task :: "bool \<Rightarrow> 'x release_env \<Rightarrow> nat \<Rightarrow> nat list \<Rightarrow> 'x kern \<Rightarrow> nat list \<times> 'x kern" where
  "delayed_free_task CONFIG_MEMCG env t waiting k = (if CONFIG_MEMCG then (waiting @ [t], k) else (waiting, free_task env t k))"

definition run_callbacks :: "'x release_env \<Rightarrow> nat list \<Rightarrow> 'x kern \<Rightarrow> 'x kern" where
  "run_callbacks env waiting k = fold (free_task env) waiting k"

definition put_task_struct :: "'x release_env \<Rightarrow> nat \<Rightarrow> 'x kern \<Rightarrow> 'x kern" where
  "put_task_struct env t k =
     (let k1 = put_signal_struct (tsk_signal (the (tasks k t))) (k\<lparr>ext := release_parts env t (ext k)\<rparr>) in
      if profile_handoff env t then k1 else free_task env t k1)"

text \<open>The count of a signal structure stays the number of tasks that use it.\<close>

lemma owners_remove:
  assumes "tasks k t = Some p" and "tasks k' = (tasks k)(t := None)"
  shows "owners f k' a = owners f k a - {t}"
  using assms by (auto simp: owners_def)

lemma mmdrop_fields: "signals (mmdrop m k) = signals k" "tasks (mmdrop m k) = tasks k"
  by (simp_all add: mmdrop_def split: option.splits)

lemma put_signal_count:
  "count_of sigcnt (signals (put_signal_struct a k) b) = (if b = a then count_of sigcnt (signals k a) - 1 else count_of sigcnt (signals k b))"
  by (cases "signals k a")
    (auto simp: put_signal_struct_def free_signal_struct_def Let_def upd_def mmdrop_fields split: option.splits)

lemma put_signal_tasks: "tasks (put_signal_struct a k) = tasks k"
  by (auto simp: put_signal_struct_def free_signal_struct_def Let_def mmdrop_fields split: option.splits)

lemma put_task_keeps_signal_refs:
  assumes "finite (dom (tasks k))" and "tasks k t = Some p" and "tsk_pid p \<noteq> 0" and "\<not> profile_handoff env t"
    and "\<forall>a. count_of sigcnt (signals k a) = card (owners counted_signal k a)"
  shows "\<forall>a. count_of sigcnt (signals (put_task_struct env t k) a) = card (owners counted_signal (put_task_struct env t k) a)"
proof
  fix a
  let ?k = "put_task_struct env t k"
  have "tasks ?k = (tasks k)(t := None)"
    using assms(4) by (simp add: put_task_struct_def free_task_def free_task_struct_def Let_def put_signal_tasks)
  then have own: "owners counted_signal ?k a = owners counted_signal k a - {t}" by (rule owners_remove [OF assms(2)])
  have cnt: "count_of sigcnt (signals ?k a) =
      (if a = tsk_signal p then count_of sigcnt (signals k a) - 1 else count_of sigcnt (signals k a))"
    using assms(2,4) by (simp add: put_task_struct_def free_task_def free_task_struct_def Let_def put_signal_count)
  show "count_of sigcnt (signals ?k a) = card (owners counted_signal ?k a)"
  proof (cases "a = tsk_signal p")
    case True
    then have "t \<in> owners counted_signal k a" using assms(2,3) by (simp add: owners_def counted_signal_def)
    then show ?thesis using True own cnt assms(5) owners_finite [OF assms(1)] by (simp add: card_Diff_singleton)
  next
    case False
    then have "t \<notin> owners counted_signal k a" using assms(2,3) by (simp add: owners_def counted_signal_def)
    then show ?thesis using False own cnt assms(5) by simp
  qed
qed

text \<open>A task that is freed later is freed as it would have been at once.\<close>

lemma delayed_free_same:
  "run_callbacks env (fst (delayed_free_task memcg env t [] k)) (snd (delayed_free_task memcg env t [] k)) = free_task env t k"
  by (simp add: delayed_free_task_def run_callbacks_def)

subsection \<open>Work that is put off\<close>

text \<open>
  Where the last reference to an address space must not be dropped at once, the work goes into a queue: \<open>__mmdrop\<close> or \<open>__mmput\<close>
  on the descriptor at an address.  \<open>unmap\<close> is \<open>exit_mmap\<close>.
\<close>

datatype mm_work = Drop_mm nat | Put_mm nat

definition mmdrop_async :: "nat \<Rightarrow> mm_work list \<times> 'x kern \<Rightarrow> mm_work list \<times> 'x kern" where
  "mmdrop_async a = (\<lambda>(work, k).
     let k1 = k\<lparr>mms := upd a (\<lambda>m. m\<lparr>mm_count := mm_count m - 1\<rparr>) (mms k)\<rparr> in
     case mms k1 a of
       None \<Rightarrow> (work, k)
     | Some m \<Rightarrow> (if mm_count m = 0 then work @ [Drop_mm a] else work, k1))"

definition mmput_async :: "nat \<Rightarrow> mm_work list \<times> 'x kern \<Rightarrow> mm_work list \<times> 'x kern" where
  "mmput_async a = (\<lambda>(work, k).
     let k1 = k\<lparr>mms := upd a (\<lambda>m. m\<lparr>mm_users := mm_users m - 1\<rparr>) (mms k)\<rparr> in
     case mms k1 a of
       None \<Rightarrow> (work, k)
     | Some m \<Rightarrow> (if mm_users m = 0 then work @ [Put_mm a] else work, k1))"

fun mm_work_fn :: "(mm_struct \<Rightarrow> map_refs \<Rightarrow> map_refs) \<Rightarrow> mm_work \<Rightarrow> 'x kern \<Rightarrow> 'x kern" where
  "mm_work_fn unmap (Drop_mm a) k = k\<lparr>mms := (mms k)(a := None)\<rparr>"
| "mm_work_fn unmap (Put_mm a) k = last_mmput unmap a k"

definition run_work :: "(mm_struct \<Rightarrow> map_refs \<Rightarrow> map_refs) \<Rightarrow> mm_work list \<times> 'x kern \<Rightarrow> 'x kern" where
  "run_work unmap = (\<lambda>(work, k). fold (mm_work_fn unmap) work k)"

text \<open>When the queue has been worked off, the kernel is as after the immediate calls.\<close>

lemma async_same:
  "run_work unmap (mmdrop_async a ([], k)) = mmdrop a k"
  "run_work unmap (mmput_async a ([], k)) = mmput unmap a k"
proof -
  show "run_work unmap (mmdrop_async a ([], k)) = mmdrop a k"
    by (cases "mms k a") (auto simp: run_work_def mmdrop_async_def mmdrop_def upd_def)
  show "run_work unmap (mmput_async a ([], k)) = mmput unmap a k"
    by (auto simp: run_work_def mmput_async_def mmput_def Let_def split: option.splits)
qed

subsection \<open>A file for a process\<close>

definition EPOLLIN :: "32 word" where "EPOLLIN = 0x0001"
definition EPOLLRDNORM :: "32 word" where "EPOLLRDNORM = 0x0040"
definition EBADF :: int where "EBADF = 9"

text \<open>\<open>pidfd_pid\<close>: the process a file stands for, if it is such a file.\<close>

definition pidfd_pid :: "bool \<Rightarrow> nat \<Rightarrow> int + nat" where
  "pidfd_pid is_pidfd private_data = (if is_pidfd then Inr private_data else Inl (- EBADF))"

definition thread_group_empty :: "'x kern \<Rightarrow> nat \<Rightarrow> bool" where
  "thread_group_empty k t \<longleftrightarrow> thread_head (the (signals k (tsk_signal (the (tasks k t))))) = [t]"

definition pidfd_poll :: "'x kern \<Rightarrow> nat option \<Rightarrow> 32 word" where
  "pidfd_poll k task =
     (case task of
        None \<Rightarrow> EPOLLIN OR EPOLLRDNORM
      | Some t \<Rightarrow>
          if tsk_exit_state (the (tasks k t)) \<noteq> 0 \<and> thread_group_empty k t then EPOLLIN OR EPOLLRDNORM else 0)"

text \<open>A poll reports an event only when the whole thread group has ended.\<close>

lemma pidfd_poll_iff:
  "pidfd_poll k task \<noteq> 0 \<longleftrightarrow> (\<forall>t. task = Some t \<longrightarrow> tsk_exit_state (the (tasks k t)) \<noteq> 0 \<and> thread_group_empty k t)"
  by (simp add: pidfd_poll_def EPOLLIN_def EPOLLRDNORM_def split: option.splits)

subsection \<open>Start-up\<close>

definition nr_processes :: "nat list \<Rightarrow> (nat \<Rightarrow> int) \<Rightarrow> int" where
  "nr_processes cpus per_cpu_counts = foldl (\<lambda>total cpu. total + per_cpu_counts cpu) 0 cpus"

text \<open>\<open>fork_init\<close>: the thread limit, and half of it as the limit of processes of the first task, at \<open>a\<close>.\<close>

definition fork_init :: "int \<Rightarrow> 64 word \<Rightarrow> 64 word \<Rightarrow> 64 word \<Rightarrow> nat \<Rightarrow> 'x kern \<Rightarrow> 'x kern" where
  "fork_init MAX_THREADS nr_pages page_size thread_size a k =
     (let k1 = set_max_threads MAX_THREADS nr_pages page_size thread_size (word_of_int MAX_THREADS) k in
      k1\<lparr>signals := upd a (\<lambda>s. s\<lparr>rlim_nproc := nat (max_threads k1 div 2)\<rparr>) (signals k1)\<rparr>)"

lemma set_max_threads_bounds:
  assumes "MIN_THREADS \<le> MAX_THREADS"
  shows "MIN_THREADS \<le> max_threads (set_max_threads MAX_THREADS nr_pages page_size thread_size suggested k)"
    and "max_threads (set_max_threads MAX_THREADS nr_pages page_size thread_size suggested k) \<le> MAX_THREADS"
  using assms by (simp_all add: set_max_threads_def Let_def)

text \<open>After \<open>fork_init\<close> the first task may have at least one process.\<close>

lemma fork_init_allows_processes:
  assumes "MIN_THREADS \<le> MAX_THREADS" and "signals k a = Some s"
  shows "0 < rlim_nproc (the (signals (fork_init MAX_THREADS nr_pages page_size thread_size a k) a))"
proof -
  let ?k = "set_max_threads MAX_THREADS nr_pages page_size thread_size (word_of_int MAX_THREADS) k"
  have "20 \<le> max_threads ?k"
    using set_max_threads_bounds(1) [OF assms(1), of nr_pages page_size thread_size "word_of_int MAX_THREADS" k] by (simp add: MIN_THREADS_def)
  moreover have "signals ?k = signals k" by (simp add: set_max_threads_def Let_def)
  ultimately show ?thesis using assms(2) by (simp add: fork_init_def Let_def)
qed

end
