(* ===== verification/Fork_History.thy ===== *)
theory Fork_History
  imports Fork_System First_Task Task_Release
begin

section \<open>Histories of process creation\<close>

text \<open>
  Forks and unshares of any tasks, in any order, as a step relation.  The invariant \<open>system_ok\<close> holds when the kernel starts
  with its first task and in every kernel a history reaches, and no history frees a descendant from the restrictions
  of its ancestors.
\<close>

subsection \<open>Steps and histories\<close>

text \<open>
  One step: some task is scheduled, forks in any of its ways, unshares what it shares, names the word to clear when it ends, or
  changes one of its atomic flags.  The environment of each call is arbitrary, but keeps its promises.
\<close>

inductive kstep :: "'x kern \<Rightarrow> 'x kern \<Rightarrow> bool" where
  step_schedule: "tasks k t \<noteq> None \<Longrightarrow> kstep k (k\<lparr>current := t\<rparr>)"
| step_fork: "subsystems_ok (fork_part env) \<Longrightarrow> fresh (fork_part env) k \<Longrightarrow>
    \<forall>q. thread_group_leader (fork_part env) q \<longleftrightarrow> 0 \<le> tsk_exit_signal q \<Longrightarrow> sane_args args \<Longrightarrow>
    do_fork_main env args k = (r, k') \<Longrightarrow> kstep k k'"
| step_unshare: "unshare_env_ok env \<Longrightarrow> fresh (copies env) k \<Longrightarrow> \<forall>f e. dup_fd (copies env) f = Inl e \<longrightarrow> e \<noteq> 0 \<Longrightarrow>
    ksys_unshare env fl k = (err, k') \<Longrightarrow> kstep k k'"
| step_tid: "set_tid_address vnr tidptr k = (nr, k') \<Longrightarrow> kstep k k'"
| step_flag: "f \<in> set pfa_updates \<Longrightarrow> kstep k (k\<lparr>tasks := upd (current k) f (tasks k)\<rparr>)"

text \<open>Who made whom.\<close>

definition births :: "'x kern \<Rightarrow> 'x kern \<Rightarrow> (nat \<times> nat) set" where
  "births k k' = {(current k, t) |t. tasks k t = None \<and> tasks k' t \<noteq> None}"

inductive history :: "'x kern \<Rightarrow> (nat \<times> nat) set \<Rightarrow> 'x kern \<Rightarrow> bool" where
  history_start: "history k {} k"
| history_step: "history k R k1 \<Longrightarrow> kstep k1 k2 \<Longrightarrow> history k (births k1 k2 \<union> R) k2"

lemma schedule_system:
  assumes "system_ok k" and "tasks k t \<noteq> None"
  shows "system_ok (k\<lparr>current := t\<rparr>)"
proof -
  have "in_use (k\<lparr>current := t\<rparr>) = in_use k" "cache_ok (k\<lparr>current := t\<rparr>) = cache_ok k" by (rule stacks_cong; simp)+
  moreover have "family_of (k\<lparr>current := t\<rparr>) = family_of k" "numbered (k\<lparr>current := t\<rparr>) = numbered k"
    "owners f (k\<lparr>current := t\<rparr>) = owners f k" for f
    by (simp_all add: family_of_def numbered_def owners_def fun_eq_iff)
  ultimately show ?thesis using assms by (simp add: system_ok_def refs_ok_def stacks_ok_def threads_ok_def)
qed

text \<open>What a fork does, in a kernel with the invariant.\<close>

lemma fork_child:
  assumes "system_ok k" and "subsystems_ok (fork_part env)" and "fresh (fork_part env) k"
    and "\<forall>q. thread_group_leader (fork_part env) q \<longleftrightarrow> 0 \<le> tsk_exit_signal q" and "sane_args args"
    and "do_fork_main env args k = (Inr nr, k')"
  shows "\<exists>t p k1. new_child (flags args) t p k k1 \<and> quiet k1 k'
    \<and> (\<forall>u. map_option tsk_atomic_flags (tasks k' u) = map_option tsk_atomic_flags (tasks k1 u))"
proof (rule do_fork_effect [OF assms(6)])
  fix t k1
  note ready = system_ready [OF assms(1,3,2)] system_sane [OF assms(1,5,4)]
  assume run: "copy_process (fork_part env) None (fork_event env args \<noteq> 0) args k = (Inr t, k1)" and "k' = k1\<lparr>tasks := tasks k'\<rparr>"
    "\<forall>u. map_option core (tasks k' u) = map_option core (tasks k1 u)"
    and "\<forall>u. map_option tsk_atomic_flags (tasks k' u) = map_option tsk_atomic_flags (tasks k1 u)"
  then show ?thesis using copy_process_success [OF assms(2) ready run] tail_quiet [where k = k1 and k' = k'] by blast
qed

lemma fork_outcome:
  assumes "system_ok k" and "subsystems_ok (fork_part env)" and "fresh (fork_part env) k"
    and "\<forall>q. thread_group_leader (fork_part env) q \<longleftrightarrow> 0 \<le> tsk_exit_signal q" and "sane_args args"
    and "do_fork_main env args k = (r, k')"
  shows "unchanged k k' \<or> (\<exists>t p k1. new_child (flags args) t p k k1 \<and> quiet k1 k'
    \<and> (\<forall>u. map_option tsk_atomic_flags (tasks k' u) = map_option tsk_atomic_flags (tasks k1 u)))"
proof (cases r)
  case (Inl e)
  then show ?thesis using copy_process_restores [OF assms(2) system_ready [OF assms(1,3,2)]] do_fork_error assms(6) by blast
next
  case (Inr nr)
  then show ?thesis using fork_child [OF assms(1-5)] assms(6) by blast
qed

lemma unshared_system:
  assumes "system_ok k" and "unshared fl k k'"
  shows "system_ok k'"
proof -
  from assms(2) obtain p hs hf r d y where p: "tasks k (current k) = Some p" and r: "tsk_fs p \<noteq> None \<longrightarrow> r \<noteq> None"
    and k': "k' = k\<lparr>fss := hs, filess := hf, ext := y, tasks := (tasks k)(current k \<mapsto> p\<lparr>tsk_fs := r, tsk_files := d\<rparr>)\<rparr>"
    unfolding unshared_def by blast
  have "in_use k' = in_use k" "cache_ok k' = cache_ok k" by (rule stacks_cong; simp add: k')+
  moreover have "kin (p\<lparr>tsk_fs := r, tsk_files := d\<rparr>) = kin p" by (simp add: kin_def)
  then have "family_of k' = family_of k" using p by (auto simp: family_of_def k' fun_eq_iff)
  moreover have "owners number_of k' 0 = owners number_of k 0"
    by (rule owners_same) (use p in \<open>simp add: k' number_of_def\<close>)
  moreover have "owners tsk_stack k' s = owners tsk_stack k s" for s
    by (rule owners_same) (use p in \<open>simp add: k'\<close>)
  ultimately show ?thesis
    using assms(1) unshared_refs [OF assms(2)] p r by (simp add: system_ok_def stacks_ok_def threads_ok_def numbered_owners) (auto simp: k')
qed

lemma unshare_outcome:
  assumes "system_ok k" and "unshare_env_ok env" and "fresh (copies env) k" and "\<forall>f e. dup_fd (copies env) f = Inl e \<longrightarrow> e \<noteq> 0"
    and "ksys_unshare env fl k = (err, k')"
  shows "k' = k \<or> unshared (implied_flags fl) k k'"
proof -
  have "unshare_ready env k"
    using assms(1,4) objects_ready [OF assms(1,3)] by (simp add: unshare_ready_def system_ok_def)
  from unshare_effect [OF assms(2) this assms(5)] show ?thesis by (cases "err = 0") auto
qed

lemma own_quiet:
  assumes "\<And>p. core (f p) = core p"
  shows "quiet k (k\<lparr>tasks := upd (current k) f (tasks k)\<rparr>)"
  by (rule tail_quiet [OF refl]) (simp add: upd_def option.map_comp comp_def assms)

theorem kstep_system:
  assumes "kstep k k'" and "system_ok k"
  shows "system_ok k'"
  using assms
proof (induction rule: kstep.induct)
  case (step_schedule k t)
  then show ?case using schedule_system by blast
next
  case (step_fork env k args r k')
  from fork_outcome [OF step_fork.prems step_fork.hyps] show ?case
    using unchanged_quiet quiet_system child_system step_fork.prems by blast
next
  case (step_unshare env k fl err k')
  from unshare_outcome [OF step_unshare.prems step_unshare.hyps] show ?case
    using unshared_system step_unshare.prems by blast
next
  case (step_tid vnr tidptr k nr k')
  then have "k' = k\<lparr>tasks := upd (current k) (\<lambda>p. p\<lparr>tsk_clear_child_tid := tidptr\<rparr>) (tasks k)\<rparr>"
    by (auto simp: set_tid_address_def Let_def)
  then show ?case using quiet_system [OF own_quiet step_tid.prems] by simp
next
  case (step_flag f k)
  then show ?case using quiet_system [OF own_quiet [of f]] core_pfa by blast
qed

theorem history_system:
  assumes "history k R k'" and "system_ok k"
  shows "system_ok k'"
  using assms by (induction rule: history.induct) (auto intro: kstep_system)

subsection \<open>Restrictions\<close>

text \<open>The restrictions of \<open>p\<close> hold for \<open>q\<close>: the same seccomp mode and filter, and the flags that no function clears.\<close>

definition sticky :: "nat set" where
  "sticky = {PFA_NO_NEW_PRIVS, PFA_SPEC_SSB_FORCE_DISABLE, PFA_SPEC_IB_FORCE_DISABLE}"

definition restricts :: "task_struct \<Rightarrow> task_struct \<Rightarrow> bool" where
  "restricts p q \<longleftrightarrow> tsk_seccomp_mode q = tsk_seccomp_mode p \<and> tsk_seccomp_filter q = tsk_seccomp_filter p
     \<and> (\<forall>n\<in>sticky. TASK_PFA_TEST n p \<longrightarrow> TASK_PFA_TEST n q)"

lemma restricts_refl [simp]: "restricts p p"
  by (simp add: restricts_def)

lemma restricts_trans: "restricts p q \<Longrightarrow> restricts q r \<Longrightarrow> restricts p r"
  by (simp add: restricts_def)

definition keeps_restrictions :: "'x kern \<Rightarrow> 'x kern \<Rightarrow> bool" where
  "keeps_restrictions k k' \<longleftrightarrow> (\<forall>u p. tasks k u = Some p \<longrightarrow> (\<exists>q. tasks k' u = Some q \<and> restricts p q))"

definition restriction :: "task_struct \<Rightarrow> nat \<times> nat option \<times> 64 word" where
  "restriction p = (tsk_seccomp_mode p, tsk_seccomp_filter p, tsk_atomic_flags p)"

lemma restriction_updates [simp]:
  "restriction (p\<lparr>tsk_flags := f\<rparr>) = restriction p" "restriction (p\<lparr>tsk_children := cs\<rparr>) = restriction p"
  by (simp_all add: restriction_def)

lemma keeps_same:
  assumes "\<And>u. tasks k u \<noteq> None \<Longrightarrow> map_option restriction (tasks k' u) = map_option restriction (tasks k u)"
  shows "keeps_restrictions k k'"
  unfolding keeps_restrictions_def
proof (intro allI impI)
  fix u p
  assume "tasks k u = Some p"
  with assms [of u] obtain q where "tasks k' u = Some q" "restriction q = restriction p" by (cases "tasks k' u") auto
  then show "\<exists>q. tasks k' u = Some q \<and> restricts p q" by (auto simp: restriction_def restricts_def TASK_PFA_TEST_def)
qed

lemma restriction_core:
  assumes "map_option core x = map_option core y" and "map_option tsk_atomic_flags x = map_option tsk_atomic_flags y"
  shows "map_option restriction x = map_option restriction y"
proof -
  have "map_option (\<lambda>p. (tsk_seccomp_mode p, tsk_seccomp_filter p)) x = map_option (\<lambda>p. (tsk_seccomp_mode p, tsk_seccomp_filter p)) y"
    by (rule map_field [OF assms(1)]) simp
  then show ?thesis using assms(2) by (cases x; cases y) (simp_all add: restriction_def)
qed

lemma unchanged_keeps:
  assumes "unchanged k k'"
  shows "keeps_restrictions k k'" and "births k k' = {}"
proof -
  have "map_option restriction (tasks (clear_nproc k) u) = map_option restriction (tasks k u)" for u
    by (simp add: clear_nproc_def upd_def option.map_comp comp_def)
  then have same: "map_option restriction (tasks k' u) = map_option restriction (tasks k u)" for u
    using assms unfolding unchanged_def same_but_stacks_def by (elim disjE conjE exE) simp_all
  then show "keeps_restrictions k k'" using keeps_same by blast
  have "tasks k' u = None \<longleftrightarrow> tasks k u = None" for u using same [of u] by (metis map_option_is_None)
  then show "births k k' = {}" by (auto simp: births_def)
qed

text \<open>A fork keeps the restrictions of the others and gives those of the calling task to the new one.\<close>

lemma child_keeps:
  assumes "new_child fl t p k k1" and "quiet k1 k'" and "\<forall>u. map_option tsk_atomic_flags (tasks k' u) = map_option tsk_atomic_flags (tasks k1 u)"
    and c: "tasks k (current k) = Some c"
  shows "keeps_restrictions k k'" and "births k k' = {(current k, t)}" and "\<exists>q. tasks k' t = Some q \<and> restricts c q"
proof -
  have link: "child_linked fl t p k k1" and res: "child_restricted fl p k" using assms(1) by (simp_all add: new_child_def)
  have new: "tasks k t = None" "tasks k1 t = Some p" using link by (simp_all add: child_linked_def)
  have tail: "map_option restriction (tasks k' u) = map_option restriction (tasks k1 u)" for u
    by (rule restriction_core) (use assms(2,3) in \<open>simp_all add: quiet_def\<close>)
  have none: "tasks k' u = None \<longleftrightarrow> tasks k1 u = None" for u using tail [of u] by (metis map_option_is_None)
  have others: "map_option restriction (tasks k1 u) = map_option restriction (tasks k u)" if "u \<noteq> t" for u
    using link that by (auto simp: child_linked_def clear_nproc_def upd_def option.map_comp comp_def)
  show "keeps_restrictions k k'"
  proof (rule keeps_same)
    show "map_option restriction (tasks k' u) = map_option restriction (tasks k u)" if "tasks k u \<noteq> None" for u
      using tail [of u] others [of u] new(1) that by (cases "u = t") simp_all
  qed
  have "tasks k1 u = None \<longleftrightarrow> tasks k u = None" if "u \<noteq> t" for u using others [OF that] by (metis map_option_is_None)
  then have "tasks k u = None \<and> tasks k' u \<noteq> None \<longleftrightarrow> u = t" for u
    using none [of u] new by (cases "u = t") auto
  then show "births k k' = {(current k, t)}" by (auto simp: births_def)
  obtain q where "tasks k' t = Some q" "restriction q = restriction p" using tail [of t] new(2) by (cases "tasks k' t") auto
  moreover have "restricts c p" using res c by (simp add: child_restricted_def restricts_def)
  ultimately show "\<exists>q. tasks k' t = Some q \<and> restricts c q" by (auto simp: restriction_def restricts_def TASK_PFA_TEST_def)
qed

lemma kstep_keeps:
  assumes "kstep k k'" and "system_ok k"
  shows "keeps_restrictions k k' \<and> (\<forall>(a, b)\<in>births k k'. \<exists>p q. tasks k a = Some p \<and> tasks k' b = Some q \<and> restricts p q)
    \<and> (\<exists>t. births k k' \<subseteq> {(current k, t)})"
  using assms
proof (induction rule: kstep.induct)
  case (step_schedule k t)
  have "births k (k\<lparr>current := t\<rparr>) = {}" by (auto simp: births_def)
  moreover have "keeps_restrictions k (k\<lparr>current := t\<rparr>)" by (rule keeps_same) simp
  ultimately show ?case by simp
next
  case (step_fork env k args r k')
  obtain c where c: "tasks k (current k) = Some c" using step_fork.prems by (auto simp: system_ok_def)
  from fork_outcome [OF step_fork.prems step_fork.hyps] show ?case
  proof (elim disjE exE conjE)
    fix t p k1
    assume "new_child (flags args) t p k k1" "quiet k1 k'"
      "\<forall>u. map_option tsk_atomic_flags (tasks k' u) = map_option tsk_atomic_flags (tasks k1 u)"
    from child_keeps [OF this c] show ?thesis using c by auto
  qed (simp add: unchanged_keeps)
next
  case (step_unshare env k fl err k')
  from unshare_outcome [OF step_unshare.prems step_unshare.hyps]
  have same: "map_option restriction (tasks k' u) = map_option restriction (tasks k u)" for u
    by (auto simp: unshared_def restriction_def)
  then have "tasks k' u = None \<longleftrightarrow> tasks k u = None" for u by (metis map_option_is_None)
  then show ?case using keeps_same [OF same] by (auto simp: births_def)
next
  case (step_tid vnr tidptr k nr k')
  then have "k' = k\<lparr>tasks := upd (current k) (\<lambda>p. p\<lparr>tsk_clear_child_tid := tidptr\<rparr>) (tasks k)\<rparr>"
    by (auto simp: set_tid_address_def Let_def)
  then show ?case
    by (auto simp: keeps_restrictions_def births_def upd_def restricts_def TASK_PFA_TEST_def split: if_splits)
next
  case (step_flag f k)
  have "tsk_seccomp_mode (f p) = tsk_seccomp_mode p" "tsk_seccomp_filter (f p) = tsk_seccomp_filter p" for p
    using step_flag.hyps by (auto simp: pfa_updates_def pfa_update_defs TASK_PFA_SET_def TASK_PFA_CLEAR_def)
  then have "restricts p (f p)" for p using sticky_step [OF step_flag.hyps] by (simp add: restricts_def sticky_def)
  then show ?case by (auto simp: keeps_restrictions_def births_def upd_def)
qed

text \<open>The tasks in the record of births exist.\<close>

lemma history_tasks:
  assumes "history k R k'" and "system_ok k"
  shows "\<forall>(a, b)\<in>R. tasks k' a \<noteq> None \<and> tasks k' b \<noteq> None"
  using assms
proof (induction rule: history.induct)
  case (history_step k R k1 k2)
  note keep = kstep_keeps [OF history_step.hyps(2) history_system [OF history_step.hyps(1) history_step.prems]]
  have old: "tasks k2 u \<noteq> None" if "tasks k1 u \<noteq> None" for u
    using keep that unfolding keeps_restrictions_def by (metis not_Some_eq)
  moreover have "\<forall>(a, b)\<in>births k1 k2. tasks k1 a \<noteq> None \<and> tasks k2 b \<noteq> None" using keep by fastforce
  ultimately show ?case using history_step.IH [OF history_step.prems] by fastforce
qed simp

text \<open>Whoever descends from a task has its restrictions, however many forks lie between.\<close>

lemma history_restricts:
  assumes "history k R k'" and "system_ok k" and "tasks k t = Some p" and "(t, u) \<in> R\<^sup>*"
  shows "\<exists>q. tasks k' u = Some q \<and> restricts p q"
  using assms
proof (induction arbitrary: u rule: history.induct)
  case (history_step k R k1 k2)
  note sys = history_system [OF history_step.hyps(1) history_step.prems(1)]
  note keep = kstep_keeps [OF history_step.hyps(2) sys]
  have old: "\<exists>q. tasks k2 v = Some q \<and> restricts p q" if "(t, v) \<in> R\<^sup>*" for v
    using history_step.IH [OF history_step.prems(1,2) that] keep restricts_trans unfolding keeps_restrictions_def by blast
  obtain n where n: "births k1 k2 = {} \<or> births k1 k2 = {(current k1, n)}" using keep by blast
  show ?case
  proof (cases "births k1 k2 = {}")
    case True
    then show ?thesis using old history_step.prems(3) by simp
  next
    case False
    then have b: "births k1 k2 = {(current k1, n)}" using n by simp
    then have "tasks k1 n = None" by (auto simp: births_def)
    then have "n \<notin> Domain R" using history_tasks [OF history_step.hyps(1) history_step.prems(1)] by fastforce
    then have "(n, u) \<in> R\<^sup>* \<longleftrightarrow> u = n" by (metis Not_Domain_rtrancl rtrancl.rtrancl_refl)
    then consider "(t, u) \<in> R\<^sup>*" | "(t, current k1) \<in> R\<^sup>*" "u = n" using history_step.prems(3) by (auto simp: b rtrancl_insert)
    then show ?thesis
    proof cases
      case 2
      obtain q where q: "tasks k1 (current k1) = Some q" "restricts p q" using history_step.IH [OF history_step.prems(1,2) 2(1)] by blast
      moreover obtain r where "tasks k2 n = Some r" "restricts q r" using keep b q(1) by auto
      ultimately show ?thesis using 2(2) restricts_trans by blast
    qed (rule old)
  qed
qed auto

subsection \<open>Start-up\<close>

text \<open>
  The kernel with the first task only, its objects of other files as arguments.  No task has \<open>init_mm\<close> as its own
  address space, so it is not among those that are counted.
\<close>

definition first_kern ::
  "cred \<Rightarrow> nat \<Rightarrow> nat \<Rightarrow> nat \<Rightarrow> nat \<times> fs_struct \<Rightarrow> nat \<times> files_struct \<Rightarrow> nat \<Rightarrow> nat \<Rightarrow> map_refs \<Rightarrow> (nat \<times> nat \<Rightarrow> nat) \<Rightarrow> 'x \<Rightarrow> 'x kern" where
  "first_kern init_cred nr_cpus init_stack init_mm init_fs init_files sig sigh refs zone x =
     \<lparr>tasks = [INIT_TASK \<mapsto> init_task init_cred nr_cpus init_stack init_mm (fst init_fs) (fst init_files) sig sigh],
      task_slab = \<lambda>_. False, task_list = [], mms = Map.empty, fss = [fst init_fs \<mapsto> snd init_fs],
      filess = [fst init_files \<mapsto> snd init_files], sighands = [sigh \<mapsto> init_sighand], signals = [sig \<mapsto> init_signals],
      maps = refs, stacks = \<lambda>s. s = init_stack, cached_stacks = replicate NR_CACHED_STACKS None,
      acct = \<lparr>page_zone = zone, page_memcg = \<lambda>_. None, zone_kb = \<lambda>_. 0, memcg_kb = \<lambda>_. 0\<rparr>, filter_refs = \<lambda>_. 0,
      nr_threads = 0, max_threads = 0, total_forks = 0, process_counts = 0, current = INIT_TASK, ext = x\<rparr>"

lemma first_owners:
  "tasks k = [t \<mapsto> p] \<Longrightarrow> owners f k a = (if f p = Some a then {t} else {})"
  by (auto simp: owners_def)

text \<open>A single task that is its own parent is a well-formed family.\<close>

lemma single_family:
  assumes "tasks k = [t \<mapsto> p]" and "tsk_real_parent p = t" "tsk_group_leader p = t" "0 \<le> tsk_exit_signal p" "tsk_children p = []"
    and "map_option thread_head (signals k (tsk_signal p)) = Some [t]" and "task_list k = (if tsk_pid p = 0 then [] else [t])"
  shows "wf_family (family_of k)"
proof -
  have "ranked (family_of k) (\<lambda>_. 0)" using assms by (auto simp: ranked_def)
  then show ?thesis
    using assms by (auto simp: wf_family_def kin_ok_def group_ok_def children_ok_def)
qed

lemma boot_system:
  assumes "MIN_THREADS \<le> MAX_THREADS" and "fs_users (snd init_fs) = 1" and "files_count (snd init_files) = 1"
  shows "system_ok (fork_init MAX_THREADS nr_pages page_size thread_size sig
    (first_kern init_cred nr_cpus init_stack init_mm init_fs init_files sig sigh refs zone x))"
    (is "system_ok ?k")
proof -
  let ?p = "init_task init_cred nr_cpus init_stack init_mm (fst init_fs) (fst init_files) sig sigh"
  define j where "j = first_kern init_cred nr_cpus init_stack init_mm init_fs init_files sig sigh refs zone x"
  obtain m s where k: "?k = j\<lparr>max_threads := m, signals := [sig \<mapsto> s]\<rparr>" and s: "sigcnt s = 0" "thread_head s = [INIT_TASK]"
    and "0 \<le> m"
  proof -
    define m where "m = max_threads (set_max_threads MAX_THREADS nr_pages page_size thread_size (word_of_int MAX_THREADS) j)"
    have "set_max_threads MAX_THREADS nr_pages page_size thread_size (word_of_int MAX_THREADS) j = j\<lparr>max_threads := m\<rparr>"
      by (simp add: m_def set_max_threads_def Let_def)
    moreover have "signals j = [sig \<mapsto> init_signals]" by (simp add: j_def first_kern_def)
    ultimately have "?k = j\<lparr>max_threads := m, signals := [sig \<mapsto> init_signals\<lparr>rlim_nproc := nat (m div 2)\<rparr>]\<rparr>"
      by (simp add: fork_init_def upd_def flip: j_def)
    moreover have "0 \<le> m" using set_max_threads_bounds(1) [OF assms(1)] unfolding m_def MIN_THREADS_def by (rule order_trans [rotated]) simp
    ultimately show ?thesis using that by (simp add: init_signals_def)
  qed
  let ?j = "j\<lparr>max_threads := m, signals := [sig \<mapsto> s]\<rparr>"
  have t: "tasks ?j = [INIT_TASK \<mapsto> ?p]" by (simp add: j_def first_kern_def)
  note own = first_owners [OF t]
  have "refs_ok ?j"
    using assms(2,3) s unfolding refs_ok_def own
    by (simp add: j_def first_kern_def init_task_def init_sighand_def counted_signal_def)
  moreover have "wf_family (family_of ?j)"
    by (rule single_family [OF t]) (simp_all add: s j_def first_kern_def init_task_def INIT_TASK_def)
  moreover have "stacks_ok ?j"
    unfolding stacks_ok_def own t
    by (simp add: j_def first_kern_def init_task_def cache_ok_def cached_list_def in_use_def uncharged_def NR_CACHED_STACKS_def numeral_2_eq_2)
  moreover have "threads_ok ?j"
    using \<open>0 \<le> m\<close> unfolding threads_ok_def numbered_def t by (simp add: j_def first_kern_def init_task_def)
  ultimately show ?thesis
    unfolding system_ok_def k t by (simp add: j_def first_kern_def init_task_def)
qed

end
