(* ===== verification/Fork_Progress.thy ===== *)
theory Fork_Progress
  imports Fork_Child
begin

section \<open>When a fork succeeds\<close>

text \<open>
  The converse of the error paths of \<open>copy_process\<close>: if no allocation, limit or subsystem refuses,
  every step succeeds and a new task is made.
\<close>

definition plenty :: "'x resource \<Rightarrow> bool" where
  "plenty r \<longleftrightarrow> (\<forall>x. fst (acquire r x) = 0)"

definition mm_plenty :: "mm_env \<Rightarrow> bool" where
  "mm_plenty env \<longleftrightarrow> new_mm env \<noteq> None \<and> pgd_ok env \<and> context_err env = 0 \<and> \<not> mmap_killed env \<and> ksm_err env = 0
     \<and> khugepaged_err env = 0 \<and> (\<forall>i. \<not> vma_fatal env i \<and> vma_enough env i \<and> vma_alloc env i \<and> vma_policy_err env i = 0
         \<and> vma_uffd_err env i = 0 \<and> vma_anon_ok env i \<and> vma_copy_err env i = 0) \<and> arch_dup_err env = 0 \<and> binfmt_ok env"

definition fork_plenty :: "'x fork_env \<Rightarrow> bool" where
  "fork_plenty env \<longleftrightarrow> mm_plenty (mm_part env) \<and> \<not> sig_pending env \<and> alloc_task env \<noteq> None \<and> vmalloc_stack env \<noteq> None
     \<and> (\<forall>pg. fst (memcg_charge env pg) = 0) \<and> arch_dup_task_err env = 0 \<and> plenty (creds env) \<and> plenty (mempolicy env) \<and> sched_fork env = 0
     \<and> plenty (perf_event env) \<and> plenty (audit_context env) \<and> plenty (security env) \<and> plenty (semundo env)
     \<and> (\<forall>f. \<exists>b g. dup_fd env f = Inr (b, g)) \<and> (\<forall>f. copy_fs_struct env f \<noteq> None)
     \<and> new_sighand env \<noteq> None \<and> new_signal env \<noteq> None \<and> plenty (namespaces env)
     \<and> (\<forall>x. fst (get_task_io_context env x) \<noteq> None) \<and> plenty (thread_tls env)
     \<and> (\<forall>x. \<exists>nr x'. alloc_pid env x = (Inr nr, x')) \<and> plenty (unused_fd env) \<and> plenty (pid_file env) \<and> put_user_err env = 0
     \<and> plenty (cgroup env) \<and> pidns_adding env \<and> \<not> fatal_pending env"

text \<open>The limits on the number of threads and of the user's processes, and no \<open>exec\<close> in a sharer of the root directory.\<close>

definition within_limits :: "'x fork_env \<Rightarrow> 64 word \<Rightarrow> 'x kern \<Rightarrow> bool" where
  "within_limits env fl k \<longleftrightarrow> nr_threads k < max_threads k
     \<and> (\<forall>x. user_processes env x (cred_user (tsk_cred (cur k))) < rlim_nproc (cur_signal k))
     \<and> (has fl CLONE_FS \<longrightarrow> \<not> in_exec (the (fss k (the (tsk_fs (cur k))))))"

subsection \<open>Steps that succeed\<close>

definition works :: "('x kern \<Rightarrow> bool) \<Rightarrow> 'x stage \<Rightarrow> ('x kern \<Rightarrow> bool) \<Rightarrow> bool" where
  "works P st Q \<longleftrightarrow> (\<forall>k p. P k \<longrightarrow> (\<exists>p' k'. st k p = (Inr p', k') \<and> Q k'))"

lemma works_attempt: "works P acq Q \<Longrightarrow> works Q rest R \<Longrightarrow> works P (attempt acq rel rest) R"
  unfolding works_def attempt_success by blast

lemma works_chain: "works P acq P \<Longrightarrow> works P rest R \<Longrightarrow> works P (attempt acq rel rest) R"
  by (rule works_attempt)

lemma works_simple:
  "works P (assign f) P" "(\<And>k. P k \<Longrightarrow> g k = 0) \<Longrightarrow> works P (check g) P" "(b \<Longrightarrow> works P st P) \<Longrightarrow> works P (only_if b st) P"
  by (auto simp: works_def assign_def check_def only_if_def)

text \<open>What the steps leave: the tasks, the thread counts and, before \<open>copy_fs\<close>, the file system structures.\<close>

definition keeps :: "bool \<Rightarrow> 'x kern \<Rightarrow> 'x kern \<Rightarrow> bool" where
  "keeps b k0 k \<longleftrightarrow> tasks k = tasks k0 \<and> current k = current k0 \<and> nr_threads k = nr_threads k0 \<and> max_threads k = max_threads k0
     \<and> (b \<longrightarrow> fss k = fss k0)"

lemma keeps_trans: "keeps b k0 k \<Longrightarrow> keeps b k k1 \<Longrightarrow> keeps b k0 k1"
  by (simp add: keeps_def)

lemma keeps_updates [simp]:
  "keeps b k0 (k\<lparr>ext := x\<rparr>) = keeps b k0 k" "keeps b k0 (k\<lparr>filess := hf\<rparr>) = keeps b k0 k" "keeps b k0 (k\<lparr>sighands := hh\<rparr>) = keeps b k0 k"
  "keeps b k0 (k\<lparr>signals := hg\<rparr>) = keeps b k0 k" "keeps b k0 (k\<lparr>mms := hm\<rparr>) = keeps b k0 k"
  by (simp_all add: keeps_def)

lemma acquire_works:
  assumes "plenty r"
  shows "works (keeps b k0) (acquire_ext r) (keeps b k0)"
proof -
  have "\<exists>x'. acquire r x = (0, x')" for x using assms unfolding plenty_def by (metis prod.collapse)
  have "\<exists>p' k'. acquire_ext r k p = (Inr p', k') \<and> keeps b k0 k'" if "keeps b k0 k" for k p
  proof -
    obtain x where "acquire r (ext k) = (0, x)" using \<open>\<And>x. \<exists>x'. acquire r x = (0, x')\<close> by blast
    then show ?thesis using that by (simp add: acquire_ext_def)
  qed
  then show ?thesis by (simp add: works_def)
qed

lemma dup_vmas_works: "mm_plenty env \<Longrightarrow> fst (dup_vmas env a i vs m r) = 0"
  by (induction env a i vs m r rule: dup_vmas.induct) (auto simp: mm_plenty_def Let_def)

lemma dup_mmap_works: "mm_plenty env \<Longrightarrow> fst (dup_mmap env a mm old r) = 0"
  using dup_vmas_works [of env a 0] by (auto simp: dup_mmap_def Let_def mm_plenty_def split: prod.splits) (metis fst_conv)

lemma dup_mm_works:
  assumes "mm_plenty env"
  shows "\<exists>a k'. dup_mm env t old k = (Some a, k') \<and> keeps True k k'"
proof -
  obtain a m where "new_mm env = Some a" "mm_init env (Some t) (Option.bind (tsk_mm (cur k)) (mms k)) (the (mms k old)) = Some m" "binfmt_ok env"
    using assms by (auto simp: mm_plenty_def mm_init_def Let_def)
  moreover obtain m1 r where "dup_mmap env a m (the (mms k old)) (maps k) = (0, m1, r)"
    using dup_mmap_works [OF assms, of a m "the (mms k old)" "maps k"] by (metis prod.collapse)
  ultimately show ?thesis by (simp add: dup_mm_def keeps_def)
qed

lemma copy_mm_works:
  assumes "mm_plenty env"
  shows "works (keeps b k0) (copy_mm env fl t) (keeps b k0)"
proof -
  have "\<exists>p' k'. copy_mm env fl t k p = (Inr p', k') \<and> keeps b k0 k'" if "keeps b k0 k" for k p
  proof (cases "tsk_mm (cur k)")
    case (Some old)
    obtain a k' where dup: "dup_mm env t old k = (Some a, k')" "keeps True k k'" using dup_mm_works [OF assms] by blast
    then have "keeps b k0 k'" using that by (simp add: keeps_def)
    then show ?thesis using that Some dup(1) by (simp add: copy_mm_def mmget_def Let_def)
  qed (use that in \<open>simp add: copy_mm_def\<close>)
  then show ?thesis by (simp add: works_def)
qed

lemma copy_files_works:
  assumes "\<forall>f. \<exists>b g. dup_fd env f = Inr (b, g)"
  shows "works (keeps b k0) (copy_files env fl) (keeps b k0)"
proof -
  have "\<exists>p' k'. copy_files env fl k p = (Inr p', k') \<and> keeps b k0 k'" if "keeps b k0 k" for k p
  proof (cases "tsk_files (cur k)")
    case (Some a)
    obtain c g where "dup_fd env (the (filess k a)) = Inr (c, g)" using assms by blast
    then show ?thesis using that Some by (simp add: copy_files_def)
  qed (use that in \<open>simp add: copy_files_def\<close>)
  then show ?thesis by (simp add: works_def)
qed

lemma copy_fs_works:
  assumes "\<forall>f. copy_fs_struct env f \<noteq> None" and "has fl CLONE_FS \<longrightarrow> \<not> in_exec (the (fss k0 (the (tsk_fs (cur k0)))))"
  shows "works (keeps True k0) (copy_fs env fl) (keeps False k0)"
proof -
  have "\<exists>p' k'. copy_fs env fl k p = (Inr p', k') \<and> keeps False k0 k'" if k: "keeps True k0 k" for k p
  proof -
    obtain c g where "copy_fs_struct env (the (fss k (the (tsk_fs (cur k))))) = Some (c, g)"
      using assms(1) by (metis not_None_eq surj_pair)
    then show ?thesis using assms(2) k by (simp add: copy_fs_def Let_def keeps_def)
  qed
  then show ?thesis by (simp add: works_def)
qed

lemma copy_signals_work:
  assumes "new_sighand env \<noteq> None" and "new_signal env \<noteq> None"
  shows "works (keeps b k0) (copy_sighand env fl) (keeps b k0)" "works (keeps b k0) (copy_signal env fl t) (keeps b k0)"
  using assms by (auto simp: works_def copy_sighand_def copy_signal_def)

lemma copy_io_works:
  assumes "\<forall>x. fst (get_task_io_context env x) \<noteq> None"
  shows "works (keeps b k0) (copy_io env fl) (keeps b k0)"
proof -
  have "\<exists>p' k'. copy_io env fl k p = (Inr p', k') \<and> keeps b k0 k'" if "keeps b k0 k" for k p
  proof (cases "tsk_io_context (cur k)")
    case (Some a)
    obtain c x where "get_task_io_context env (ext k) = (Some c, x)" using assms by (metis not_None_eq prod.collapse)
    then show ?thesis using that Some by (simp add: copy_io_def)
  qed (use that in \<open>simp add: copy_io_def\<close>)
  then show ?thesis by (simp add: works_def)
qed

lemma take_pid_works:
  assumes "\<forall>x. \<exists>nr x'. alloc_pid env x = (Inr nr, x')"
  shows "works (keeps b k0) (take_pid env pid) (keeps b k0)"
proof -
  have "\<exists>p' k'. take_pid env pid k p = (Inr p', k') \<and> keeps b k0 k'" if "keeps b k0 k" for k p
  proof (cases pid)
    case None
    obtain nr x where "alloc_pid env (ext k) = (Inr nr, x)" using assms by blast
    then show ?thesis using that None by (simp add: take_pid_def)
  qed (use that in \<open>simp add: take_pid_def\<close>)
  then show ?thesis by (simp add: works_def)
qed

lemma copy_creds_works: "plenty (creds env) \<Longrightarrow> works (keeps b k0) (copy_creds env) (keeps b k0)"
  unfolding copy_creds_def by (intro works_chain acquire_works works_simple)

lemma delayacct_works: "works (keeps b k0) (start_delayacct env) (keeps b k0)"
  by (simp add: works_def start_delayacct_def)

lemma copy_seccomp_works: "works (keeps b k0) (copy_seccomp env) (keeps b k0)"
  by (simp add: works_def copy_seccomp_def keeps_def take_filter_def split: option.splits)

subsection \<open>All steps\<close>

lemmas steps_work = copy_mm_works copy_files_works copy_signals_work copy_io_works take_pid_works copy_creds_works delayacct_works
  copy_seccomp_works  acquire_works works_simple

lemma late_work: "fork_plenty env \<Longrightarrow> works (keeps b k0) (late_steps env args pid t) (keeps b k0)"
  unfolding late_steps_def Let_def by (intro works_chain steps_work) (auto simp: fork_plenty_def last_checks_def)

lemma shared_work:
  assumes "fork_plenty env" and "has fl CLONE_FS \<longrightarrow> \<not> in_exec (the (fss k0 (the (tsk_fs (cur k0)))))"
    and "works (keeps False k0) rest R"
  shows "works (keeps True k0) (shared_steps env fl t rest) R"
  unfolding shared_steps_def
  by (rule works_chain works_attempt [where Q = "keeps False k0"] steps_work copy_fs_works assms; use assms in \<open>simp add: fork_plenty_def\<close>)+

lemma early_work:
  assumes "fork_plenty env" and "nr_threads k0 < max_threads k0" and "works (keeps b k0) rest R"
  shows "works (keeps b k0) (early_steps env rest) R"
  unfolding early_steps_def
  by (intro works_chain steps_work assms(3)) (use assms in \<open>auto simp: fork_plenty_def too_many_threads_def keeps_def\<close>)

lemma charge_works: "(\<And>pg. fst (f pg) = 0) \<Longrightarrow> fst (charge_pages f pgs a) = 0"
  by (induction f pgs a rule: charge_pages.induct) (auto simp: Let_def split: prod.splits, metis fst_conv)

lemma dup_task_works:
  assumes "fork_plenty env"
  shows "\<exists>t p k'. dup_task_struct env orig k = (Some (t, p), k')"
proof -
  obtain t s where env: "alloc_task env = Some t" "vmalloc_stack env = Some s" "arch_dup_task_err env = 0" "\<And>pg. fst (memcg_charge env pg) = 0"
    using assms by (auto simp: fork_plenty_def)
  obtain s' k1 where alloc: "alloc_thread_stack_node (vmalloc_stack env) (k\<lparr>task_slab := (task_slab k)(t := True)\<rparr>) = (Some s', k1)"
    using env(2) by (cases "take_cached (cached_stacks k)") (auto simp: alloc_thread_stack_node_def)
  have "fst (memcg_charge_kernel_stack (memcg_charge env) s' (acct k1)) = 0"
    unfolding memcg_charge_kernel_stack_def by (rule charge_works) (rule env(4))
  then obtain a where "memcg_charge_kernel_stack (memcg_charge env) s' (acct k1) = (0, a)"
    by (cases "memcg_charge_kernel_stack (memcg_charge env) s' (acct k1)") simp
  then show ?thesis using env(1,3) alloc by (simp add: dup_task_struct_def)
qed

lemma delay_max_threads: "max_threads (delay_signals fl k) = max_threads k"
  by (simp add: delay_signals_def)

lemma fork_progress:
  assumes "fork_plenty env" and "fork_ready env k" and "within_limits env (flags args) k" and "\<not> bad_clone_flags env k (flags args)"
  shows "\<exists>t k'. copy_process env pid trace args k = (Inr t, k')"
proof -
  let ?fl = "flags args" and ?k1 = "delay_signals (flags args) k"
  obtain c s where cur: "tasks k (current k) = Some c" "signals k (tsk_signal c) = Some s"
    using assms(2) by (auto simp: fork_ready_def)
  obtain t p0 k2 where dup: "dup_task_struct env (cur ?k1) ?k1 = (Some (t, p0), k2)"
    using dup_task_works [OF assms(1)] by blast
  have "\<forall>s. vmalloc_stack env = Some s \<longrightarrow> \<not> stacks ?k1 s" "\<forall>s. \<not> in_use ?k1 s \<longrightarrow> uncharged s (acct ?k1)" "cache_ok ?k1"
    using assms(2) by (auto simp: fork_ready_def)
  note made = dup_task_Some [OF dup this]
  obtain st where p0: "p0 = own_fields st (cur k)" using made(2) by auto
  obtain sl c2 st2 a2 where k2: "k2 = ?k1\<lparr>task_slab := sl, cached_stacks := c2, stacks := st2, acct := a2\<rparr>" using made(3) by blast
  have "rlim_nproc (the (signals ?k1 (tsk_signal c))) = rlim_nproc s"
    using cur by (simp add: delay_signals_def)
  then have "\<not> nproc_refused env (rt_mutex_init_task (set_tids args p0)) k2"
    using assms(3) cur by (auto simp: nproc_refused_def p0 k2 within_limits_def not_le)
  moreover have "\<exists>p1 k3. fork_steps env args pid t (clear_nproc k2) (rt_mutex_init_task (set_tids args p0)) = (Inr p1, k3)"
  proof -
    have "works (keeps True (clear_nproc k2)) (fork_steps env args pid t) (keeps False (clear_nproc k2))"
      unfolding fork_steps_def
      using assms(1,3) cur by (intro early_work shared_work late_work) (auto simp: within_limits_def k2 clear_nproc_def delay_counts delay_max_threads)
    moreover have "keeps True (clear_nproc k2) (clear_nproc k2)" by (simp add: keeps_def)
    ultimately show ?thesis unfolding works_def by blast
  qed
  ultimately show ?thesis
    using dup assms(1,4) by (auto simp: copy_process_def Let_def fork_plenty_def)
qed

end
