(* ===== verification/Fork_Samples.thy ===== *)
theory Fork_Samples
  imports Do_Fork Fork_History Fork_Progress
begin

section \<open>A concrete kernel\<close>

text \<open>
  One user process, and subsystems that count the resources they have handed out: the concrete kernel at which the theorems
  on process creation are applied.
\<close>

definition counted :: "nat resource" where
  "counted = \<lparr>acquire = \<lambda>x. (0, x + 1), release = \<lambda>x. x - 1\<rparr>"

definition exhausted :: "nat resource" where
  "exhausted = \<lparr>acquire = \<lambda>x. (- EAGAIN, x), release = \<lambda>x. x\<rparr>"

definition put_count :: "('a \<Rightarrow> nat) \<Rightarrow> ('a \<Rightarrow> 'a) \<Rightarrow> nat \<Rightarrow> (nat \<Rightarrow> 'a option) \<Rightarrow> nat \<Rightarrow> 'a option" where
  "put_count cnt dec a h = (case h a of None \<Rightarrow> h | Some f \<Rightarrow> h(a := if cnt f \<le> 1 then None else Some (dec f)))"

definition sample_mm_env :: mm_env where
  "sample_mm_env = \<lparr>new_mm = Some 51, pgd_ok = True, context_err = 0, mmap_killed = False, ksm_err = 0, khugepaged_err = 0,
     vma_fatal = \<lambda>_. False, vma_enough = \<lambda>_. True, vma_alloc = \<lambda>_. True, vma_policy_err = \<lambda>_. 0, vma_uffd_err = \<lambda>_. 0,
     vma_anon_ok = \<lambda>_. True, vma_copy_err = \<lambda>_. 0, arch_dup_err = 0, binfmt_ok = True, vma_pages = \<lambda>_ _. 1,
     inode_of = \<lambda>f. f, mapping_of = \<lambda>f. f, stat_account = \<lambda>_ _ c. c, exit_mmap = \<lambda>_ r. r, flags_mask = 0xff,
     def_mask = 0, dump_filter = 0\<rparr>"

definition sample_mm_part :: mm_env where
  "sample_mm_part = sample_mm_env\<lparr>exit_mmap := \<lambda>m r. fold (release_vma sample_mm_env) (mm_mmap m) r\<rparr>"

definition sample_fork_env :: "nat resource \<Rightarrow> nat fork_env" where
  "sample_fork_env cgroup_part = \<lparr>mm_part = sample_mm_part, pid_ns_differs = False, sig_pending = False, alloc_task = Some 2, vmalloc_stack = Some 62,
     memcg_charge = \<lambda>_. (0, Some 3), arch_dup_task_err = 0, user_processes = \<lambda>_ _. 1, init_user = 0, capable = False, creds = counted, new_cred = \<lambda>c. c,
     delayacct_init = \<lambda>x. x + 1, delayacct_free = \<lambda>x. x - 1, mempolicy = counted, sched_fork = 0, perf_event = counted,
     audit_context = counted, security = counted, semundo = counted,
     dup_fd = \<lambda>f. Inr (11, f\<lparr>files_count := 1\<rparr>), put_files = put_count files_count (\<lambda>f. f\<lparr>files_count := files_count f - 1\<rparr>),
     copy_fs_struct = \<lambda>f. Some (21, f\<lparr>fs_users := 1\<rparr>), put_fs = put_count fs_users (\<lambda>f. f\<lparr>fs_users := fs_users f - 1\<rparr>),
     new_sighand = Some 31, new_signal = Some 41, namespaces = counted, ioprio_valid = \<lambda>_. True,
     ioc_task_link = \<lambda>_ x. x + 1, get_task_io_context = \<lambda>x. (Some 71, x + 1), exit_io_context = \<lambda>_ x. x - 1,
     thread_tls = counted, alloc_pid = \<lambda>x. (Inr 8, x + 1), free_pid = \<lambda>_ x. x - 1, unused_fd = counted, pid_file = counted,
     put_user_err = 0, cgroup = cgroup_part, start_ns = 1000, get_seccomp_filter = \<lambda>a h. h(a := h a + 1), put_seccomp_filter = \<lambda>a h. h(a := h a - 1), pidns_adding = True, fatal_pending = False,
     ptrace_parent = \<lambda>p _. tsk_real_parent p, thread_group_leader = \<lambda>p. 0 \<le> tsk_exit_signal p, child_reaper = False\<rparr>"

definition sample_mm :: mm_struct where
  "sample_mm = \<lparr>mm_mmap = [\<lparr>vm_start = 0x400000, vm_end = 0x401000, vm_flags = 5, vm_file = Some 81, vm_mm = 50\<rparr>],
     mm_users = 1, mm_count = 1, mmap_readers = 0, map_count = 1, locked_vm = 0,
     mm_counters = \<lparr>total_vm = 1, data_vm = 0, exec_vm = 1, stack_vm = 0\<rparr>, mm_flags = 0, def_flags = 0, exe_file = Some 81,
     mm_owner = Some 1, mm_code = (0x400000, 0x400800), mm_data = (0x600000, 0x600100), mm_brk = (0x700000, 0x701000), binfmt = None\<rparr>"

text \<open>A process that must not gain privileges and runs under the seccomp filter 5.\<close>

definition sample_user_task :: task_struct where
  "sample_user_task = (init_task \<lparr>cred_user = 5, cred_uid = 1000, cred_gid = 1000\<rparr> 1 61 0 20 10 40 30)
     \<lparr>tsk_flags := 0, tsk_mm := Some 50, tsk_active_mm := Some 50, tsk_pid := 7, tsk_tgid := 7, tsk_real_parent := 1, tsk_parent := 1,
      tsk_group_leader := 1, tsk_exit_signal := 17, tsk_io_context := Some 70, tsk_seccomp_mode := 2, tsk_seccomp_filter := Some 5,
      tsk_atomic_flags := 1\<rparr>"

definition sample_signal :: signal_struct where
  "sample_signal = \<lparr>sig_nr_threads = 1, live = 1, sigcnt = 1, thread_head = [1], multiprocess = 0, sig_flags = 0, rlim_nproc = 100,
     oom_score_adj = 0, oom_score_adj_min = 0, oom_mm = None, has_child_subreaper = False, is_child_subreaper = False,
     sig_pids = \<lambda>_. Some 7\<rparr>"

definition sample_kern :: "nat kern" where
  "sample_kern = \<lparr>tasks = [1 \<mapsto> sample_user_task], task_slab = \<lambda>t. t = 1, task_list = [1], mms = [50 \<mapsto> sample_mm],
     fss = [20 \<mapsto> \<lparr>fs_users = 1, in_exec = False\<rparr>], filess = [10 \<mapsto> \<lparr>files_count = 1, fd_array = [Some 90]\<rparr>],
     sighands = [30 \<mapsto> \<lparr>sighand_count = 1, sig_action = []\<rparr>], signals = [40 \<mapsto> sample_signal],
     maps = \<lparr>file_refs = \<lambda>_. 1, i_writecount = \<lambda>_. 0, i_mmap_writable = \<lambda>_. 0, i_mmap = \<lambda>_. 0, committed = 0, vm_areas = 1\<rparr>,
     stacks = \<lambda>s. s = 61, cached_stacks = [None, None],
     acct = \<lparr>page_zone = \<lambda>_. 0, page_memcg = \<lambda>_. None, zone_kb = \<lambda>_. 16, memcg_kb = \<lambda>_. 0\<rparr>, filter_refs = \<lambda>a. if a = 5 then 2 else 0,
     nr_threads = 1, max_threads = 100, total_forks = 1, process_counts = 1, current = 1, ext = 0\<rparr>"

lemma sample_task_fields [simp]:
  "tsk_flags sample_user_task = 0" "tsk_mm sample_user_task = Some 50" "tsk_pid sample_user_task = 7" "tsk_real_parent sample_user_task = 1"
  "tsk_group_leader sample_user_task = 1" "tsk_exit_signal sample_user_task = 17" "tsk_children sample_user_task = []"
  "tsk_fs sample_user_task = Some 20" "tsk_files sample_user_task = Some 10" "tsk_signal sample_user_task = 40"
  "tsk_sighand sample_user_task = 30" "tsk_stack sample_user_task = Some 61" "tsk_seccomp_filter sample_user_task = Some 5"
  "tsk_seccomp_mode sample_user_task = 2" "tsk_fork_count sample_user_task = 0" "tsk_comm sample_user_task = ''swapper''"
  "TASK_PFA_TEST n sample_user_task \<longleftrightarrow> n = PFA_NO_NEW_PRIVS"
  by (auto simp: sample_user_task_def init_task_def TASK_PFA_TEST_def PFA_NO_NEW_PRIVS_def bit_1_iff)

lemma counted_ok: "resource_ok counted" "resource_ok exhausted"
  by (simp_all add: resource_ok_def counted_def exhausted_def errno_defs)

lemma put_count_ok: "h a = Some f \<Longrightarrow> put_count cnt dec a h = h(a := if cnt f \<le> 1 then None else Some (dec f))"
  by (simp add: put_count_def)

lemma sample_release: "release_vma sample_mm_part = release_vma sample_mm_env"
  by (simp add: fun_eq_iff release_vma_def link_file_def vma_charge_def sample_mm_part_def Let_def split: option.splits)

lemma sample_subsystems: "resource_ok r \<Longrightarrow> subsystems_ok (sample_fork_env r)"
  by (simp add: subsystems_ok_def sample_fork_env_def counted_ok io_ok_def pid_ok_def put_files_ok_def put_fs_ok_def put_count_ok
      exit_mmap_ok_def sample_release seccomp_ok_def) (simp add: sample_mm_part_def)

lemma sample_system: "system_ok sample_kern"
proof -
  have t: "tasks sample_kern = [1 \<mapsto> sample_user_task]" by (simp add: sample_kern_def)
  note own = first_owners [OF t]
  have "refs_ok sample_kern"
    unfolding refs_ok_def own by (simp add: sample_kern_def sample_mm_def sample_signal_def counted_signal_def)
  moreover have "wf_family (family_of sample_kern)"
    by (rule single_family [OF t]) (simp_all add: sample_kern_def sample_signal_def)
  moreover have "stacks_ok sample_kern"
    unfolding stacks_ok_def own t by (simp add: sample_kern_def cache_ok_def cached_list_def in_use_def uncharged_def)
  moreover have "threads_ok sample_kern"
    unfolding threads_ok_def numbered_def t by (simp add: sample_kern_def)
  ultimately show ?thesis unfolding system_ok_def t by (simp add: sample_kern_def)
qed

lemma sample_fresh: "fresh (sample_fork_env r) sample_kern"
  by (simp add: fresh_def sample_fork_env_def sample_kern_def sample_mm_part_def sample_mm_env_def sample_mm_def)

lemma sample_leader: "thread_group_leader (sample_fork_env r) q \<longleftrightarrow> 0 \<le> tsk_exit_signal q"
  by (simp add: sample_fork_env_def)

lemma sample_ready: "fork_ready (sample_fork_env counted) sample_kern" "fork_ready (sample_fork_env exhausted) sample_kern"
  by (rule system_ready [OF sample_system sample_fresh sample_subsystems [OF counted_ok(1)]])
    (rule system_ready [OF sample_system sample_fresh sample_subsystems [OF counted_ok(2)]])

lemma sample_sane: "sane_args args \<Longrightarrow> fork_sane (sample_fork_env r) args sample_kern"
  by (rule system_sane [OF sample_system]) (simp_all add: sample_leader)

lemma sample_plenty: "fork_plenty (sample_fork_env counted)"
  by (simp add: fork_plenty_def mm_plenty_def plenty_def sample_fork_env_def sample_mm_part_def sample_mm_env_def counted_def)

lemma sample_limits: "within_limits (sample_fork_env r) fl sample_kern"
  by (simp add: within_limits_def sample_fork_env_def sample_kern_def sample_signal_def)

lemma sample_flags: "\<not> bad_clone_flags env k 0"
  by (simp add: bad_clone_flags_def has_def CLONE_NEWNS_def CLONE_FS_def CLONE_NEWUSER_def)

text \<open>When the control groups refuse every task, no fork succeeds.\<close>

lemma cgroup_refuses:
  assumes "\<forall>x. fst (acquire (cgroup env) x) \<noteq> 0"
  shows "\<exists>e k'. copy_process env pid trace args k = (Inl e, k')"
proof -
  have "\<not> (\<exists>p1 k1. attempt (acquire_ext (cgroup env)) rel rest k p = (Inr p1, k1))" for rel rest k p
    using assms unfolding attempt_success acquire_success by (metis fst_conv)
  then have "\<not> (\<exists>p1 k1. fork_steps env args pid t k p = (Inr p1, k1))" for t k p
    unfolding fork_steps_def early_steps_def shared_steps_def late_steps_def Let_def attempt_success by blast
  moreover have "\<exists>p1 k1. st k p = (Inr p1, k1)" if "\<not> (\<exists>e k1. st k p = (Inl e, k1))" for st :: "'a stage" and k p
    using that by (metis old.sum.exhaust surj_pair)
  ultimately show ?thesis
    by (auto simp: copy_process_def Let_def split: prod.splits option.splits sum.splits)
qed

subsection \<open>The main routine\<close>

definition sample_do_env :: "nat resource \<Rightarrow> nat do_env" where
  "sample_do_env r = \<lparr>fork_part = sample_fork_env r, ptrace_event_enabled = \<lambda>_. False, pid_vnr = \<lambda>n. n, wake_state = 0, vfork_killed = False\<rparr>"

lemma sample_do_part [simp]: "fork_part (sample_do_env r) = sample_fork_env r"
  by (simp add: sample_do_env_def)

lemma sample_plain [simp]: "flags (plain_args fl) = fl" "sane_args (plain_args 0)"
  by (simp_all add: plain_args_def sane_args_def SIGCHLD_def has_def)

text \<open>The process forks.\<close>

lemma sample_forks:
  obtains nr k' where "do_fork_main (sample_do_env counted) (plain_args 0) sample_kern = (Inr nr, k')"
proof -
  obtain t k1 where "copy_process (sample_fork_env counted) None (fork_event (sample_do_env counted) (plain_args 0) \<noteq> 0) (plain_args 0) sample_kern = (Inr t, k1)"
    using fork_progress [OF sample_plenty sample_ready(1) sample_limits, of "plain_args 0"] by (metis sample_flags sample_plain(1))
  then show ?thesis using that by (simp add: do_fork_main_def Let_def)
qed

lemma sample_kstep: "do_fork_main (sample_do_env counted) (plain_args 0) sample_kern = (r, k') \<Longrightarrow> kstep sample_kern k'"
  by (rule step_fork [of "sample_do_env counted" _ "plain_args 0"])
    (simp_all add: sample_subsystems [OF counted_ok(1)] sample_fresh sample_leader)

end
