(* ===== verification/Fork_Properties.thy ===== *)
theory Fork_Properties
  imports Fork_Samples
begin

section \<open>Process creation: properties\<close>

text \<open>
  The main theorems on process creation: one call of \<open>copy_process\<close>, \<open>_do_fork\<close> or \<open>unshare\<close>, histories of such calls from the
  first task on, and the walk over the processes they make.
\<close>

text \<open>C4. A fork that fails has no effect: whatever step of copy_process fails, and for whatever reason, everything
  acquired before it is released, so that the kernel is as it was, but for the cached thread stacks and the
  PF_NPROC_EXCEEDED flag of the caller.  The subsystems outside fork.c are assumed to undo what they did.\<close>
theorem fork_undo:
  assumes "subsystems_ok env" and "fork_ready env k" and "copy_process env pid trace args k = (Inl e, k')"
  shows "unchanged k k'"
  using copy_process_restores [OF assms] .

theorem fork_undo_witness:
  "\<exists>e k'. copy_process (sample_fork_env exhausted) None False (plain_args 0) sample_kern = (Inl e, k') \<and> unchanged sample_kern k'"
proof -
  have "\<forall>x. fst (acquire (cgroup (sample_fork_env exhausted)) x) \<noteq> 0"
    by (simp add: sample_fork_env_def exhausted_def errno_defs)
  from cgroup_refuses [OF this, of None False "plain_args 0" sample_kern] obtain e k'
    where run: "copy_process (sample_fork_env exhausted) None False (plain_args 0) sample_kern = (Inl e, k')" by blast
  then show ?thesis using fork_undo [OF sample_subsystems [OF counted_ok(2)] sample_ready(2) run] by blast
qed

text \<open>C5. A fork succeeds when no limit is reached and nothing runs out, and then makes exactly one new task: linked under
  its parent, in the task list and among the threads of its group, sharing with the caller the parts whose
  clone flag is set and owning fresh copies of the others, each count one higher where the new task points, on a kernel
  stack that was not in use, with no pending reschedule, lock or reader section, and under the restrictions of the caller.\<close>
theorem fork_makes_child:
  assumes "subsystems_ok env" and "fork_ready env k" and "fork_sane env args k"
    and "fork_plenty env" and "within_limits env (flags args) k" and "\<not> bad_clone_flags env k (flags args)"
  shows "\<exists>t p k'. copy_process env None trace args k = (Inr t, k') \<and> new_child (flags args) t p k k' \<and> tsk_thread_pid p = Some (tsk_pid p)"
  using fork_progress [OF assms(4,2,5,6), of None trace] copy_process_success [OF assms(1-3), of trace] by blast

theorem fork_makes_child_witness:
  "\<exists>t p k'. copy_process (sample_fork_env counted) None False (plain_args 0) sample_kern = (Inr t, k') \<and> new_child 0 t p sample_kern k'
    \<and> tsk_thread_pid p = Some (tsk_pid p)"
  using fork_makes_child [of "sample_fork_env counted" sample_kern "plain_args 0" False]
    sample_subsystems [OF counted_ok(1)] sample_ready(1) sample_sane [of "plain_args 0"] sample_plenty sample_limits [of counted 0]
    sample_flags [of "sample_fork_env counted" sample_kern] by simp

text \<open>C7. Whatever happens after start-up: in every kernel that forks, unshares and task switches reach from the first task, by any
  tasks in any order and with any of the calls failing, every reference count of a file table, file system structure,
  signal handler table, signal structure or address space is the number of tasks that point to it, the processes form a
  tree with correct child and thread lists, every task has its own kernel stack, and there are no more threads than the limit.\<close>
theorem reachable_system:
  assumes "MIN_THREADS \<le> MAX_THREADS" and "fs_users (snd init_fs) = 1" and "files_count (snd init_files) = 1"
    and "history (fork_init MAX_THREADS nr_pages page_size thread_size sig
           (first_kern init_cred nr_cpus init_stack init_mm init_fs init_files sig sigh refs zone x)) R k"
  shows "system_ok k"
  using history_system [OF assms(4) boot_system [OF assms(1-3)]] .

text \<open>The first task of a small machine forks.\<close>

definition sample_boot :: "nat kern" where
  "sample_boot = fork_init 1000 4096 4096 16384 40 (first_kern \<lparr>cred_user = 0, cred_uid = 0, cred_gid = 0\<rparr> 1 61 0
     (20, \<lparr>fs_users = 1, in_exec = False\<rparr>) (10, \<lparr>files_count = 1, fd_array = []\<rparr>) 40 30
     \<lparr>file_refs = \<lambda>_. 0, i_writecount = \<lambda>_. 0, i_mmap_writable = \<lambda>_. 0, i_mmap = \<lambda>_. 0, committed = 0, vm_areas = 0\<rparr> (\<lambda>_. 0) 0)"

lemma sample_boot_fields:
  "tasks sample_boot = [INIT_TASK \<mapsto> init_task \<lparr>cred_user = 0, cred_uid = 0, cred_gid = 0\<rparr> 1 61 0 20 10 40 30]" "current sample_boot = INIT_TASK"
  "signals sample_boot = [40 \<mapsto> init_signals\<lparr>rlim_nproc := 64\<rparr>]" "max_threads sample_boot = 128" "nr_threads sample_boot = 0"
  "fss sample_boot = [20 \<mapsto> \<lparr>fs_users = 1, in_exec = False\<rparr>]" "filess sample_boot = [10 \<mapsto> \<lparr>files_count = 1, fd_array = []\<rparr>]"
  "sighands sample_boot = [30 \<mapsto> init_sighand]" "mms sample_boot = Map.empty" "task_slab sample_boot = (\<lambda>_. False)"
  "stacks sample_boot = (\<lambda>s. s = 61)"
  using fls_nat_le [of 4096 13] by (simp_all add: sample_boot_def fork_init_def set_max_threads_def first_kern_def MIN_THREADS_def upd_def Let_def)

theorem reachable_system_witness:
  "\<exists>nr k'. do_fork_main (sample_do_env counted) (plain_args 0) sample_boot = (Inr nr, k') \<and> system_ok k'"
proof -
  note boot = sample_boot_fields and ok = sample_subsystems [OF counted_ok(1)]
  have sys: "system_ok sample_boot" unfolding sample_boot_def by (rule boot_system) (simp_all add: MIN_THREADS_def)
  have fresh: "fresh (sample_fork_env counted) sample_boot"
    by (simp add: fresh_def boot sample_fork_env_def sample_mm_part_def sample_mm_env_def INIT_TASK_def)
  have "within_limits (sample_fork_env counted) (flags (plain_args 0)) sample_boot"
    by (simp add: within_limits_def boot sample_fork_env_def init_task_def)
  from fork_progress [OF sample_plenty system_ready [OF sys fresh ok] this, of None]
  obtain t k1 where "copy_process (sample_fork_env counted) None (fork_event (sample_do_env counted) (plain_args 0) \<noteq> 0) (plain_args 0) sample_boot = (Inr t, k1)"
    using sample_flags by (metis sample_plain(1))
  then obtain nr k' where run: "do_fork_main (sample_do_env counted) (plain_args 0) sample_boot = (Inr nr, k')"
    by (simp add: do_fork_main_def Let_def)
  have "kstep sample_boot k'"
    by (rule step_fork [of "sample_do_env counted" _ "plain_args 0" "Inr nr"]) (simp_all add: run ok fresh sample_leader)
  from history_step [OF history_start this] have "system_ok k'"
    unfolding sample_boot_def by (rule reachable_system [rotated 3]) (simp_all add: MIN_THREADS_def)
  with run show ?thesis by blast
qed

text \<open>C11. Forking is no way out of a sandbox: however many forks, unshares and switches lie between, every descendant of a task
  runs under the seccomp mode and filter that the task had, and has the no-new-privileges flag and the forced speculation
  controls if the task had them.\<close>
theorem descendants_restricted:
  assumes "system_ok k" and "history k R k'" and "tasks k t = Some p" and "(t, u) \<in> R\<^sup>*"
  shows "\<exists>q. tasks k' u = Some q \<and> tsk_seccomp_mode q = tsk_seccomp_mode p \<and> tsk_seccomp_filter q = tsk_seccomp_filter p
    \<and> (\<forall>n\<in>{PFA_NO_NEW_PRIVS, PFA_SPEC_SSB_FORCE_DISABLE, PFA_SPEC_IB_FORCE_DISABLE}. TASK_PFA_TEST n p \<longrightarrow> TASK_PFA_TEST n q)"
  using history_restricts [OF assms(2,1,3,4)] unfolding restricts_def sticky_def .

theorem descendants_restricted_witness:
  "\<exists>R k' t q. history sample_kern R k' \<and> t \<noteq> 1 \<and> (1, t) \<in> R \<and> tasks k' t = Some q
     \<and> tsk_seccomp_mode q = 2 \<and> tsk_seccomp_filter q = Some 5 \<and> TASK_PFA_TEST PFA_NO_NEW_PRIVS q"
proof -
  obtain nr k' where run: "do_fork_main (sample_do_env counted) (plain_args 0) sample_kern = (Inr nr, k')" by (rule sample_forks)
  have c: "tasks sample_kern (current sample_kern) = Some sample_user_task" "current sample_kern = 1" by (simp_all add: sample_kern_def)
  obtain t p k1 where "new_child (flags (plain_args 0)) t p sample_kern k1" "quiet k1 k'"
    "\<forall>u. map_option tsk_atomic_flags (tasks k' u) = map_option tsk_atomic_flags (tasks k1 u)"
    using fork_child [OF sample_system _ _ _ sample_plain(2) run] sample_subsystems [OF counted_ok(1)] sample_fresh sample_leader by auto
  from child_keeps(2) [OF this c(1)] have births: "births sample_kern k' = {(1, t)}" using c(2) by simp
  then have "(1, t) \<in> births sample_kern k'" by simp
  then have "t \<noteq> 1" using c by (auto simp: births_def)
  have "history sample_kern {(1, t)} k'" using history_step [OF history_start sample_kstep [OF run]] by (simp add: births)
  moreover from descendants_restricted [OF sample_system this, of 1 sample_user_task t] c
  have "\<exists>q. tasks k' t = Some q \<and> tsk_seccomp_mode q = 2 \<and> tsk_seccomp_filter q = Some 5 \<and> TASK_PFA_TEST PFA_NO_NEW_PRIVS q" by auto
  ultimately show ?thesis using \<open>t \<noteq> 1\<close> by blast
qed

text \<open>C19. The fork counter of the project: a successful _do_fork gives the new task the count 0, adds one to the count of the
  calling task and leaves the counts of all other tasks; a failed one leaves all counts.\<close>
theorem fork_counts:
  assumes "subsystems_ok (fork_part env)" and "fork_ready (fork_part env) k" and "fork_sane (fork_part env) args k"
    and "do_fork_main env args k = (r, k')"
  shows "case r of
      Inl _ \<Rightarrow> (\<forall>u. map_option tsk_fork_count (tasks k' u) = map_option tsk_fork_count (tasks k u))
    | Inr _ \<Rightarrow> (\<exists>t. tasks k t = None \<and> map_option tsk_fork_count (tasks k' t) = Some 0
        \<and> (\<forall>u. u \<noteq> t \<longrightarrow> map_option tsk_fork_count (tasks k' u)
              = map_option (\<lambda>p. if u = current k then tsk_fork_count p + 1 else tsk_fork_count p) (tasks k u)))"
proof (cases r)
  case (Inl e)
  from copy_process_restores [OF assms(1,2) do_fork_error [OF assms(4) [unfolded Inl]]] show ?thesis
    using Inl by (auto simp: unchanged_def same_but_stacks_def clear_nproc_def upd_def option.map_comp comp_def)
next
  case (Inr nr)
  show ?thesis
  proof (rule do_fork_effect [OF assms(4) [unfolded Inr]])
    fix t k1
    assume run: "copy_process (fork_part env) None (fork_event env args \<noteq> 0) args k = (Inr t, k1)"
      and counts: "t \<noteq> current k1 \<longrightarrow> (\<forall>u. map_option tsk_fork_count (tasks k' u) =
         map_option (\<lambda>p. if u = t then 0 else if u = current k1 then tsk_fork_count p + 1 else tsk_fork_count p) (tasks k1 u))"
    obtain p where link: "child_linked (flags args) t p k k1" using copy_process_success [OF assms(1-3) run] by (auto simp: new_child_def)
    have "t \<noteq> current k1" using link assms(2) by (auto simp: child_linked_def fork_ready_def)
    with counts link show ?thesis
      by (auto simp: Inr child_linked_def clear_nproc_def upd_def option.map_comp comp_def intro!: exI [of _ t])
  qed
qed

theorem fork_counts_witness:
  "\<exists>t nr k'. do_fork_main (sample_do_env counted) (plain_args 0) sample_kern = (Inr nr, k') \<and> t \<noteq> 1
     \<and> map_option tsk_fork_count (tasks k' t) = Some 0 \<and> map_option tsk_fork_count (tasks k' 1) = Some 1"
proof -
  obtain nr k' where run: "do_fork_main (sample_do_env counted) (plain_args 0) sample_kern = (Inr nr, k')" by (rule sample_forks)
  have k: "tasks sample_kern 1 = Some sample_user_task" "current sample_kern = 1" "tsk_fork_count sample_user_task = 0"
    by (simp_all add: sample_kern_def)
  have "fork_sane (sample_fork_env counted) (plain_args 0) sample_kern" by (simp add: sample_sane)
  from fork_counts [of "sample_do_env counted", unfolded sample_do_part, OF sample_subsystems [OF counted_ok(1)] sample_ready(1) this run]
  obtain t where t: "tasks sample_kern t = None" "map_option tsk_fork_count (tasks k' t) = Some 0"
    and rest: "\<forall>u. u \<noteq> t \<longrightarrow> map_option tsk_fork_count (tasks k' u)
        = map_option (\<lambda>p. if u = current sample_kern then tsk_fork_count p + 1 else tsk_fork_count p) (tasks sample_kern u)"
    unfolding sum.case by blast
  have "t \<noteq> 1" using t(1) k by auto
  moreover have "map_option tsk_fork_count (tasks k' 1) = Some 1"
    using rest [rule_format, of 1] \<open>t \<noteq> 1\<close> k by simp
  ultimately show ?thesis using run t(2) by blast
qed

text \<open>C36. Every way into _do_fork passes well-formed arguments: the exit signal fits in the low byte and the flag word has no
  signal bits, for the fork, vfork, clone and kernel thread calls whatever the flags, and for clone3 whenever its checks pass.\<close>
theorem clone_args_sane:
  "sane_args (plain_args 0) \<and> sane_args (plain_args (CLONE_VFORK OR CLONE_VM)) \<and> sane_args (do_fork_args fl stk sz ptid ctid)
   \<and> sane_args (clone_syscall_args fl stk ptid ctid tls_value) \<and> sane_args (kernel_thread_args fn arg fl)
   \<and> (case copy_clone_args_from_user page_size valid_signal uargs usize of Inl _ \<Rightarrow> True
       | Inr a \<Rightarrow> (case clone3_args_valid access_ok a of None \<Rightarrow> True | Some b \<Rightarrow> sane_args b))"
proof (intro conjI)
  show "sane_args (plain_args 0)" "sane_args (plain_args (CLONE_VFORK OR CLONE_VM))"
    by (simp_all add: sane_args_def plain_args_def SIGCHLD_def has_def CLONE_VFORK_def CLONE_VM_def CSIGNAL_def)
  show "sane_args (do_fork_args fl stk sz ptid ctid)" "sane_args (clone_syscall_args fl stk ptid ctid tls_value)" "sane_args (kernel_thread_args fn arg fl)"
    using masked_signal [of "lower_32_bits fl"] unmasked_flags
    by (simp_all add: sane_args_def do_fork_args_def clone_syscall_args_def kernel_thread_args_def)
qed (auto split: sum.splits option.splits intro: clone3_sane)

text \<open>C16. unshare is all or nothing: an error leaves the kernel exactly as it was; on success every reference count is still the
  number of tasks that point to the object, and the caller is the only user of its file system structure or file
  table if it asked for that.\<close>
theorem unshare_all_or_nothing:
  assumes "unshare_env_ok env" and "unshare_ready env k" and "refs_ok k" and "ksys_unshare env fl k = (err, k')"
  shows "refs_ok k' \<and> (err \<noteq> 0 \<longrightarrow> k' = k)
    \<and> (err = 0 \<and> has (implied_flags fl) CLONE_FS \<longrightarrow> (\<forall>a. tsk_fs (cur k') = Some a \<longrightarrow> owners tsk_fs k' a = {current k'}))
    \<and> (err = 0 \<and> has (implied_flags fl) CLONE_FILES \<longrightarrow> (\<forall>a. tsk_files (cur k') = Some a \<longrightarrow> owners tsk_files k' a = {current k'}))"
proof -
  note effect = unshare_effect [OF assms(1,2,4)]
  show ?thesis
  proof (cases "err = 0")
    case True
    with effect have un: "unshared (implied_flags fl) k k'" by simp
    note refs = unshared_refs [OF un assms(3)]
    from un obtain p where p: "tasks k' (current k') = Some p" unfolding unshared_def by auto
    have own: "owners f k' a = {current k'}" if "f p = Some a" "card (owners f k' a) = 1" for f a
    proof -
      have "current k' \<in> owners f k' a" using p that by (simp add: owners_def)
      then show ?thesis using that(2) by (metis card_1_singletonE singletonD)
    qed
    from un have "has (implied_flags fl) CLONE_FS \<longrightarrow> (\<forall>a. tsk_fs p = Some a \<longrightarrow> count_of fs_users (fss k' a) = 1)"
      "has (implied_flags fl) CLONE_FILES \<longrightarrow> (\<forall>a. tsk_files p = Some a \<longrightarrow> count_of files_count (filess k' a) = 1)"
      unfolding unshared_def using p by auto
    with refs p own show ?thesis using True by (auto simp: refs_ok_def)
  qed (use effect assms(3) in auto)
qed

definition sample_unshare_env :: "nat unshare_env" where
  "sample_unshare_env = \<lparr>copies = sample_fork_env counted, group_empty = True, single_threaded = False,
     unshare_userns = \<lambda>_ x. (Inr None, x), unshare_nsproxy = \<lambda>_ _ _ x. (Inr None, x), put_cred = \<lambda>_ x. x, commit_creds = \<lambda>_ x. x,
     switch_namespaces = \<lambda>_ x. x, exit_sem = \<lambda>x. x, exit_shm = \<lambda>x. x, shm_init_task = \<lambda>x. x, perf_event_namespaces = \<lambda>x. x\<rparr>"

text \<open>The process and a second one that shares its file table.\<close>

definition sample_sharing :: "nat kern" where
  "sample_sharing = sample_kern\<lparr>tasks := [1 \<mapsto> sample_user_task,
       2 \<mapsto> sample_user_task\<lparr>tsk_fs := Some 22, tsk_sighand := 32, tsk_signal := 42, tsk_mm := None\<rparr>],
     filess := [10 \<mapsto> \<lparr>files_count = 2, fd_array = [Some 90]\<rparr>],
     fss := (fss sample_kern)(22 \<mapsto> \<lparr>fs_users = 1, in_exec = False\<rparr>),
     sighands := (sighands sample_kern)(32 \<mapsto> \<lparr>sighand_count = 1, sig_action = []\<rparr>),
     signals := (signals sample_kern)(42 \<mapsto> the (signals sample_kern 40))\<rparr>"

lemma sample_sharing_refs: "refs_ok sample_sharing"
proof -
  let ?q = "sample_user_task\<lparr>tsk_fs := Some 22, tsk_sighand := 32, tsk_signal := 42, tsk_mm := None\<rparr>"
  have "owners f sample_sharing a = (if f sample_user_task = Some a then {1} else {}) \<union> (if f ?q = Some a then {2} else {})" for f a
    by (auto simp: owners_def sample_sharing_def split: if_splits)
  then show ?thesis
    by (auto simp: refs_ok_def sample_sharing_def sample_kern_def sample_mm_def sample_signal_def counted_signal_def)
qed

lemmas clone_flag_values = CLONE_THREAD_def CLONE_FS_def CLONE_NEWNS_def CLONE_SIGHAND_def CLONE_VM_def CLONE_FILES_def CLONE_SYSVSEM_def
  CLONE_NEWUTS_def CLONE_NEWIPC_def CLONE_NEWNET_def CLONE_NEWUSER_def CLONE_NEWPID_def CLONE_NEWCGROUP_def

theorem unshare_all_or_nothing_witness:
  "fst (ksys_unshare sample_unshare_env CLONE_FILES sample_sharing) = 0
   \<and> (let k' = snd (ksys_unshare sample_unshare_env CLONE_FILES sample_sharing) in
      refs_ok k' \<and> tsk_files (cur k') = Some 11 \<and> owners tsk_files k' 11 = {1})"
proof -
  let ?r = "ksys_unshare sample_unshare_env CLONE_FILES sample_sharing"
  have ok: "unshare_env_ok sample_unshare_env" "unshare_ready sample_unshare_env sample_sharing"
    using sample_subsystems [OF counted_ok(1)]
    by (simp_all add: unshare_env_ok_def unshare_ready_def sample_unshare_env_def subsystems_ok_def files_ready_def fs_ready_def
      sample_sharing_def sample_kern_def sample_fork_env_def)
  have "fst ?r = 0" "tsk_files (cur (snd ?r)) = Some 11" "current (snd ?r) = 1" "has (implied_flags CLONE_FILES) CLONE_FILES"
    by (simp_all add: ksys_unshare_def implied_flags_def check_unshare_flags_def unshare_fs_def unshare_fd_def install_unshared_def
      leave_namespaces_def install_fs_def install_fd_def free_fs_opt_def put_files_opt_def upd_def has_def clone_flag_values
      sample_unshare_env_def sample_sharing_def sample_kern_def sample_fork_env_def)
  then show ?thesis
    using unshare_all_or_nothing [OF ok sample_sharing_refs prod.collapse [symmetric], of CLONE_FILES] by (simp add: Let_def)
qed

text \<open>C9. walk_process_tree, which has no recursion and climbs by parent pointers, ends and meets the processes below a thread's
  process exactly once each and in the order of the recursive walk: parents before children, in the order of the lists,
  skipping what is below a process for which the visitor returns 0 and stopping at the first negative result.  That the
  processes form such a tree is part of the invariant of every kernel that forks reach.\<close>
theorem walk_visits_descendants:
  assumes "wf_family (family_of k)" and "finite (dom (tasks k))" and "tasks k t = Some p"
  shows "\<exists>ss. tree_ok k (Node (tsk_group_leader p) ss) \<and> distinct (concat (map preorder ss))
    \<and> set (concat (map preorder ss)) = below k (tsk_group_leader p)
    \<and> (\<forall>visitor d. walk_process_tree k t visitor d = Inr (snd (visit_all visitor ss d)))"
  by (rule walk_below [OF assms]) blast

text \<open>Four processes: 1 has the children 2 and 3, and 2 has the child 4.\<close>

definition sample_family :: "nat kern" where
  "sample_family = (let p = sample_user_task in sample_kern\<lparr>
     tasks := [1 \<mapsto> p\<lparr>tsk_children := [2, 3]\<rparr>, 2 \<mapsto> p\<lparr>tsk_children := [4], tsk_signal := 42, tsk_group_leader := 2\<rparr>,
               3 \<mapsto> p\<lparr>tsk_signal := 43, tsk_group_leader := 3\<rparr>, 4 \<mapsto> p\<lparr>tsk_signal := 44, tsk_group_leader := 4, tsk_real_parent := 2\<rparr>],
     signals := \<lambda>a. Some (sample_signal\<lparr>thread_head := [if a = 40 then 1 else a - 40]\<rparr>), task_list := [1, 2, 3, 4]\<rparr>)"

lemma sample_kins:
  "kins (family_of sample_family) =
     (let q = \<lambda>l p cs g. \<lparr>kin_parent = p, kin_leader = l, kin_group = g, kin_leads = True, kin_children = cs, kin_number = 7\<rparr> in
      [1 \<mapsto> q 1 1 [2, 3] 40, 2 \<mapsto> q 2 1 [4] 42, 3 \<mapsto> q 3 1 [] 43, 4 \<mapsto> q 4 2 [] 44])"
  by (simp add: fun_eq_iff sample_family_def kin_def)

lemma sample_groups: "groups (family_of sample_family) = (\<lambda>a. Some [if a = 40 then 1 else a - 40])" "listed (family_of sample_family) = [1, 2, 3, 4]"
  by (simp_all add: fun_eq_iff sample_family_def Let_def)

lemma sample_family_wf: "wf_family (family_of sample_family)"
proof -
  have some: "kins (family_of sample_family) t = Some q \<longleftrightarrow>
      q = \<lparr>kin_parent = (if t = 4 then 2 else 1), kin_leader = t, kin_group = (if t = 1 then 40 else 40 + t), kin_leads = True,
           kin_children = (if t = 1 then [2, 3] else if t = 2 then [4] else []), kin_number = 7\<rparr> \<and> t \<in> {1, 2, 3, 4}" for t q
    by (auto simp: sample_kins Let_def)
  have none: "kins (family_of sample_family) t \<noteq> None \<longleftrightarrow> t \<in> {1, 2, 3, 4}" for t
    by (auto simp: sample_kins Let_def)
  have "ranked (family_of sample_family) (\<lambda>t. if t = 1 then 0 else if t = 4 then 2 else 1)"
    unfolding ranked_def some by auto
  moreover have "kin_ok (family_of sample_family) t q" if "kins (family_of sample_family) t = Some q" for t q
    using that unfolding kin_ok_def group_ok_def children_ok_def none some sample_groups by (auto split: if_splits)
  ultimately show ?thesis
    unfolding wf_family_def some sample_groups by auto
qed

theorem walk_visits_descendants_witness:
  "\<exists>vs. walk_process_tree sample_family 1 (\<lambda>c d. (1, d @ [c])) [] = Inr vs \<and> distinct vs \<and> {2, 3, 4} \<subseteq> set vs"
proof -
  let ?p = "sample_user_task\<lparr>tsk_children := [2, 3]\<rparr>"
  have t: "tasks sample_family 1 = Some ?p" and fin: "finite (dom (tasks sample_family))" by (simp_all add: sample_family_def Let_def)
  from walk_visits_descendants [OF sample_family_wf fin t] obtain ss where ss: "distinct (concat (map preorder ss))"
    "set (concat (map preorder ss)) = below sample_family 1"
    and walk: "\<forall>visitor d. walk_process_tree sample_family 1 visitor d = Inr (snd (visit_all visitor ss (d :: nat list)))" by auto
  have child: "(2, 1) \<in> child_of sample_family" "(3, 1) \<in> child_of sample_family" "(4, 2) \<in> child_of sample_family"
    by (simp_all add: child_of_def sample_family_def Let_def)
  then have "{2, 3, 4} \<subseteq> below sample_family 1" unfolding below_def by (auto intro: trancl_into_trancl2)
  then show ?thesis using ss walk by (simp add: visit_all_collects)
qed

end
