(* ===== verification/Hooks_Properties.thy ===== *)
theory Hooks_Properties
  imports Hooks
begin

section \<open>Tracing file calls: properties\<close>

text \<open>
  A trace is transparent and counts exactly what was called, its end restores the table, and starting
  a second trace while one is on breaks both.
\<close>

fun run_calls ::
  "(iocall \<Rightarrow> nat) \<Rightarrow> (nat \<Rightarrow> pt_regs \<Rightarrow> int) \<Rightarrow> (iocall \<times> pt_regs) list \<Rightarrow> trace_state \<Rightarrow> (int list \<times> trace_state) outcome" where
  "run_calls NR native [] s = Inr ([], s)"
| "run_calls NR native ((c, regs) # cs) s =
     bind_outcome (do_call NR native c regs s) (\<lambda>(r, s1).
     bind_outcome (run_calls NR native cs s1) (\<lambda>(rs, s2). Inr (r # rs, s2)))"

definition count_calls :: "(iocall \<times> pt_regs) list \<Rightarrow> io_trace_stats \<Rightarrow> io_trace_stats" where
  "count_calls cs st = fold (\<lambda>(c, regs). count_call c regs) cs st"

lemma set_io_calls [simp]: "set io_calls = UNIV"
  by (auto simp: io_calls_def intro: iocall.exhaust)

lemma io_calls_nonempty [simp]: "io_calls \<noteq> []"
  by (simp add: io_calls_def)

lemma foldl_updates:
  "inj f \<Longrightarrow> foldl (\<lambda>t e. t(fst e := snd e)) t (map (\<lambda>c. (f c, g c)) cs) (f c) = (if c \<in> set cs then g c else t (f c))"
  "i \<notin> range f \<Longrightarrow> foldl (\<lambda>t e. t(fst e := snd e)) t (map (\<lambda>c. (f c, g c)) cs) i = t i"
  by (induction cs arbitrary: t) (auto dest: injD)

lemma table_with_calls:
  assumes "inj NR"
  shows "table (with_entries (map (\<lambda>c. (NR c, g c)) io_calls) m) (NR c) = g c"
    and "i \<notin> range NR \<Longrightarrow> table (with_entries (map (\<lambda>c. (NR c, g c)) io_calls) m) i = table m i"
  using assms by (simp_all add: with_entries_def foldl_updates)

lemma start_ok:
  assumes "symbol env" and "\<forall>c. protected_entry env (NR c) (mach s)"
  shows "start_io_trace env NR pid s =
    Inr (s\<lparr>traced_pid := pid, io_table := True, real_io := (\<lambda>c. table (mach s) (NR c)),
           mach := log_line (''[iotrace] pid'' @ show_d pid @ '' tracing start'' @ [newline])
                     (with_entries (map (\<lambda>c. (NR c, Ftrace c)) io_calls) (mach s))\<rparr>)"
  using assms by (simp add: start_io_trace_def io_pages.replaces)

lemma stop_ok:
  assumes "io_table s" and "\<forall>c. protected_entry env (NR c) (mach s)" and "\<forall>c. real_io s c \<noteq> Null_Handler"
  shows "stop_io_trace env NR comm cur s =
    Inr (s\<lparr>mach := stop_report comm cur (stats s) (with_entries (map (\<lambda>c. (NR c, real_io s c)) io_calls) (mach s))\<rparr>)"
  using assms by (simp add: stop_io_trace_def io_pages.replaces)

lemma stop_report_simps [simp]:
  "table (stop_report comm cur st m) = table m" "ptes (stop_report comm cur st m) = ptes m"
  by (simp_all add: stop_report_def)

lemma traced_call:
  assumes "table (mach s) (NR c) = Ftrace c" and "real_io s c = Native k"
  shows "do_call NR native c regs s = Inr (native k regs, s\<lparr>stats := count_call c regs (stats s)\<rparr>)"
  using assms by (simp add: do_call_def call_handler.simps Let_def)

lemma traced_calls:
  assumes "\<forall>c. table (mach s) (NR c) = Ftrace c" and "\<forall>c. real_io s c = Native (k c)"
  shows "run_calls NR native cs s =
    Inr (map (\<lambda>(c, regs). native (k c) regs) cs, s\<lparr>stats := count_calls cs (stats s)\<rparr>)"
  using assms
proof (induction cs arbitrary: s)
  case (Cons e cs)
  then show ?case by (cases e) (simp add: traced_call count_calls_def)
qed (simp add: count_calls_def)

lemma count_calls_Cons [simp]: "count_calls (e # cs) st = count_calls cs (count_call (fst e) (snd e) st)"
  by (simp add: count_calls_def split: prod.splits)

lemma count_call_counts [simp]:
  "open_count (count_call c regs st) = open_count st + (if c = Openat then 1 else 0)"
  "close_count (count_call c regs st) = close_count st + (if c = Close then 1 else 0)"
  "lseek_count (count_call c regs st) = lseek_count st + (if c = Lseek then 1 else 0)"
  "read_count (count_call c regs st) = read_count st + (if c = Read then 1 else 0)"
  "write_count (count_call c regs st) = write_count st + (if c = Write then 1 else 0)"
  "read_bytes (count_call c regs st) = read_bytes st + (if c = Read then dx regs else 0)"
  "write_bytes (count_call c regs st) = write_bytes st + (if c = Write then dx regs else 0)"
  by (auto simp: count_call_def Let_def split: iocall.splits option.splits)

text \<open>The number of calls of one kind, and the bytes they ask for.\<close>

definition calls_of :: "iocall \<Rightarrow> (iocall \<times> pt_regs) list \<Rightarrow> 32 word" where
  "calls_of c cs = of_nat (length (filter (\<lambda>e. fst e = c) cs))"

definition bytes_of :: "iocall \<Rightarrow> (iocall \<times> pt_regs) list \<Rightarrow> 64 word" where
  "bytes_of c cs = (\<Sum>e\<leftarrow>filter (\<lambda>e. fst e = c) cs. dx (snd e))"

text \<open>The names opened, as far as they can be read and are not empty.\<close>

definition opened_names :: "(iocall \<times> pt_regs) list \<Rightarrow> string list" where
  "opened_names cs = concat (map (\<lambda>(c, regs). case si regs of None \<Rightarrow> []
     | Some name \<Rightarrow> if c = Openat \<and> name \<noteq> [] then [name] else []) cs)"

lemma opened_names_simps [simp]:
  "opened_names [] = []"
  "opened_names ((c, regs) # cs) = (case si regs of None \<Rightarrow> []
     | Some name \<Rightarrow> if c = Openat \<and> name \<noteq> [] then [name] else []) @ opened_names cs"
  by (simp_all add: opened_names_def)

lemma count_call_filename [simp]:
  "stat_filename (count_call c regs st) =
     (if c = Openat \<and> stat_filename st = [] then (case si regs of None \<Rightarrow> [] | Some name \<Rightarrow> take 255 name)
      else stat_filename st)"
  by (auto simp: count_call_def Let_def split: iocall.splits option.splits)

lemma count_calls_filename:
  "stat_filename (count_calls cs st) =
     (if stat_filename st = [] \<and> opened_names cs \<noteq> [] then take 255 (hd (opened_names cs))
      else stat_filename st)"
proof (induction cs arbitrary: st)
  case Nil
  then show ?case by (simp add: count_calls_def)
next
  case (Cons e cs)
  then show ?case by (cases e) (auto split: option.splits)
qed

text \<open>
  The statistics are exact, up to the width of their fields: each counter grows by the number of
  calls of its kind, and the byte counts by the sizes requested by reads and writes.
\<close>

lemma count_calls_exact:
  "open_count (count_calls cs st) = open_count st + calls_of Openat cs
   \<and> close_count (count_calls cs st) = close_count st + calls_of Close cs
   \<and> lseek_count (count_calls cs st) = lseek_count st + calls_of Lseek cs
   \<and> read_count (count_calls cs st) = read_count st + calls_of Read cs
   \<and> write_count (count_calls cs st) = write_count st + calls_of Write cs
   \<and> read_bytes (count_calls cs st) = read_bytes st + bytes_of Read cs
   \<and> write_bytes (count_calls cs st) = write_bytes st + bytes_of Write cs"
proof (induction cs arbitrary: st)
  case Nil
  then show ?case by (simp add: count_calls_def calls_of_def bytes_of_def)
next
  case (Cons e cs)
  then show ?case by (simp add: calls_of_def bytes_of_def)
qed


text \<open>A hook whose saved handler is itself never returns.\<close>

lemma call_handler_loops:
  assumes "real_io s c = Ftrace c"
  shows "call_handler native (Ftrace c) regs s = None"
proof (rule ccontr)
  assume "call_handler native (Ftrace c) regs s \<noteq> None"
  then obtain r where "call_handler native (Ftrace c) regs s = Some r" by blast
  then have "\<not> (Ftrace c = Ftrace c \<and> real_io s c = Ftrace c)"
  proof (rule call_handler.raw_induct [where P = "\<lambda>native h regs s r. \<not> (h = Ftrace c \<and> real_io s c = Ftrace c)", rotated])
    fix f native h regs s r
    assume IH: "\<And>native h regs s r. f native h regs s = Some r \<Longrightarrow> \<not> (h = Ftrace c \<and> real_io s c = Ftrace c)"
      and step: "(case h of
          Native k \<Rightarrow> Some (Inr (native k regs, s))
        | Ftrace c \<Rightarrow>
            let s1 = s\<lparr>stats := count_call c regs (stats s)\<rparr> in
            if real_io s c = Null_Handler then Some (Inr (- ENOENT, s1))
            else f native (real_io s c) regs s1
        | _ \<Rightarrow> Some (Inl Null_Pointer)) = Some r"
    show "\<not> (h = Ftrace c \<and> real_io s c = Ftrace c)"
      using step IH [of native "real_io s c" regs "s\<lparr>stats := count_call c regs (stats s)\<rparr>" r]
      by (auto simp: Let_def)
  qed
  then show False using assms by simp
qed

text \<open>
  C37. Switching the trace from one process to another breaks the machine: after \<open>os_ftrace\<close> for a pid
  and then for another one, both of which succeed, every file call of every process recurses without
  end, and stopping the trace succeeds but leaves the hooks in the table, because the second start
  saved the hooks as the originals.
\<close>

theorem trace_switch_recurses:
  assumes "symbol env" and "inj NR" and "\<forall>c. protected_entry env (NR c) (mach s)"
    and "traced_pid s = 0" and "0 < p" and "0 < q" and "p \<noteq> q"
  shows "\<exists>s1 s2 s3. trace_ftrace env NR comm cur p s = Inr (0, s1) \<and> trace_ftrace env NR comm cur q s1 = Inr (0, s2)
    \<and> trace_ftrace env NR comm cur q s2 = Inr (0, s3)
    \<and> (\<forall>c regs. do_call NR native c regs s2 = Inl Diverges \<and> do_call NR native c regs s3 = Inl Diverges)"
proof -
  obtain s1 where s1: "start_io_trace env NR p s = Inr s1" "traced_pid s1 = p" "ptes (mach s1) = ptes (mach s)"
    "\<forall>c. table (mach s1) (NR c) = Ftrace c"
    using start_ok [OF assms(1,3), of p] assms(2) by (simp add: table_with_calls)
  have "\<forall>c. protected_entry env (NR c) (mach s1)" using assms(3) s1(3) by (simp add: protected_entry_def)
  from start_ok [OF assms(1) this, of q] obtain s2 where s2: "start_io_trace env NR q s1 = Inr s2"
    "traced_pid s2 = q" "ptes (mach s2) = ptes (mach s)" "io_table s2" "\<forall>c. real_io s2 c = Ftrace c"
    "\<forall>c. table (mach s2) (NR c) = Ftrace c"
    using assms(2) s1 by (simp add: table_with_calls)
  have "\<forall>c. protected_entry env (NR c) (mach s2)" using assms(3) s2(3) by (simp add: protected_entry_def)
  from stop_ok [OF s2(4) this, of comm cur] obtain s3 where s3: "stop_io_trace env NR comm cur s2 = Inr s3"
    "real_io s3 = real_io s2" "\<forall>c. table (mach s3) (NR c) = Ftrace c"
    using assms(2) s2(5) by (simp add: table_with_calls)
  have "do_call NR native c regs s' = Inl Diverges"
    if "real_io s' c = Ftrace c" "table (mach s') (NR c) = Ftrace c" for c regs s'
    using that by (simp add: do_call_def call_handler_loops)
  then have "\<forall>c regs. do_call NR native c regs s2 = Inl Diverges
      \<and> do_call NR native c regs (s3\<lparr>traced_pid := 0\<rparr>) = Inl Diverges"
    using s2(5,6) s3(2,3) by simp
  then show ?thesis using assms(4-7) s1(1,2) s2(1,2) s3(1) by (simp add: trace_ftrace_def)
qed

section \<open>Witnesses\<close>

text \<open>A machine whose table lies in one write-protected page, with the call numbers of x86-64.\<close>

primrec sample_NR :: "iocall \<Rightarrow> nat" where
  "sample_NR Openat = 257"
| "sample_NR Read = 0"
| "sample_NR Write = 1"
| "sample_NR Lseek = 8"
| "sample_NR Close = 3"

definition sample_env :: kenv where
  "sample_env = \<lparr>page_of = (\<lambda>_. Some 0), symbol = True\<rparr>"

definition sample_machine :: machine where
  "sample_machine = \<lparr>table = Native, ptes = (\<lambda>_. 1), klog = []\<rparr>"

definition sample_trace :: trace_state where
  "sample_trace = \<lparr>mach = sample_machine, real_call = Null_Handler, have_table = False, traced_pid = 0,
                   stats = stats_zero, io_table = False, real_io = (\<lambda>_. Null_Handler)\<rparr>"

lemma sample_NR_inj: "inj sample_NR"
proof (rule injI)
  fix c d
  show "sample_NR c = sample_NR d \<Longrightarrow> c = d" by (cases c; cases d) simp_all
qed

lemma sample_protected: "protected_entry sample_env i sample_machine"
  by (simp add: protected_entry_def sample_env_def sample_machine_def PAGE_RW_def)

lemma sample_simps [simp]:
  "symbol sample_env" "mach sample_trace = sample_machine" "traced_pid sample_trace = 0"
  "table sample_machine = Native" "stats sample_trace = stats_zero"
  by (simp_all add: sample_env_def sample_trace_def sample_machine_def)


theorem trace_switch_recurses_witness:
  "\<exists>s1 s2 s3. trace_ftrace sample_env sample_NR ''sh'' 7 7 sample_trace = Inr (0, s1)
    \<and> trace_ftrace sample_env sample_NR ''sh'' 7 8 s1 = Inr (0, s2)
    \<and> trace_ftrace sample_env sample_NR ''sh'' 7 8 s2 = Inr (0, s3)
    \<and> do_call sample_NR (\<lambda>_ _. 0) Read \<lparr>di = 3, si = None, dx = 100\<rparr> s3 = Inl Diverges"
  using trace_switch_recurses [of sample_env sample_NR sample_trace 7 8 "''sh''" 7 "\<lambda>_ _. 0"]
  by (fastforce simp: sample_NR_inj sample_protected)

end
