(* ===== verification/Module_Properties.thy ===== *)
theory Module_Properties
  imports Tracer File_Varea Proc_Info Fork_Properties Hooks_Properties
begin

section \<open>Kernel modules: properties\<close>

text \<open>
  The theorems on the modules that report on processes, alone and together with process creation.
\<close>

text \<open>C22. Every module that hooks a system call restores the table and its write protection: loading installs the hook and
  unloading puts the original handler back, for the wrapper, the trace switch, the process tracer and the mapped-files
  module alike.\<close>
theorem hooks_restore:
  assumes "symbol env" and "protected_entry env NR_os_ftrace (mach s)" and "protected_entry env NR_tracer (mach s)"
    and "table (mach s) NR_os_ftrace \<noteq> Null_Handler" and "table (mach s) NR_tracer \<noteq> Null_Handler"
    and "mach (r :: trace_state) = mach s"
  shows "(\<exists>s1 s2. hook_init env s = Inr (0, s1) \<and> table (mach s1) NR_os_ftrace = My_ftrace
      \<and> hook_exit env s1 = Inr s2 \<and> table (mach s2) = table (mach s) \<and> ptes (mach s2) = ptes (mach s))
    \<and> (\<exists>s1 s2. trace_hook_init env r = Inr (0, s1) \<and> table (mach s1) NR_OS_FTRACE = My_ftrace
      \<and> trace_hook_exit env s1 = Inr s2 \<and> table (mach s2) = table (mach r) \<and> ptes (mach s2) = ptes (mach r))
    \<and> (\<exists>s1 s2. tracer_hook_init env s = Inr (0, s1) \<and> table (mach s1) NR_tracer = Os_ftrace_trampoline
      \<and> tracer_hook_exit env s1 = Inr s2 \<and> table (mach s2) = table (mach s) \<and> ptes (mach s2) = ptes (mach s))
    \<and> (\<exists>s1 s2. info_init env s = Inr (0, s1) \<and> table (mach s1) NR_varea = File_varea
      \<and> info_exit env s1 = Inr s2 \<and> table (mach s2) = table (mach s) \<and> ptes (mach s2) = ptes (mach s))"
proof -
  have nr: "NR_OS_FTRACE = NR_tracer" "NR_varea = NR_tracer" by (simp_all add: NR_OS_FTRACE_def NR_tracer_def NR_varea_def)
  show ?thesis
    using wrapper.install_remove [OF assms(1,2,4)] tracer.install_remove [OF assms(1,3,5)]
      varea.install_remove [OF assms(1), of s] switch.install_remove [OF assms(1), of r] assms(3,5,6) unfolding nr by simp
qed

text \<open>C21. Listing the mapped files of a process only reads: whatever fails on the way, the address space keeps its reference and
  lock counts, the kernel is unchanged and every path buffer is freed; and if no allocation fails, the log gets one
  line per file-backed area whose path is known, in the order of the areas.\<close>
theorem file_varea_balanced:
  assumes "\<forall>t task. find_task env (wrap32 (di regs)) = Some t \<longrightarrow> tasks (kernel s) t = Some task \<longrightarrow>
      (\<forall>a. tsk_mm task = Some a \<longrightarrow> (\<exists>m. mms (kernel s) a = Some m \<and> 0 < mm_users m))"
    and "\<forall>t. find_task env (wrap32 (di regs)) = Some t \<longrightarrow> tasks (kernel s) t \<noteq> None"
  shows "kernel (snd (file_varea env regs s)) = kernel s \<and> outstanding (snd (file_varea env regs s)) = outstanding s
    \<and> fst (file_varea env regs s) \<in> {- ESRCH, - EINVAL, wrap32 (di regs)}
    \<and> ((\<forall>i. kmalloc_ok env i) \<and> fst (file_varea env regs s) = wrap32 (di regs) \<and> 0 \<le> wrap32 (di regs) \<longrightarrow>
        (\<exists>t a m header. find_task env (wrap32 (di regs)) = Some t \<and> tsk_mm (the (tasks (kernel s) t)) = Some a \<and> mms (kernel s) a = Some m
           \<and> vlog (snd (file_varea env regs s)) = vlog s @ header # file_lines env m (mm_mmap m)))"
proof (cases "find_task env (wrap32 (di regs))")
  case None
  then have r: "file_varea env regs s = (- ESRCH, s)" by (simp add: file_varea_def)
  show ?thesis unfolding r fst_conv snd_conv by (auto simp: errno_defs)
next
  case (Some t)
  with assms(2) obtain task where task: "tasks (kernel s) t = Some task" by blast
  show ?thesis
  proof (cases "fst (get_task_mm task (kernel s))")
    case None
    then have "get_task_mm task (kernel s) = (None, kernel s)" by (auto simp: get_task_mm_def split: option.splits if_splits)
    then have r: "file_varea env regs s = (- EINVAL, s)" using Some task by (simp add: file_varea_def)
    show ?thesis unfolding r fst_conv snd_conv by (auto simp: errno_defs)
  next
    case a: (Some a)
    then have mm: "tsk_mm task = Some a" "get_task_mm task (kernel s) = (Some a, mmget a (kernel s))"
      by (auto simp: get_task_mm_def split: option.splits if_splits)
    with assms(1) Some task obtain m where m: "mms (kernel s) a = Some m" "0 < mm_users m" by blast
    let ?m = "m\<lparr>mm_users := mm_users m + 1, mmap_readers := mmap_readers m + 1\<rparr>"
    have "area_line ?m = area_line m" by (simp add: fun_eq_iff area_line_def)
    then have same: "file_lines env ?m vs = file_lines env m vs" for vs unfolding file_lines_def by (rule arg_cong)
    have "mms (down_read a (mmget a (kernel s))) a = Some ?m" using m(1) by (simp add: down_read_def mmget_def)
    then have "\<forall>i. kmalloc_ok env i \<Longrightarrow> \<exists>header. vlog (snd (file_varea env regs s)) = vlog s @ header # file_lines env m (mm_mmap m)"
      using Some task mm(2) by (simp add: file_varea_def Let_def scan_areas_lines same [simplified])
    then show ?thesis
      using file_varea_effect [OF Some task mm(2) m] Some task mm(1) m(1) by auto
  qed
qed

text \<open>C20. Reading the process list neither faults nor cuts a line in the kernel buffer: the text is the header and one whole line per
  process, with one of the nine states spelled out, for all processes or up to the margin of the buffer, or for the one that was
  asked for; the user gets its first len bytes, and the buffer is freed.\<close>
theorem proc_read_complete:
  assumes "printable k" and "kzalloc_ok env" and "user_writable env" and "\<not> oslab_is_processed s"
  shows "\<exists>n. let ps = (if \<not> write_flag s \<or> filter_pid s = - 1 then take n (processes k)
                     else take 1 (filter (\<lambda>p. tsk_pid p = filter_pid s) (processes k)));
                text = table_of env k ps in
      oslab_read env k len s = Inr (int (length (take len text)), take len text, s\<lparr>oslab_is_processed := True\<rparr>)
      \<and> (n < length (processes k) \<longrightarrow> BUF_SIZE - 200 \<le> length (table_of env k (take n (processes k))))
      \<and> list_all (\<lambda>p. state_of p \<in> set ''RSDTtXZPI'' \<and> state_str (state_of p) \<noteq> []) ps"
proof -
  have all: "list_all (\<lambda>p. state_of p \<in> set ''RSDTtXZPI'' \<and> state_str (state_of p) \<noteq> []) ps" for ps
    using state_of_ok(2,3) by (auto simp: list_all_iff state_char_def)
  obtain n where n: "all_tasks env k (processes k) (header1 @ header2) = Inr (table_of env k (take n (processes k)))"
    "n < length (processes k) \<longrightarrow> BUF_SIZE - 200 \<le> length (table_of env k (take n (processes k)))"
    using all_tasks_whole [OF order_refl assms(1) headers_fit(3), of env] by (auto simp: table_of_def)
  have one: "one_task env k pid (processes k) (header1 @ header2) = Inr (table_of env k (take 1 (filter (\<lambda>p. tsk_pid p = pid) (processes k))))" for pid
    using one_task_whole [OF order_refl assms(1) headers_fit(3), of env pid] by (simp add: table_of_def)
  show ?thesis
    using assms(2-4) n one all
    by (intro exI [of _ n]) (simp add: oslab_read_def fill_buffer_def Let_def headers_fit)
qed

text \<open>C35. Choosing a process: after its number is written to the file, opening and reading the file gives the table with exactly that
  process, or only the header when there is none; a second read gives the end of the file.\<close>
theorem proc_filter_session:
  assumes "printable k" and "kzalloc_ok env" and "user_writable env" and "is_int32 pid" and "pid \<noteq> - 1"
    and "kstrtoint env (show_d pid @ [newline]) = Inr pid"
  shows "\<exists>s1 s2. oslab_write env (length (show_d pid) + 1) (Some (show_d pid @ [newline])) s = Inr (int (length (show_d pid) + 1), s1)
    \<and> oslab_read env k 204800 (snd (oslab_open s1)) =
        Inr (int (length (table_of env k (take 1 (filter (\<lambda>p. tsk_pid p = pid) (processes k))))),
             table_of env k (take 1 (filter (\<lambda>p. tsk_pid p = pid) (processes k))), s2)
    \<and> oslab_read env k 204800 s2 = Inr (0, [], s2) \<and> held s2 = held s"
proof -
  let ?ps = "take 1 (filter (\<lambda>p. tsk_pid p = pid) (processes k))"
  let ?s1 = "s\<lparr>filter_pid := pid, write_flag := True\<rparr>" and ?s2 = "s\<lparr>filter_pid := pid, write_flag := True, oslab_is_processed := True\<rparr>"
  have one: "one_task env k pid (processes k) (header1 @ header2) = Inr (table_of env k ?ps)"
    using one_task_whole [OF order_refl assms(1) headers_fit(3), of env pid] by (simp add: table_of_def)
  have fits: "length (table_of env k ?ps) \<le> 204800"
  proof -
    have "length (line_of env k p) \<le> 124" if "p \<in> set (processes k)" for p
      unfolding line_of_def using assms(1) that by (intro info_line_length) (auto simp: printable_def)
    moreover have "set ?ps \<subseteq> set (processes k)" by (meson filter_is_subset order_trans set_take_subset)
    ultimately have "\<forall>p\<in>set ?ps. length (line_of env k p) \<le> 124" by blast
    then show ?thesis
      by (cases "filter (\<lambda>p. tsk_pid p = pid) (processes k)") (simp_all add: table_of_def headers_length)
  qed
  have "oslab_write env (length (show_d pid) + 1) (Some (show_d pid @ [newline])) s = Inr (int (length (show_d pid) + 1), ?s1)"
    using show_d_length [OF assms(4)] assms(6) by (simp add: oslab_write_def WRITE_BUF_def)
  moreover have "oslab_read env k 204800 (snd (oslab_open ?s1)) = Inr (int (length (table_of env k ?ps)), table_of env k ?ps, ?s2)"
    using assms(2,3,5) one fits by (simp add: oslab_open_def oslab_read_def fill_buffer_def headers_fit)
  moreover have "oslab_read env k 204800 ?s2 = Inr (0, [], ?s2)" by (simp add: oslab_read_def)
  ultimately show ?thesis by (intro exI [of _ ?s1] exI [of _ ?s2]) simp
qed

text \<open>C14. What the tracer says after a fork: when a process has forked a child of its own, the report on the process shows a
  fork count one higher than before and the number of its children one higher, and lists the new child with its process id
  and the name it took over.\<close>
theorem report_after_fork:
  assumes "subsystems_ok (fork_part env)" and "fork_ready (fork_part env) k" and "fork_sane (fork_part env) args k"
    and "do_fork_main env args k = (Inr nr, k')" and "\<not> has (flags args) (CLONE_PARENT OR CLONE_THREAD)"
    and "tasks k (current k) = Some c" and "lookup (tsk_pid c) = Some (current k)"
  shows "\<exists>pid m'. process_tracer lookup k' (tsk_pid c) m = (tsk_pid c, m') \<and> 0 < pid \<and> nr = pid_vnr env pid
    \<and> {Printk (oslab (''- Number of calling fork() : '' @ show_d (sint (tsk_fork_count c + 1)))),
       Printk (oslab (''   > '' @ named pid (tsk_comm c))),
       Printk (oslab (''   > This process has '' @ show_d (int (length (tsk_children c)) + 1) @ '' child process(es)''))}
      \<subseteq> set (drop (length (klog m)) (klog m'))"
proof (rule do_fork_effect [OF assms(4)])
  fix t k1
  assume run: "copy_process (fork_part env) None (fork_event env args \<noteq> 0) args k = (Inr t, k1)" and k': "k' = k1\<lparr>tasks := tasks k'\<rparr>"
    and tail: "\<forall>u. map_option core (tasks k' u) = map_option core (tasks k1 u)"
    and nr: "\<forall>p. tasks k1 t = Some p \<longrightarrow> nr = pid_vnr env (tsk_pid p)"
    and counts: "t \<noteq> current k1 \<longrightarrow> (\<forall>u. map_option tsk_fork_count (tasks k' u) =
       map_option (\<lambda>p. if u = t then 0 else if u = current k1 then tsk_fork_count p + 1 else tsk_fork_count p) (tasks k1 u))"
  note same = map_field [OF tail [rule_format]]
  obtain p where link: "child_linked (flags args) t p k k1" and id: "child_identity (flags args) t p k"
    using copy_process_success [OF assms(1-3) run] by (auto simp: new_child_def)
  have t: "t \<noteq> current k1" "current k1 = current k" "tasks k1 t = Some p" using link assms(6) by (auto simp: child_linked_def)
  have "tsk_real_parent p = current k" "\<not> has (flags args) CLONE_THREAD"
    using id assms(5) by (auto simp: child_identity_def has_or)
  then have parent: "tasks k1 (current k) = Some (c\<lparr>tsk_flags := tsk_flags c AND NOT PF_NPROC_EXCEEDED, tsk_children := tsk_children c @ [t]\<rparr>)"
    using link t assms(6) by (auto simp: child_linked_def clear_nproc_def)
  obtain c' where c': "tasks k' (current k) = Some c'" "tsk_children c' = tsk_children c @ [t]" "tsk_fork_count c' = tsk_fork_count c + 1"
    using same [of tsk_children "current k"] counts [rule_format, OF t(1), of "current k"] t parent by auto
  obtain p' where p': "tasks k' t = Some p'" "tsk_pid p' = tsk_pid p" "tsk_comm p' = tsk_comm c"
    using same [of tsk_pid t] same [of tsk_comm t] t id assms(6) by (auto simp: child_identity_def)
  have "current k' = current k" by (subst k') (simp add: t(2))
  moreover have "0 < tsk_pid p" "nr = pid_vnr env (tsk_pid p)" using id nr t(3) by (auto simp: child_identity_def)
  moreover note task_report_lines(1) [of c' k' "tsk_pid c"] task_report_lines(2) [of t c' k' "tsk_pid c"] task_report_lines(3) [of c' k' "tsk_pid c"]
  ultimately show ?thesis
    using assms(7) c' p' by (intro exI [of _ "tsk_pid p"]) (simp add: process_tracer_def add.commute)
qed

subsection \<open>Concrete runs\<close>

definition sample_hook :: hook_state where
  "sample_hook = \<lparr>mach = sample_machine, real_call = Null_Handler, have_table = False\<rparr>"

theorem hooks_restore_witness:
  "\<exists>s1 s2. info_init sample_env sample_hook = Inr (0, s1) \<and> table (mach s1) NR_varea = File_varea
     \<and> info_exit sample_env s1 = Inr s2 \<and> table (mach s2) = Native"
  using hooks_restore [of sample_env sample_hook sample_trace] sample_protected by (fastforce simp: sample_hook_def)

definition sample_varea_env :: varea_env where
  "sample_varea_env = \<lparr>find_task = \<lambda>n. if n = 7 then Some 1 else None, kmalloc_ok = \<lambda>_. True, d_path = \<lambda>f. Some ''/bin/sh'',
     release_maps = \<lambda>_ r. r\<rparr>"

definition sample_varea :: "nat varea_state" where
  "sample_varea = \<lparr>kernel = sample_kern, vlog = [], outstanding = 0\<rparr>"

theorem file_varea_balanced_witness:
  "let r = file_varea sample_varea_env \<lparr>di = 7, si = None, dx = 0\<rparr> sample_varea in
   fst r = 7 \<and> kernel (snd r) = sample_kern \<and> outstanding (snd r) = 0 \<and> length (vlog (snd r)) = 2"
proof -
  let ?regs = "\<lparr>di = 7, si = None, dx = 0\<rparr> :: pt_regs"
  have w: "wrap32 7 = 7" by (rule wrap32_id) (simp add: is_int32_def int_min_def int_max_def)
  have k: "tasks sample_kern 1 = Some sample_user_task" "tsk_mm sample_user_task = Some 50" "mms sample_kern 50 = Some sample_mm"
    "0 < mm_users sample_mm" "tsk_flags sample_user_task = 0" "length (file_lines sample_varea_env sample_mm (mm_mmap sample_mm)) = 1"
    by (simp_all add: sample_kern_def sample_mm_def sample_varea_env_def file_lines_def)
  have f: "fst (file_varea sample_varea_env ?regs sample_varea) = 7"
    using k by (simp add: file_varea_def w sample_varea_env_def sample_varea_def get_task_mm_def Let_def)
  note th = file_varea_balanced [of sample_varea_env ?regs sample_varea]
  have "find_task sample_varea_env 7 = Some 1" "\<forall>i. kmalloc_ok sample_varea_env i" "vlog sample_varea = []" "outstanding sample_varea = 0"
    "varea_state.kernel sample_varea = sample_kern"
    by (simp_all add: sample_varea_env_def sample_varea_def)
  then show ?thesis using th k f w by (auto simp: Let_def)
qed

definition sample_proc_env :: proc_env where
  "sample_proc_env = \<lparr>task_cputime = \<lambda>p. (tsk_utime p, tsk_stime p), nsecs_to_jiffies = \<lambda>w. w div 1000000, kzalloc_ok = True, user_writable = True,
     kstrtoint = \<lambda>s. (if s = show_d 7 @ [newline] then Inr 7 else Inl (- EINVAL)), checked_copy = True, proc_mkdir_ok = True\<rparr>"

lemma sample_processes: "processes sample_kern = [sample_user_task]" "tsk_pid sample_user_task = 7" "printable sample_kern"
  by (simp_all add: processes_def printable_def printable_task_def sample_kern_def sample_user_task_def init_task_def is_int32_def int_min_def int_max_def)

theorem proc_read_complete_witness:
  "\<exists>n. oslab_read sample_proc_env sample_kern 1000 proc_initial =
     Inr (int (length (take 1000 (table_of sample_proc_env sample_kern (take n [sample_user_task])))),
          take 1000 (table_of sample_proc_env sample_kern (take n [sample_user_task])), proc_initial\<lparr>oslab_is_processed := True\<rparr>)"
  using proc_read_complete [OF sample_processes(3), of sample_proc_env proc_initial 1000]
  by (auto simp: sample_proc_env_def proc_initial_def sample_processes(1) Let_def)

theorem proc_filter_session_witness:
  "\<exists>s1 s2. oslab_write sample_proc_env (length (show_d 7) + 1) (Some (show_d 7 @ [newline])) proc_initial = Inr (int (length (show_d 7) + 1), s1)
    \<and> oslab_read sample_proc_env sample_kern 204800 (snd (oslab_open s1)) =
        Inr (int (length (table_of sample_proc_env sample_kern [sample_user_task])), table_of sample_proc_env sample_kern [sample_user_task], s2)
    \<and> oslab_read sample_proc_env sample_kern 204800 s2 = Inr (0, [], s2) \<and> held s2 = 0"
  using proc_filter_session [OF sample_processes(3), of sample_proc_env 7 proc_initial]
  by (simp add: sample_proc_env_def proc_initial_def sample_processes is_int32_def int_min_def int_max_def)

theorem report_after_fork_witness:
  "\<exists>nr k' m'. do_fork_main (sample_do_env counted) (plain_args 0) sample_kern = (Inr nr, k') \<and> 0 < nr
    \<and> process_tracer (\<lambda>n. if n = 7 then Some 1 else None) k' 7 sample_machine = (7, m')
    \<and> Printk (oslab (''- Number of calling fork() : '' @ show_d 1)) \<in> set (klog m')
    \<and> Printk (oslab (''   > '' @ named nr ''swapper'')) \<in> set (klog m')"
proof -
  obtain nr k' where run: "do_fork_main (sample_do_env counted) (plain_args 0) sample_kern = (Inr nr, k')" by (rule sample_forks)
  have k: "tasks sample_kern 1 = Some sample_user_task" "current sample_kern = 1" "tsk_fork_count sample_user_task = 0"
    "tsk_comm sample_user_task = ''swapper''" "pid_vnr (sample_do_env counted) n = n" "klog sample_machine = []" for n
    by (simp_all add: sample_kern_def sample_do_env_def sample_machine_def)
  have "\<not> has (flags (plain_args 0)) (CLONE_PARENT OR CLONE_THREAD)" by (simp add: has_def)
  note th = report_after_fork [of "sample_do_env counted" sample_kern "plain_args 0" nr k' sample_user_task "\<lambda>n. if n = 7 then Some 1 else None" sample_machine]
  have "subsystems_ok (fork_part (sample_do_env counted))" "fork_ready (fork_part (sample_do_env counted)) sample_kern"
    "fork_sane (fork_part (sample_do_env counted)) (plain_args 0) sample_kern"
    using sample_subsystems [OF counted_ok(1)] sample_ready sample_sane [of "plain_args 0"] by simp_all
  then show ?thesis
    using th run k \<open>\<not> has (flags (plain_args 0)) (CLONE_PARENT OR CLONE_THREAD)\<close> sample_processes(2) by auto
qed

end
