(* ===== verification/Spec2Isabelle.thy ===== *)
theory Spec2Isabelle
  imports Paging_Properties Fat_Properties Sched_Properties Workers_Properties Module_Properties
begin

text \<open>
  Verification of the operating system projects: four groups of user programs and kernel modules, and the kernel
  sources they modify.

  \<^bold>\<open>The parts and how they interact.\<close>

  \<^item> User programs: a page replacement simulator (\<^verbatim>\<open>Assignment3/Assignment3-2\<close>), a FAT file system in one state file
    (\<^verbatim>\<open>Assignment4/Assignment4-2\<close>), a CPU scheduling simulator (\<^verbatim>\<open>Assignment2/Assignment2-3\<close>), and programs that add
    numbers with processes or threads (\<^verbatim>\<open>Assignment2/Assignment2-2\<close>).  Each is a function from its arguments and files to
    its output and exit status.
  \<^item> Kernel modules that replace entries of the system call table: the wrapper of \<^verbatim>\<open>os_ftrace\<close> and the file call tracer
    (\<^verbatim>\<open>Assignment1\<close>), the process tracer (\<^verbatim>\<open>Process_tracer.c\<close>) and the list of mapped files
    (\<^verbatim>\<open>Assignment3/Assignment3-1\<close>); and the process list in \<^verbatim>\<open>/proc\<close> (\<^verbatim>\<open>Assignment4/Assignment4-1\<close>).
  \<^item> Kernel code: process creation in \<^verbatim>\<open>Assignment2/Assignment2-1/fork.c\<close>, extended by a fork counter, with
    \<^verbatim>\<open>sched.h\<close> and \<^verbatim>\<open>init_task.c\<close>.  The modules read the tasks it makes; the tracer prints the counter.

  \<^bold>\<open>Shared theories.\<close>  \<open>Prelude\<close> has the faults of a run, outcomes and their bind, C loops (\<open>for_loop\<close>, \<open>for_first\<close>, and
  \<open>run_loop\<close> for loops that may run for ever, where not returning is the fault \<^const>\<open>Diverges\<close>), error numbers, and
  the rules for total correctness.  \<open>Binary64\<close> has the rounding of \<open>double\<close> arithmetic, \<open>C_Stdio\<close> reading and printing.

  \<^bold>\<open>Page replacement\<close>, \<^verbatim>\<open>page_replacement_simulator.c\<close>: \<open>Paging\<close> has the simulators, with the local variables of
  each as a record (\<open>opt_step\<close>, \<open>fifo_step\<close>, \<open>lru_step\<close>, \<open>clock_step\<close>); \<open>Paging_Main\<close> has \<open>read_input\<close> and \<open>main\<close>.
  The locales \<open>demand_paging\<close>, \<open>furthest_paging\<close> and \<open>versus_opt\<close> of \<open>Paging_Policies\<close> are the contract of a
  replacement algorithm, interpreted on the four simulators in \<open>Paging_Interp\<close>.  Shown: OPT is optimal; LRU keeps the most recent
  pages and has no anomaly; FIFO refines a queue; Clock gives a second chance; bounds of the counts; the output of \<open>main\<close>.

  \<^bold>\<open>FAT\<close>, \<^verbatim>\<open>fat.c\<close>: \<open>Fat\<close> has the operations on the record of \<open>myfat\<close> and the command line; \<open>Fat_Chain\<close> the
  invariant \<open>fs_inv\<close> and the abstraction \<open>abs_fs\<close> to a map from names to contents; \<open>Fat_Write\<close> and \<open>Fat_Ops\<close> that every operation
  keeps the one and refines the map update of the other; \<open>Fat_Store\<close> the locale \<open>file_store\<close> for the commands.  A chain
  in a corrupt table may be circular: \<open>free_chain\<close> is a partial function and its end is proved.

  \<^bold>\<open>Scheduling\<close>, \<^verbatim>\<open>cpu_scheduler.c\<close>: \<open>Sched\<close> has the four algorithms on the process table and the Gantt chart.
  The locale \<open>selection\<close> is the contract of the choice of a process, \<open>policy\<close> that of a non-preemptive algorithm.  Shown: every algorithm
  ends, serves each process for its burst after its arrival and leaves a chart without gap or overlap; FCFS equals a
  single pass; where round robin completes and where it loses a process.  For SRTF the times are below \<open>2\<^sup>2\<^sup>2\<close> ms, so that
  the rounding errors stay below the program's tolerance.

  \<^bold>\<open>Sums\<close>, \<^verbatim>\<open>numgen.c\<close>, \<^verbatim>\<open>fork.c\<close>, \<^verbatim>\<open>thread.c\<close>: \<open>Workers\<close> has the programs as step relations over all
  schedules of their workers.  Shown: the total and the end of every schedule.

  \<^bold>\<open>System call hooks\<close>: \<open>Syscall_Table\<close> has the table, the page protection and the locales \<open>page_helpers\<close> and
  \<open>syscall_hook\<close>; \<open>Hooks\<close> the modules of \<^verbatim>\<open>Assignment1\<close>, \<open>Tracer\<close> \<^verbatim>\<open>Process_tracer.c\<close>, \<open>File_Varea\<close>
  \<^verbatim>\<open>file_varea.c\<close>.  Each module interprets both locales; loading and unloading restores the table.  A trace is transparent
  and counts the calls; the list of mapped files releases all it takes; the tracer's report after a fork shows it.

  \<^bold>\<open>Process list\<close>, \<^verbatim>\<open>proc_info.c\<close>: \<open>Proc_Info\<close>.  Shown: reads never fault and never cut a line, and the filter works.

  \<^bold>\<open>Tasks\<close>, \<^verbatim>\<open>sched.h\<close> and \<^verbatim>\<open>init_task.c\<close>: \<open>Task\<close> has \<open>struct task_struct\<close> with the fields the sources use, the
  states and the process flags; \<open>Task_Ops\<close> the functions on states, on thread, process and atomic flags, on restartable
  sequences and on the numbers of a task.  The locale \<open>flag_word\<close> is the contract of a word of flags, interpreted on the three words
  of a task.  Shown: a function changes only its flag, and the flags without a clearing function stay.  \<open>First_Task\<close> has the
  first task with its signal structure and handlers.

  \<^bold>\<open>Process creation\<close>, \<^verbatim>\<open>fork.c\<close>: \<open>Kernel\<close> has the kernel's objects on heaps from addresses (tasks, address spaces, file
  tables, signal structures, seccomp filters) and their reference counts, \<open>Stack_Account\<close> the accounting of kernel stacks,
  \<open>Copy_Mm\<close> the copy of an address space, \<open>Copy_Process\<close> the function \<open>copy_process\<close>.  Its chain of error labels is the combinator
  \<open>attempt\<close>: a step, its undoing, and the rest.  What a subsystem outside \<^verbatim>\<open>fork.c\<close> does is a state \<open>ext\<close> with the operations
  of \<open>fork_env\<close>, and \<open>subsystems_ok\<close> says that releasing undoes acquiring.
  \<^item> A fork that fails: the locale \<open>reversible\<close> of \<open>Fork_Undo\<close> is the contract of a step, interpreted on every step; with
    \<open>Fork_Stacks\<close> for stacks and their cache it gives that a failed fork has no effect.
  \<^item> A fork that succeeds: \<open>Fork_Refs\<close> and \<open>Fork_Success\<close> follow the steps, \<open>Fork_Child\<close> describes the new task
    (\<open>new_child\<close>), \<open>Fork_Progress\<close> says when a fork succeeds.
  \<^item> \<open>Do_Fork\<close> has \<open>_do_fork\<close>, the system calls and idle tasks, \<open>Unshare\<close> \<open>unshare\<close>, \<open>Process_Tree\<close> \<open>walk_process_tree\<close>,
    \<open>Task_Release\<close> the last reference to a task, work that is put off, pidfd polling and start-up.
  \<^item> Many calls: \<open>Fork_Family\<close> has the abstract family of processes, which a fork refines as \<open>join\<close>; \<open>Fork_Tree\<close> the tree in it
    that the walk follows; \<open>Fork_System\<close> the invariant \<open>system_ok\<close>, which implies what \<open>copy_process\<close> and \<open>unshare\<close> ask of the
    kernel; \<open>Fork_History\<close> the step relation \<open>kstep\<close> of scheduling, forks, unshares and flag changes, that every history
    from the first task keeps the invariant, and that descendants keep the restrictions of their ancestors.
    \<open>Fork_Samples\<close> is a concrete kernel.

  \<^bold>\<open>Properties.\<close>  The theories \<open>Paging_Properties\<close>, \<open>Fat_Properties\<close>, \<open>Sched_Properties\<close>, \<open>Workers_Properties\<close>,
  \<open>Hooks_Properties\<close>, \<open>Fork_Properties\<close> and \<open>Module_Properties\<close> hold the numbered theorems, each with a concrete instance
  where it has hypotheses.

  \<^bold>\<open>Bounds.\<close>  Integers of C are \<open>int\<close> with the wrap-around or the overflow written out, or words where bits or
  wrap-around matter (flags, page table entries, counters, times).  No loop has fuel.

  \<^bold>\<open>Not modelled.\<close>  Locks, memory order and interrupts: an operation of the kernel is one step, so that races between processors are
  outside the model.  In \<^verbatim>\<open>fork.c\<close>: the creation of slab caches, the futex, timer and lock debugging fields, the alerts of
  \<open>check_mm\<close>, and the writes of thread ids to user memory, which initialise fields or call code that is not in the repository; stacks
  without virtual mapping and processors without memory management, which the configuration excludes.  In \<^verbatim>\<open>sched.h\<close> and
  \<^verbatim>\<open>init_task.c\<close>: the fields and prototypes of the scheduler and other subsystems, whose code is not in the repository.  The exit
  of a task is not in the repository either, so histories only add tasks.  Measured run times of the sum programs.  Makefiles and
  documents.
\<close>

end
